(* ===== verification/Prelude.thy ===== *)
theory Prelude
  imports Main "HOL-Library.Word"
begin

text \<open>
  Shared vocabulary of the development: the machine types of the C++ sources
  (\<open>byte\<close>, \<open>bytes\<close>, \<open>u64\<close>, \<open>u256\<close>), the error monad in which every \<open>throw\<close> is a
  value \<open>Inl e\<close>, a monadic \<open>map\<close>, and the lemma collections the component theories
  extend.  \<open>res_simps\<close> rewrites the error monad, \<open>be_simps\<close> the big-endian codecs.
\<close>

named_theorems res_simps
named_theorems be_simps

type_synonym byte = "8 word"
type_synonym bytes = "byte list"
type_synonym u32 = "32 word"
type_synonym u64 = "64 word"
type_synonym u256 = "256 word"
type_synonym h256 = "256 word"
type_synonym address = "160 word"

subsection \<open>The error monad\<close>

text \<open>
  A C++ function that may throw returns \<open>'e + 'a\<close>: \<open>Inl\<close> is the exception, \<open>Inr\<close>
  the value.  \<open>bindE\<close> is the sequencing of two statements, the second of which runs
  only when the first did not throw.
\<close>

definition bindE :: "'e + 'a \<Rightarrow> ('a \<Rightarrow> 'e + 'b) \<Rightarrow> 'e + 'b" where
  "bindE m f = (case m of Inl e \<Rightarrow> Inl e | Inr x \<Rightarrow> f x)"

lemma bindE_Inl [simp]: "bindE (Inl e) f = Inl e"
  by (simp add: bindE_def)

lemma bindE_Inr [simp]: "bindE (Inr x) f = f x"
  by (simp add: bindE_def)

lemma bindE_eq_Inr [res_simps]:
  "bindE m f = Inr y \<longleftrightarrow> (\<exists>x. m = Inr x \<and> f x = Inr y)"
  by (cases m) simp_all

lemma bindE_eq_Inl [res_simps]:
  "bindE m f = Inl e \<longleftrightarrow> m = Inl e \<or> (\<exists>x. m = Inr x \<and> f x = Inl e)"
  by (cases m) simp_all

lemma bindE_Inr_right [simp]: "bindE m Inr = m"
  by (cases m) simp_all

lemma bindE_assoc: "bindE (bindE m f) g = bindE m (\<lambda>x. bindE (f x) g)"
  by (cases m) simp_all

lemma bindE_cong [fundef_cong]:
  "m = m' \<Longrightarrow> (\<And>x. m' = Inr x \<Longrightarrow> f x = g x) \<Longrightarrow> bindE m f = bindE m' g"
  by (cases m') simp_all

lemma if_Inl_eq_Inr [res_simps]:
  "(if c then Inl e else m) = Inr y \<longleftrightarrow> \<not> c \<and> m = Inr y"
  by simp

fun mapE :: "('a \<Rightarrow> 'e + 'b) \<Rightarrow> 'a list \<Rightarrow> 'e + 'b list" where
  "mapE f [] = Inr []"
| "mapE f (x # xs) = bindE (f x) (\<lambda>y. bindE (mapE f xs) (\<lambda>ys. Inr (y # ys)))"

lemma mapE_cong [fundef_cong]:
  "xs = ys \<Longrightarrow> (\<And>x. x \<in> set ys \<Longrightarrow> f x = g x) \<Longrightarrow> mapE f xs = mapE g ys"
  by (induction ys arbitrary: xs) (auto intro!: bindE_cong)

lemma mapE_eq_Inr_iff [res_simps]:
  "mapE f xs = Inr ys \<longleftrightarrow> list_all2 (\<lambda>x y. f x = Inr y) xs ys"
proof (induction xs arbitrary: ys)
  case Nil
  then show ?case by auto
next
  case (Cons x xs)
  then show ?case by (cases ys) (auto simp: res_simps)
qed

lemma mapE_Inr_map: "(\<And>x. x \<in> set xs \<Longrightarrow> f x = Inr (g x)) \<Longrightarrow> mapE f xs = Inr (map g xs)"
  by (induction xs) simp_all

text \<open>Sequencing a state transformer over a list, as a range-\<open>for\<close> whose body may throw.\<close>

fun foldE :: "('a \<Rightarrow> 's \<Rightarrow> 'e + 's) \<Rightarrow> 'a list \<Rightarrow> 's \<Rightarrow> 'e + 's" where
  "foldE f [] s = Inr s"
| "foldE f (x # xs) s = bindE (f x s) (foldE f xs)"

lemma foldE_Nil_fun: "foldE f [] = Inr"
  by (simp add: fun_eq_iff)

lemma foldE_cong [fundef_cong]:
  "xs = ys \<Longrightarrow> s = t \<Longrightarrow> (\<And>x u. x \<in> set ys \<Longrightarrow> f x u = g x u) \<Longrightarrow> foldE f xs s = foldE g ys t"
  by (induction ys arbitrary: xs s t) (auto intro!: bindE_cong)

lemma foldE_append: "foldE f (xs @ ys) s = bindE (foldE f xs s) (foldE f ys)"
  by (induction xs arbitrary: s) (auto simp: bindE_assoc intro!: bindE_cong)

subsection \<open>Lists\<close>

lemma take_eq_self_iff: "take n xs = xs \<longleftrightarrow> length xs \<le> n"
  by auto

lemma nth_Cons_numeral_pos: "0 < n \<Longrightarrow> (x # xs) ! n = xs ! (n - 1)"
  by (cases n) simp_all

subsection \<open>Words\<close>

lemma unat_byte_less [simp]: "unat (b :: byte) < 256"
  using unsigned_less [of b] by simp

lemma of_nat_unat_byte [simp]: "(of_nat (unat b) :: byte) = b"
  by simp

lemma unat_of_nat_byte: "n < 256 \<Longrightarrow> unat (of_nat n :: byte) = n"
  by (simp add: unat_of_nat take_bit_eq_mod)

subsection \<open>Canonical codecs\<close>

text \<open>
  The contract of an encoder and a decoder that are inverse to each other: what is valid is read
  back, and whatever the decoder accepts is the encoding of what it returns.
\<close>

locale canonical_codec =
  fixes enc :: "'a \<Rightarrow> 'b" and dec :: "'b \<Rightarrow> 'e + 'a" and valid :: "'a \<Rightarrow> bool"
  assumes dec_enc: "valid x \<Longrightarrow> dec (enc x) = Inr x"
    and enc_dec: "dec y = Inr x \<Longrightarrow> enc x = y \<and> valid x"
begin

lemma dec_iff: "dec y = Inr x \<longleftrightarrow> valid x \<and> enc x = y"
proof
  assume "dec y = Inr x"
  from enc_dec [OF this] show "valid x \<and> enc x = y" by blast
next
  assume v: "valid x \<and> enc x = y"
  then have "dec (enc x) = Inr x" by (intro dec_enc) simp
  with v show "dec y = Inr x" by simp
qed

lemma enc_inj:
  assumes "valid x" and "valid x'" and e: "enc x = enc x'"
  shows "x = x'"
proof -
  have "Inr x = dec (enc x)" using dec_enc [OF assms(1)] by (rule sym)
  also have "\<dots> = Inr x'" unfolding e by (rule dec_enc [OF assms(2)])
  finally show ?thesis by (simp only: sum.inject)
qed

lemma not_malleable:
  assumes "dec y = Inr x" and "dec y' = Inr x"
  shows "y = y'"
  using conjunct1 [OF enc_dec [OF assms(1)]] conjunct1 [OF enc_dec [OF assms(2)]] by (rule trans [OF sym])

end

end
