(* ===== verification/CommonData.thy ===== *)
theory CommonData
  imports Prelude
begin

text \<open>
  \<open>libdevcore/CommonData.h\<close> and \<open>CommonData.cpp\<close>: big-endian conversion of integers,
  the number of bytes an integer needs, hexadecimal text, nibbles and common prefixes.
  Unbounded integers (\<open>bigint\<close>) and the unsigned template arguments are both read as
  \<open>nat\<close>; the fixed-width instance of \<open>fromBigEndian\<close> is kept on words, where the
  shift drops the high bits as it does in the C++.
\<close>

subsection \<open>Big-endian conversion\<close>

text \<open>\<open>toBigEndian\<close> fills the output from its last byte, shifting the value right each time.\<close>

fun toBigEndian :: "nat \<Rightarrow> nat \<Rightarrow> bytes" where
  "toBigEndian 0 v = []"
| "toBigEndian (Suc n) v = toBigEndian n (v div 256) @ [of_nat (v mod 256)]"

definition fromBigEndian :: "bytes \<Rightarrow> nat" where
  "fromBigEndian bs = foldl (\<lambda>ret b. ret * 256 + unat b) 0 bs"

definition fromBigEndian_word :: "bytes \<Rightarrow> 'w::len word" where
  "fromBigEndian_word bs = foldl (\<lambda>ret b. or (push_bit 8 ret) (ucast b)) 0 bs"

fun bytesRequired :: "nat \<Rightarrow> nat" where
  "bytesRequired i = (if i = 0 then 0 else Suc (bytesRequired (i div 256)))"

declare bytesRequired.simps [simp del]

text \<open>\<open>toCompactBigEndian\<close>: just enough bytes, but at least \<open>_min\<close>.\<close>

definition toCompactBigEndian :: "nat \<Rightarrow> nat \<Rightarrow> bytes" where
  "toCompactBigEndian v mn = toBigEndian (max mn (bytesRequired v)) v"

lemma length_toBigEndian [simp]: "length (toBigEndian n v) = n"
  by (induction n v rule: toBigEndian.induct) simp_all

lemma fromBigEndian_Nil [simp]: "fromBigEndian [] = 0"
  by (simp add: fromBigEndian_def)

lemma fromBigEndian_snoc [simp]: "fromBigEndian (bs @ [b]) = fromBigEndian bs * 256 + unat b"
  by (simp add: fromBigEndian_def)

lemma fromBigEndian_append:
  "fromBigEndian (as @ bs) = fromBigEndian as * 256 ^ length bs + fromBigEndian bs"
proof (induction bs rule: rev_induct)
  case Nil
  then show ?case by simp
next
  case (snoc b bs)
  have "fromBigEndian (as @ bs @ [b]) = fromBigEndian (as @ bs) * 256 + unat b"
    using fromBigEndian_snoc [of "as @ bs" b] by simp
  with snoc show ?case by (simp add: algebra_simps)
qed

lemma fromBigEndian_Cons: "fromBigEndian (b # bs) = unat b * 256 ^ length bs + fromBigEndian bs"
  using fromBigEndian_append [of "[b]" bs] by (simp add: fromBigEndian_def)

lemma fromBigEndian_less: "fromBigEndian bs < 256 ^ length bs"
proof (induction bs rule: rev_induct)
  case (snoc b bs)
  have "fromBigEndian bs * 256 + unat b < (fromBigEndian bs + 1) * 256"
    using unat_byte_less [of b] by simp
  also have "\<dots> \<le> 256 ^ length bs * 256"
    using snoc by simp
  finally show ?case by simp
qed simp

lemma fromBigEndian_toBigEndian: "fromBigEndian (toBigEndian n v) = v mod 256 ^ n"
proof (induction n v rule: toBigEndian.induct)
  case (2 n v)
  have "fromBigEndian (toBigEndian (Suc n) v) = v div 256 mod 256 ^ n * 256 + v mod 256"
    using 2 by (simp add: unat_of_nat_byte)
  also have "\<dots> = v mod (256 * 256 ^ n)"
    by (simp add: mod_mult2_eq)
  finally show ?case by simp
qed simp

lemma toBigEndian_fromBigEndian: "toBigEndian (length bs) (fromBigEndian bs) = bs"
proof (induction bs rule: rev_induct)
  case (snoc b bs)
  have "(fromBigEndian bs * 256 + unat b) div 256 = fromBigEndian bs"
    and "(fromBigEndian bs * 256 + unat b) mod 256 = unat b"
    using unat_byte_less [of b] by simp_all
  with snoc show ?case by simp
qed simp

subsection \<open>The number of bytes an integer needs\<close>

lemma bytesRequired_0 [simp]: "bytesRequired 0 = 0"
  by (subst bytesRequired.simps) simp

lemma bytesRequired_pos: "0 < i \<Longrightarrow> bytesRequired i = Suc (bytesRequired (i div 256))"
  by (subst bytesRequired.simps) simp

lemma bytesRequired_eq_0 [simp]: "bytesRequired i = 0 \<longleftrightarrow> i = 0"
  by (cases "i = 0") (simp_all add: bytesRequired_pos)

lemma bytesRequired_upper: "i < 256 ^ bytesRequired i"
proof (induction i rule: bytesRequired.induct)
  case (1 i)
  show ?case
  proof (cases "i = 0")
    case False
    then have "i div 256 < 256 ^ bytesRequired (i div 256)" using 1 by simp
    then have "i < 256 * 256 ^ bytesRequired (i div 256)"
      by (metis div_less_iff_less_mult mult.commute zero_less_numeral)
    with False show ?thesis by (simp add: bytesRequired_pos)
  qed simp
qed

lemma bytesRequired_lower: "0 < i \<Longrightarrow> 256 ^ (bytesRequired i - 1) \<le> i"
proof (induction i rule: bytesRequired.induct)
  case (1 i)
  show ?case
  proof (cases "i < 256")
    case True
    with 1(2) show ?thesis by (simp add: bytesRequired_pos)
  next
    case False
    then have pos: "0 < i div 256" by simp
    then have "256 ^ (bytesRequired (i div 256) - 1) \<le> i div 256"
      using 1 by simp
    then have "256 * 256 ^ (bytesRequired (i div 256) - 1) \<le> i" by simp
    moreover have "bytesRequired (i div 256) \<noteq> 0" using pos by simp
    ultimately show ?thesis
      using 1(2) by (cases "bytesRequired (i div 256)") (simp_all add: bytesRequired_pos)
  qed
qed

lemma bytesRequired_le: "i < 256 ^ n \<Longrightarrow> bytesRequired i \<le> n"
proof (cases "i = 0")
  case False
  assume i: "i < 256 ^ n"
  from False have "(256::nat) ^ (bytesRequired i - 1) \<le> i"
    by (intro bytesRequired_lower) simp
  then have "(256::nat) ^ (bytesRequired i - 1) < 256 ^ n"
    using i by (rule le_less_trans)
  then have "bytesRequired i - 1 < n"
    by (rule power_less_imp_less_exp [rotated]) simp
  then show ?thesis by simp
qed simp

lemma bytesRequired_fromBigEndian:
  "bs \<noteq> [] \<Longrightarrow> hd bs \<noteq> 0 \<Longrightarrow> bytesRequired (fromBigEndian bs) = length bs"
proof -
  assume ne: "bs \<noteq> []" and h: "hd bs \<noteq> 0"
  then obtain b cs where bs: "bs = b # cs" by (cases bs) auto
  from h bs have "unat b \<noteq> 0" by (simp add: unat_eq_0)
  then have "1 * 256 ^ length cs \<le> unat b * 256 ^ length cs"
    by (intro mult_right_mono) simp_all
  then have ge: "256 ^ length cs \<le> fromBigEndian bs"
    unfolding bs fromBigEndian_Cons by linarith
  have "\<not> bytesRequired (fromBigEndian bs) \<le> length cs"
  proof
    assume "bytesRequired (fromBigEndian bs) \<le> length cs"
    then have "(256::nat) ^ bytesRequired (fromBigEndian bs) \<le> 256 ^ length cs"
      by (intro power_increasing) simp_all
    with ge bytesRequired_upper [of "fromBigEndian bs"] show False by linarith
  qed
  moreover have "bytesRequired (fromBigEndian bs) \<le> length bs"
    by (rule bytesRequired_le) (rule fromBigEndian_less)
  ultimately show ?thesis by (simp add: bs)
qed

lemma fromBigEndian_toBigEndian_br [simp]:
  "fromBigEndian (toBigEndian (bytesRequired v) v) = v"
  by (simp add: fromBigEndian_toBigEndian bytesRequired_upper)

lemma hd_toBigEndian_br: "0 < v \<Longrightarrow> hd (toBigEndian (bytesRequired v) v) \<noteq> 0"
proof
  assume v: "0 < v" and z: "hd (toBigEndian (bytesRequired v) v) = 0"
  obtain m where m: "bytesRequired v = Suc m"
    using v by (cases "bytesRequired v") simp_all
  then obtain b cs where bs: "toBigEndian (bytesRequired v) v = b # cs" and len: "length cs = m"
    by (metis length_Suc_conv length_toBigEndian)
  with z have "fromBigEndian (toBigEndian (bytesRequired v) v) = fromBigEndian cs"
    by (simp add: fromBigEndian_Cons)
  then have "v < 256 ^ m" using fromBigEndian_less [of cs] len by simp
  then have "bytesRequired v \<le> m" by (rule bytesRequired_le)
  with m show False by simp
qed

text \<open>The fixed-width reader agrees with the unbounded one while the bytes fit.\<close>

lemma unat_shift_or_byte:
  fixes r :: "'w::len word"
  assumes "8 \<le> LENGTH('w)"
  shows "or (push_bit 8 r) (ucast (b :: byte)) = r * 256 + of_nat (unat b)"
proof -
  have "and (push_bit 8 r) (ucast b) = 0"
    using bit_imp_le_length [of b] by (fastforce intro!: bit_word_eqI simp: bit_simps)
  then have "or (push_bit 8 r) (ucast b) = push_bit 8 r + ucast b"
    by (simp add: disjunctive_add_eq_or)
  then show ?thesis
    by (simp add: push_bit_eq_mult mult.commute)
qed

lemma fromBigEndian_word_eq:
  assumes "8 \<le> LENGTH('w::len)"
  shows "(fromBigEndian_word bs :: 'w word) = of_nat (fromBigEndian bs)"
proof (induction bs rule: rev_induct)
  case (snoc b bs)
  then show ?case
    by (simp add: fromBigEndian_word_def unat_shift_or_byte assms)
qed (simp add: fromBigEndian_word_def)

subsection \<open>Hexadecimal text\<close>

datatype hex_error = BadHexCharacter

datatype WhenError = DontThrow | Throw

definition hexdigits :: string where
  "hexdigits = ''0123456789abcdef''"

fun toHex :: "bytes \<Rightarrow> string" where
  "toHex [] = []"
| "toHex (b # bs) = hexdigits ! (unat b div 16) # hexdigits ! (unat b mod 16) # toHex bs"

definition toHexPrefixed :: "bytes \<Rightarrow> string" where
  "toHexPrefixed bs = ''0x'' @ toHex bs"

definition fromHexChar :: "char \<Rightarrow> int" where
  "fromHexChar c = (let i = int (of_char c) in
     if 48 \<le> i \<and> i \<le> 57 then i - 48
     else if 97 \<le> i \<and> i \<le> 102 then i - 97 + 10
     else if 65 \<le> i \<and> i \<le> 70 then i - 65 + 10
     else - 1)"

definition isHex :: "string \<Rightarrow> bool" where
  "isHex s = list_all (\<lambda>c. fromHexChar c \<noteq> - 1)
     (if take 2 s = ''0x'' then drop 2 s else s)"

text \<open>The pair loop of \<open>fromHex\<close>: \<open>None\<close> is a bad character.\<close>

fun fromHexPairs :: "string \<Rightarrow> bytes option" where
  "fromHexPairs (h # l # cs) =
     (if fromHexChar h \<noteq> - 1 \<and> fromHexChar l \<noteq> - 1
      then map_option ((#) (of_int (fromHexChar h * 16 + fromHexChar l))) (fromHexPairs cs)
      else None)"
| "fromHexPairs _ = Some []"

definition fromHex :: "string \<Rightarrow> WhenError \<Rightarrow> hex_error + bytes" where
  "fromHex s thr =
     (let bad = (if thr = Throw then Inl BadHexCharacter else Inr []);
          s0 = (if 2 \<le> length s \<and> s ! 0 = CHR ''0'' \<and> s ! 1 = CHR ''x'' then 2 else 0)
      in if odd (length s)
         then (let h = fromHexChar (s ! s0) in
               if h \<noteq> - 1
               then (case fromHexPairs (drop (Suc s0) s) of
                       None \<Rightarrow> bad | Some bs \<Rightarrow> Inr (of_int h # bs))
               else bad)
         else (case fromHexPairs (drop s0 s) of None \<Rightarrow> bad | Some bs \<Rightarrow> Inr bs))"

definition asNibbles :: "bytes \<Rightarrow> bytes" where
  "asNibbles bs = concat (map (\<lambda>b. [b div 16, b mod 16]) bs)"

fun commonPrefix :: "'a list \<Rightarrow> 'a list \<Rightarrow> nat" where
  "commonPrefix (x # xs) (y # ys) = (if x = y then Suc (commonPrefix xs ys) else 0)"
| "commonPrefix _ _ = 0"

lemma length_toHex [simp]: "length (toHex bs) = 2 * length bs"
  by (induction bs) simp_all

lemma fromHexChar_digit: "n < 16 \<Longrightarrow> fromHexChar (hexdigits ! n) = int n"
proof -
  have "\<forall>n\<in>set [0..<16]. fromHexChar (hexdigits ! n) = int n"
    by (simp add: upt_rec fromHexChar_def hexdigits_def)
  moreover assume "n < 16"
  ultimately show ?thesis by simp
qed

lemma fromHexPairs_toHex [simp]: "fromHexPairs (toHex bs) = Some bs"
proof (induction bs)
  case (Cons b bs)
  have "unat b div 16 < 16" using unat_byte_less [of b] by (simp add: less_mult_imp_div_less)
  moreover have "unat b mod 16 < 16" by simp
  moreover have "of_int (int (unat b div 16) * 16 + int (unat b mod 16)) = b"
    by (metis div_mult_mod_eq of_int_of_nat_eq of_nat_add of_nat_mult of_nat_numeral
        of_nat_unat_byte)
  ultimately show ?case
    using Cons by (simp add: fromHexChar_digit)
qed simp

lemma hexdigit_not_x: "n < 16 \<Longrightarrow> hexdigits ! n \<noteq> CHR ''x''"
  using fromHexChar_digit [of n] by (auto simp: fromHexChar_def)

lemma toHex_no_prefix: "2 \<le> length (toHex bs) \<Longrightarrow> toHex bs ! 1 \<noteq> CHR ''x''"
  by (cases bs) (simp_all add: hexdigit_not_x)

lemma fromHex_toHex: "fromHex (toHex bs) thr = Inr bs"
  using toHex_no_prefix [of bs] by (auto simp: fromHex_def)

lemma fromHex_toHexPrefixed: "fromHex (toHexPrefixed bs) thr = Inr bs"
  by (simp add: fromHex_def toHexPrefixed_def)

lemma isHex_toHexPrefixed: "isHex (toHexPrefixed bs)"
proof -
  have "list_all (\<lambda>c. fromHexChar c \<noteq> - 1) (toHex bs)"
  proof (induction bs)
    case (Cons b bs)
    have "unat b div 16 < 16" using unat_byte_less [of b] by (simp add: less_mult_imp_div_less)
    with Cons show ?case by (simp add: fromHexChar_digit)
  qed simp
  then show ?thesis by (simp add: isHex_def toHexPrefixed_def)
qed

lemma commonPrefix_take: "take (commonPrefix xs ys) xs = take (commonPrefix xs ys) ys"
  by (induction xs ys rule: commonPrefix.induct) simp_all

lemma commonPrefix_le: "commonPrefix xs ys \<le> length xs" "commonPrefix xs ys \<le> length ys"
  by (induction xs ys rule: commonPrefix.induct) simp_all

lemma commonPrefix_max:
  "commonPrefix xs ys < length xs \<Longrightarrow> commonPrefix xs ys < length ys \<Longrightarrow>
     xs ! commonPrefix xs ys \<noteq> ys ! commonPrefix xs ys"
  by (induction xs ys rule: commonPrefix.induct) (auto split: if_splits)

end
