(* ===== verification/RLP.thy ===== *)
theory RLP
  imports CommonData
begin

text \<open>
  The reader class \<open>dev::RLP\<close> (\<open>libdevcore/RLP.h\<close>, \<open>RLP.cpp\<close>).  An \<open>RLP\<close> object is
  a view \<open>m_data\<close> into a byte buffer; here it is the byte list itself.  Every accessor
  that may throw returns \<open>rlp_error + 'a\<close>.  The size arithmetic of \<open>length\<close> is done on
  64-bit words, as \<open>size_t\<close> does it.  \<open>UndefinedBehaviour\<close> marks a read through a
  null pointer.  The list iterator, whose termination depends on
  positions inside the parent's buffer, keeps those positions explicitly, with \<open>None\<close>
  for the null pointer.
\<close>

datatype rlp_error = BadRLP | OversizeRLP | UndersizeRLP | BadCast | RLPException
  | UndefinedBehaviour

text \<open>The strictness flags.  \<open>VeryStrict\<close>, the constructor's default, is all three.\<close>

record strictness =
  ThrowOnFail :: bool
  FailIfTooBig :: bool
  FailIfTooSmall :: bool
  AllowNonCanon :: bool

definition VeryStrict :: strictness where
  "VeryStrict = \<lparr>ThrowOnFail = True, FailIfTooBig = True, FailIfTooSmall = True,
     AllowNonCanon = False\<rparr>"

definition Strict :: strictness where
  "Strict = \<lparr>ThrowOnFail = True, FailIfTooBig = True, FailIfTooSmall = False,
     AllowNonCanon = False\<rparr>"

definition LaissezFaire :: strictness where
  "LaissezFaire = \<lparr>ThrowOnFail = False, FailIfTooBig = False, FailIfTooSmall = False,
     AllowNonCanon = True\<rparr>"

definition ThrowOnFail_FailIfTooSmall :: strictness where
  "ThrowOnFail_FailIfTooSmall = \<lparr>ThrowOnFail = True, FailIfTooBig = False,
     FailIfTooSmall = True, AllowNonCanon = False\<rparr>"

subsection \<open>The header byte\<close>

abbreviation c_rlpMaxLengthBytes :: nat where "c_rlpMaxLengthBytes \<equiv> 8"
abbreviation c_rlpDataImmLenStart :: nat where "c_rlpDataImmLenStart \<equiv> 0x80"
abbreviation c_rlpListStart :: nat where "c_rlpListStart \<equiv> 0xc0"
abbreviation c_rlpDataImmLenCount :: nat where "c_rlpDataImmLenCount \<equiv> 0x38"
abbreviation c_rlpDataIndLenZero :: nat where "c_rlpDataIndLenZero \<equiv> 0xb7"
abbreviation c_rlpListImmLenCount :: nat where "c_rlpListImmLenCount \<equiv> 0x38"
abbreviation c_rlpListIndLenZero :: nat where "c_rlpListIndLenZero \<equiv> 0xf7"

definition isNull :: "bytes \<Rightarrow> bool" where
  "isNull d = (length d = 0)"

definition isEmpty :: "bytes \<Rightarrow> bool" where
  "isEmpty d = (\<not> isNull d \<and>
     (unat (d ! 0) = c_rlpDataImmLenStart \<or> unat (d ! 0) = c_rlpListStart))"

definition isData :: "bytes \<Rightarrow> bool" where
  "isData d = (\<not> isNull d \<and> unat (d ! 0) < c_rlpListStart)"

definition isList :: "bytes \<Rightarrow> bool" where
  "isList d = (\<not> isNull d \<and> c_rlpListStart \<le> unat (d ! 0))"

definition isSingleByte :: "bytes \<Rightarrow> bool" where
  "isSingleByte d = (\<not> isNull d \<and> unat (d ! 0) < c_rlpDataImmLenStart)"

definition requireGood :: "bytes \<Rightarrow> rlp_error + unit" where
  "requireGood d =
     (if isNull d then Inl BadRLP
      else if unat (d ! 0) \<noteq> c_rlpDataImmLenStart + 1 then Inr ()
      else if length d < 2 then Inl BadRLP
      else if unat (d ! 1) < c_rlpDataImmLenStart then Inl BadRLP
      else Inr ())"

definition lengthSize :: "bytes \<Rightarrow> nat" where
  "lengthSize d =
     (if isData d \<and> c_rlpDataIndLenZero < unat (d ! 0) then unat (d ! 0) - c_rlpDataIndLenZero
      else if isList d \<and> c_rlpListIndLenZero < unat (d ! 0)
      then unat (d ! 0) - c_rlpListIndLenZero
      else 0)"

definition payloadOffset :: "bytes \<Rightarrow> nat" where
  "payloadOffset d = (if isSingleByte d then 0 else 1 + lengthSize d)"

text \<open>
  \<open>RLP::length\<close>.  \<open>indirect ls mn\<close> is the branch with a length field of \<open>ls\<close> bytes;
  \<open>mn\<close> is the smallest length that may be written that way.  The final check leaves
  room for adding the payload offset without overflow.
\<close>

definition rlp_length :: "bytes \<Rightarrow> rlp_error + nat" where
  "rlp_length d =
     (if isNull d then Inr 0
      else bindE (requireGood d) (\<lambda>_.
        let n = unat (d ! 0);
            indirect = (\<lambda>ls mn.
              if length d \<le> ls then Inl BadRLP
              else if 1 < length d \<and> d ! 1 = 0 then Inl BadRLP
              else if 8 < ls then Inl UndersizeRLP
              else if d ! 1 = 0 then Inl BadRLP
              else let ret = (fromBigEndian_word (take ls (drop 1 d)) :: u64) in
                if unat ret < mn then Inl BadRLP
                else if unat (- 1 - 0x100 :: u64) \<le> unat ret then Inl UndersizeRLP
                else Inr (unat ret))
        in if n < c_rlpDataImmLenStart then Inr 1
           else if n \<le> c_rlpDataIndLenZero then Inr (n - c_rlpDataImmLenStart)
           else if n < c_rlpListStart
           then indirect (n - c_rlpDataIndLenZero)
                  (c_rlpListStart - c_rlpDataImmLenStart - c_rlpMaxLengthBytes)
           else if n \<le> c_rlpListIndLenZero then Inr (n - c_rlpListStart)
           else indirect (n - c_rlpListIndLenZero)
                  (0x100 - c_rlpListStart - c_rlpMaxLengthBytes)))"

definition actualSize :: "bytes \<Rightarrow> rlp_error + nat" where
  "actualSize d =
     (if isNull d then Inr 0
      else if isSingleByte d then Inr 1
      else if isData d \<or> isList d
      then bindE (rlp_length d) (\<lambda>l. Inr (payloadOffset d + l))
      else Inr 0)"

text \<open>
  The constructor: the first check may reset \<open>m_data\<close> to null (when not throwing),
  after which the second one compares the null view's size 0 with the original size.
\<close>

definition RLP_ctor :: "strictness \<Rightarrow> bytes \<Rightarrow> rlp_error + bytes" where
  "RLP_ctor s d =
     bindE (if FailIfTooBig s
            then bindE (actualSize d) (\<lambda>a.
                   if a < length d
                   then (if ThrowOnFail s then Inl OversizeRLP else Inr [])
                   else Inr d)
            else Inr d) (\<lambda>m.
     if FailIfTooSmall s
     then bindE (actualSize m) (\<lambda>a.
            if length d < a
            then (if ThrowOnFail s then Inl UndersizeRLP else Inr [])
            else Inr m)
     else Inr m)"

definition sizeAsEncoded :: "bytes \<Rightarrow> rlp_error + nat" where
  "sizeAsEncoded d = bindE (RLP_ctor ThrowOnFail_FailIfTooSmall d) actualSize"

text \<open>
  \<open>vector_ref::cropped\<close>: an out-of-bounds crop is the null view.  \<open>croppedFrom\<close> is
  the one-argument overload.
\<close>

definition cropped :: "bytes \<Rightarrow> nat \<Rightarrow> nat \<Rightarrow> bytes" where
  "cropped d b c = (if b + c \<le> length d then take c (drop b d) else [])"

definition croppedFrom :: "bytes \<Rightarrow> nat \<Rightarrow> bytes" where
  "croppedFrom d b = (if b \<le> length d then drop b d else [])"

definition payload :: "bytes \<Rightarrow> rlp_error + bytes" where
  "payload d = bindE (rlp_length d) (\<lambda>l.
     if length d < l then Inl BadRLP else Inr (cropped d (payloadOffset d) l))"

definition isInt :: "bytes \<Rightarrow> rlp_error + bool" where
  "isInt d =
     (if isNull d then Inr False
      else bindE (requireGood d) (\<lambda>_.
        let n = unat (d ! 0) in
        if n < c_rlpDataImmLenStart then Inr (n \<noteq> 0)
        else if n = c_rlpDataImmLenStart then Inr True
        else if n \<le> c_rlpDataIndLenZero
        then (if length d \<le> 1 then Inl BadRLP else Inr (d ! 1 \<noteq> 0))
        else if n < c_rlpListStart
        then (if length d \<le> 1 + n - c_rlpDataIndLenZero then Inl BadRLP
              else Inr (d ! (1 + n - c_rlpDataIndLenZero) \<noteq> 0))
        else Inr False))"

subsection \<open>Conversions\<close>

text \<open>
  \<open>toBytes\<close> copies \<open>length()\<close> bytes starting at the payload's pointer.  When the payload
  was cropped to the null view that pointer is null, and the copy is undefined behaviour.
\<close>

definition toBytes :: "strictness \<Rightarrow> bytes \<Rightarrow> rlp_error + bytes" where
  "toBytes f d =
     (if \<not> isData d then (if ThrowOnFail f then Inl BadCast else Inr [])
      else bindE (payload d) (\<lambda>p. bindE (rlp_length d) (\<lambda>l.
             if payloadOffset d + l \<le> length d then Inr p else Inl UndefinedBehaviour)))"

definition toInt :: "nat \<Rightarrow> strictness \<Rightarrow> bytes \<Rightarrow> rlp_error + nat" where
  "toInt maxSize f d =
     bindE (requireGood d) (\<lambda>_. bindE (isInt d) (\<lambda>i.
       if (\<not> i \<and> \<not> AllowNonCanon f) \<or> isList d \<or> isNull d
       then (if ThrowOnFail f then Inl BadCast else Inr 0)
       else bindE (payload d) (\<lambda>p.
         if maxSize < length p \<and> FailIfTooBig f
         then (if ThrowOnFail f then Inl BadCast else Inr 0)
         else Inr (if length p \<le> maxSize then fromBigEndian p
                   else fromBigEndian p mod 256 ^ maxSize))))"

text \<open>\<open>toHash\<close>: right-aligned copy into \<open>N\<close> bytes, at most \<open>N\<close> of the payload's first bytes.\<close>

definition toHash :: "nat \<Rightarrow> strictness \<Rightarrow> bytes \<Rightarrow> rlp_error + bytes" where
  "toHash N f d =
     bindE (requireGood d) (\<lambda>_. bindE (payload d) (\<lambda>p.
       let l = length p in
       if \<not> isData d \<or> (N < l \<and> FailIfTooBig f) \<or> (l < N \<and> FailIfTooSmall f)
       then (if ThrowOnFail f then Inl BadCast else Inr (replicate N 0))
       else let s = min N l in Inr (replicate (N - s) 0 @ take s p)))"

subsection \<open>Lists: item count, subscript, iteration\<close>

text \<open>A bytes-shrinking fact the list loops need for termination.\<close>

lemma actualSize_pos: "\<not> isNull d \<Longrightarrow> actualSize d = Inr a \<Longrightarrow> 0 < a"
  by (auto simp: actualSize_def payloadOffset_def isData_def isList_def res_simps
      split: if_splits)

lemma sizeAsEncoded_Inr:
  "sizeAsEncoded d = Inr n \<longleftrightarrow> actualSize d = Inr n \<and> n \<le> length d"
  by (auto simp: sizeAsEncoded_def RLP_ctor_def ThrowOnFail_FailIfTooSmall_def res_simps
      split: if_splits)

lemma sizeAsEncoded_pos: "d \<noteq> [] \<Longrightarrow> sizeAsEncoded d = Inr n \<Longrightarrow> 0 < n \<and> n \<le> length d"
  using actualSize_pos [of d n] by (simp add: sizeAsEncoded_Inr isNull_def)

text \<open>The loop of \<open>RLP::items\<close> over the remaining payload.\<close>

function items_loop :: "bytes \<Rightarrow> rlp_error + nat" where
  "items_loop d =
     (if d = [] then Inr 0
      else bindE (sizeAsEncoded d) (\<lambda>n. bindE (items_loop (croppedFrom d n)) (\<lambda>k. Inr (Suc k))))"
  by pat_completeness auto
termination
  by (relation "measure length") (auto simp: croppedFrom_def dest: sizeAsEncoded_pos)

declare items_loop.simps [simp del]

definition items :: "bytes \<Rightarrow> rlp_error + nat" where
  "items d = (if isList d then bindE (payload d) items_loop else Inr 0)"

definition itemCount :: "bytes \<Rightarrow> rlp_error + nat" where
  "itemCount d = (if isList d then items d else Inr 0)"

definition itemCountStrict :: "bytes \<Rightarrow> rlp_error + nat" where
  "itemCountStrict d = (if \<not> isList d then Inl BadCast else items d)"

text \<open>
  The subscript keeps a cache of the last item: \<open>lastIndex = None\<close> is the initial
  value \<open>(size_t) -1\<close>, larger than every index.
\<close>

record rlp_cache =
  lastIndex :: "nat option"
  lastEnd :: nat
  lastItem :: bytes

definition initCache :: rlp_cache where
  "initCache = \<lparr>lastIndex = None, lastEnd = 0, lastItem = []\<rparr>"

text \<open>The forward loop of the subscript, from cached index \<open>k\<close> to \<open>i\<close>.\<close>

function subscript_loop :: "bytes \<Rightarrow> nat \<Rightarrow> nat \<Rightarrow> nat \<Rightarrow> bytes \<Rightarrow>
    rlp_error + (nat \<times> nat \<times> bytes)" where
  "subscript_loop pl i k e it =
     (if k < i \<and> it \<noteq> []
      then (let rest = croppedFrom pl e in
            bindE (sizeAsEncoded rest) (\<lambda>n.
              let it' = cropped rest 0 n in
              subscript_loop pl i (Suc k) (e + length it') it'))
      else Inr (k, e, it))"
  by pat_completeness auto
termination
  by (relation "measure (\<lambda>(pl, i, k, e, it). i - k)") auto

declare subscript_loop.simps [simp del]

definition subscript :: "bytes \<Rightarrow> nat \<Rightarrow> rlp_cache \<Rightarrow> rlp_error + (bytes \<times> rlp_cache)" where
  "subscript d i c =
     bindE (if (case lastIndex c of None \<Rightarrow> True | Some k \<Rightarrow> i < k)
            then bindE (payload d) (\<lambda>pl. bindE (sizeAsEncoded pl) (\<lambda>n.
                   Inr (0, n, cropped pl 0 n)))
            else Inr (the (lastIndex c), lastEnd c, lastItem c)) (\<lambda>(k, e, it).
     bindE (payload d) (\<lambda>pl.
     bindE (subscript_loop pl i k e it) (\<lambda>(k', e', it').
     bindE (RLP_ctor ThrowOnFail_FailIfTooSmall it') (\<lambda>r.
     Inr (r, \<lparr>lastIndex = Some k', lastEnd = e', lastItem = it'\<rparr>)))))"

text \<open>
  The iterator: position and size of the current item inside the parent's buffer, and
  the number of payload bytes after it.  Equality compares pointer and size only.
\<close>

record rlp_iter =
  itPos :: "nat option"
  itCount :: nat
  itRemaining :: nat

definition viewAt :: "bytes \<Rightarrow> nat option \<Rightarrow> nat \<Rightarrow> bytes" where
  "viewAt d p n = (case p of None \<Rightarrow> [] | Some o' \<Rightarrow> take n (drop o' d))"

definition iter_begin :: "bytes \<Rightarrow> rlp_error + rlp_iter" where
  "iter_begin d =
     (if isList d
      then bindE (rlp_length d) (\<lambda>l.
           if length d < l then Inl BadRLP
           else let p = (if payloadOffset d + l \<le> length d then Some (payloadOffset d) else None);
                    pl = viewAt d p l
                in bindE (sizeAsEncoded pl) (\<lambda>n.
                   Inr \<lparr>itPos = p, itCount = n, itRemaining = length pl - n\<rparr>))
      else Inr \<lparr>itPos = (if d = [] then None else Some (length d)), itCount = 0,
             itRemaining = 0\<rparr>)"

definition iter_end :: "bytes \<Rightarrow> rlp_iter" where
  "iter_end d = \<lparr>itPos = (if d = [] then None else Some (length d)), itCount = 0,
     itRemaining = 0\<rparr>"

definition iter_eq :: "rlp_iter \<Rightarrow> rlp_iter \<Rightarrow> bool" where
  "iter_eq a b = (itPos a = itPos b \<and> itCount a = itCount b)"

definition iter_next :: "bytes \<Rightarrow> rlp_iter \<Rightarrow> rlp_error + rlp_iter" where
  "iter_next d it =
     (let p = map_option (\<lambda>o'. o' + itCount it) (itPos it) in
      if itRemaining it \<noteq> 0
      then bindE (sizeAsEncoded (viewAt d p (itRemaining it))) (\<lambda>n.
             Inr \<lparr>itPos = p, itCount = n,
                itRemaining = itRemaining it - min (itRemaining it) n\<rparr>)
      else Inr (it\<lparr>itPos := p, itCount := 0\<rparr>))"

definition iter_deref :: "bytes \<Rightarrow> rlp_iter \<Rightarrow> rlp_error + bytes" where
  "iter_deref d it = RLP_ctor VeryStrict (viewAt d (itPos it) (itCount it))"

text \<open>
  The range-\<open>for\<close> of \<open>toList\<close>, with fuel: \<open>None\<close> says the loop is still running.
\<close>

fun iter_collect :: "nat \<Rightarrow> bytes \<Rightarrow> rlp_iter \<Rightarrow> (rlp_error + bytes list) option" where
  "iter_collect 0 d it = None"
| "iter_collect (Suc fuel) d it =
     (if iter_eq it (iter_end d) then Some (Inr [])
      else case iter_deref d it of
             Inl e \<Rightarrow> Some (Inl e)
           | Inr x \<Rightarrow>
             (case iter_next d it of
                Inl e \<Rightarrow> Some (Inl e)
              | Inr it' \<Rightarrow> map_option (\<lambda>r. bindE r (\<lambda>xs. Inr (x # xs)))
                             (iter_collect fuel d it')))"

definition toList :: "nat \<Rightarrow> strictness \<Rightarrow> bytes \<Rightarrow> (rlp_error + bytes list) option" where
  "toList fuel f d =
     (if \<not> isList d then Some (if ThrowOnFail f then Inl BadCast else Inr [])
      else case iter_begin d of
             Inl e \<Rightarrow> Some (Inl e)
           | Inr it \<Rightarrow> iter_collect fuel d it)"

end
