(* ===== verification/RLP_Codec.thy ===== *)
theory RLP_Codec
  imports RLP
begin

text \<open>
  What the RLP reader promises.  \<open>rlp_item\<close> is the abstract data model (a byte string or
  a list of items) and \<open>encodeItem\<close> its canonical encoding.  The theory relates the
  reader's accessors to it: strict reading of an encoding gives the item back, strict
  reading accepts nothing but canonical encodings, and the three ways to reach the items of
  a list (\<open>items\<close>, the cached subscript, the iterator) agree.
\<close>

datatype rlp_item = Data bytes | Items "rlp_item list"

definition rlp_header :: "nat \<Rightarrow> nat \<Rightarrow> nat \<Rightarrow> bytes" where
  "rlp_header start indZero len =
     (if len < 0x38 then [of_nat (start + len)]
      else of_nat (indZero + bytesRequired len) # toBigEndian (bytesRequired len) len)"

fun encodeItem :: "rlp_item \<Rightarrow> bytes" where
  "encodeItem (Data b) =
     (if length b = 1 \<and> unat (b ! 0) < 0x80 then b else rlp_header 0x80 0xb7 (length b) @ b)"
| "encodeItem (Items xs) =
     (let p = concat (map encodeItem xs) in rlp_header 0xc0 0xf7 (length p) @ p)"

text \<open>The lengths the reader accepts: below \<open>SIZE_MAX - 0x100\<close>.\<close>

definition rlp_max :: nat where
  "rlp_max = 2 ^ 64 - 1 - 0x100"

fun fits :: "rlp_item \<Rightarrow> bool" where
  "fits (Data b) = (length b < rlp_max)"
| "fits (Items xs) = (list_all fits xs \<and> length (concat (map encodeItem xs)) < rlp_max)"

text \<open>The items of a list payload, one after the other.\<close>

function split_items :: "bytes \<Rightarrow> rlp_error + bytes list" where
  "split_items pl =
     (if pl = [] then Inr []
      else bindE (sizeAsEncoded pl) (\<lambda>n.
           bindE (split_items (drop n pl)) (\<lambda>xs. Inr (take n pl # xs))))"
  by pat_completeness auto
termination
  by (relation "measure length") (auto dest: sizeAsEncoded_pos)

declare split_items.simps [simp del]

lemma split_items_Nil [simp]: "split_items [] = Inr []"
  by (simp add: split_items.simps)

lemma split_items_Cons:
  "pl \<noteq> [] \<Longrightarrow> split_items pl = bindE (sizeAsEncoded pl) (\<lambda>n.
     bindE (split_items (drop n pl)) (\<lambda>xs. Inr (take n pl # xs)))"
  by (subst split_items.simps) simp

lemma concat_split_items: "split_items pl = Inr xs \<Longrightarrow> concat xs = pl"
proof (induction pl arbitrary: xs rule: split_items.induct)
  case (1 pl)
  then show ?case
    by (cases "pl = []") (auto simp: split_items_Cons res_simps)
qed

lemma length_concat_ge: "x \<in> set xs \<Longrightarrow> length x \<le> length (concat xs)"
  by (induction xs) auto

lemma payload_list_shorter: "isList d \<Longrightarrow> payload d = Inr pl \<Longrightarrow> length pl < length d"
  by (auto simp: payload_def cropped_def payloadOffset_def isList_def isSingleByte_def isNull_def
      res_simps split: if_splits)

lemma RLP_ctor_VeryStrict:
  "RLP_ctor VeryStrict d = Inr m \<longleftrightarrow> m = d \<and> actualSize d = Inr (length d)"
  by (auto simp: RLP_ctor_def VeryStrict_def res_simps split: if_splits)

text \<open>The recursive strict reader a client builds from the constructor and the accessors.\<close>

function decodeItem :: "bytes \<Rightarrow> rlp_error + rlp_item" where
  "decodeItem d =
     bindE (RLP_ctor VeryStrict d) (\<lambda>m.
       if isData m then bindE (toBytes Strict m) (\<lambda>b. Inr (Data b))
       else if isList m
       then bindE (payload m) (\<lambda>pl. bindE (split_items pl) (\<lambda>xs.
              bindE (mapE decodeItem xs) (\<lambda>ys. Inr (Items ys))))
       else Inl BadCast)"
  by pat_completeness auto
termination
proof (relation "measure length", goal_cases)
  case (2 d m pl xs x)
  then have "length x \<le> length pl"
    using concat_split_items length_concat_ge by metis
  with 2 show ?case
    using payload_list_shorter [of m pl] by (simp add: RLP_ctor_VeryStrict)
qed simp

declare decodeItem.simps [simp del]

subsection \<open>Reading the header\<close>

lemma unat_fromBigEndian_u64:
  "length bs \<le> 8 \<Longrightarrow> unat (fromBigEndian_word bs :: u64) = fromBigEndian bs"
proof -
  assume "length bs \<le> 8"
  then have "(256::nat) ^ length bs \<le> 256 ^ 8"
    by (intro power_increasing) simp_all
  with fromBigEndian_less [of bs] have "fromBigEndian bs < 2 ^ 64" by simp
  then show ?thesis
    by (simp add: fromBigEndian_word_eq unat_of_nat take_bit_eq_mod)
qed

lemma bytesRequired_le_8: "len < rlp_max \<Longrightarrow> bytesRequired len \<le> 8"
  by (rule bytesRequired_le) (simp add: rlp_max_def)

lemma bytesRequired_ge_1: "0x38 \<le> len \<Longrightarrow> 1 \<le> bytesRequired len"
  by (simp add: bytesRequired_pos)

lemma unat_max_check: "unat (- 1 - 0x100 :: u64) = rlp_max"
  by (simp add: rlp_max_def)

text \<open>
  \<open>rlp_length\<close> read off a header: short form, and the long form whose length field is
  the minimal big-endian representation.
\<close>

lemma toBigEndian_nth0:
  "0 < len \<Longrightarrow> (toBigEndian (bytesRequired len) len @ p) ! 0 \<noteq> 0"
  using hd_toBigEndian_br [of len]
  by (cases "toBigEndian (bytesRequired len) len")
    (auto dest: arg_cong [of _ _ length])

lemma unat_header_byte:
  "a + len < 256 \<Longrightarrow> unat (of_nat (a + len) :: byte) = a + len"
  by (rule unat_of_nat_byte)

lemma rlp_length_short_data:
  assumes "len < 0x38" and h: "unat h = 0x80 + len"
    and "len = 1 \<Longrightarrow> p \<noteq> [] \<and> 0x80 \<le> unat (p ! 0)"
  shows "rlp_length (h # p) = Inr len"
proof -
  have "requireGood (h # p) = Inr ()"
    using assms(3) by (cases p) (auto simp: requireGood_def isNull_def h)
  then show ?thesis
    using assms(1) by (simp add: rlp_length_def isNull_def h)
qed

lemma rlp_length_short_list:
  assumes "len < 0x38" and h: "unat h = 0xc0 + len"
  shows "rlp_length (h # p) = Inr len"
proof -
  have "requireGood (h # p) = Inr ()"
    by (simp add: requireGood_def isNull_def h)
  then show ?thesis
    using assms(1) by (simp add: rlp_length_def isNull_def h)
qed

lemma rlp_length_long:
  assumes "0x38 \<le> len" "len < rlp_max" and z: "z = 0xb7 \<or> z = 0xf7"
    and h: "unat h = z + bytesRequired len"
  shows "rlp_length (h # toBigEndian (bytesRequired len) len @ p) = Inr len"
proof -
  let ?br = "bytesRequired len"
  have br: "1 \<le> ?br" "?br \<le> 8"
    using assms bytesRequired_ge_1 bytesRequired_le_8 by auto
  have good: "requireGood (h # toBigEndian ?br len @ p) = Inr ()"
    using z by (auto simp: requireGood_def isNull_def h)
  have lead: "(toBigEndian ?br len @ p) ! 0 \<noteq> 0"
    using assms by (intro toBigEndian_nth0) simp
  have len: "unat (fromBigEndian_word (toBigEndian ?br len) :: u64) = len"
    using br by (simp add: unat_fromBigEndian_u64)
  from z show ?thesis
  proof
    assume z: "z = 0xb7"
    show ?thesis
      using br lead assms(1,2)
      by (simp add: rlp_length_def good isNull_def h z Let_def len unat_max_check rlp_max_def)
  next
    assume z: "z = 0xf7"
    show ?thesis
      using br lead assms(1,2)
      by (simp add: rlp_length_def good isNull_def h z Let_def len unat_max_check rlp_max_def)
  qed
qed

subsection \<open>Reading an encoding\<close>

text \<open>
  \<open>at_item s d l k\<close>: the buffer \<open>d\<close> starts with an item whose header takes \<open>k\<close> bytes and
  whose payload takes \<open>l\<close>; \<open>s\<close> says whether it is a list.
\<close>

definition at_item :: "bool \<Rightarrow> bytes \<Rightarrow> nat \<Rightarrow> nat \<Rightarrow> bool" where
  "at_item s d l k \<longleftrightarrow> d \<noteq> [] \<and> isList d = s \<and> isData d = (\<not> s) \<and> rlp_length d = Inr l \<and>
     payloadOffset d = k \<and> (isSingleByte d \<longrightarrow> k + l = 1)"

lemma at_item_actualSize: "at_item s d l k \<Longrightarrow> actualSize d = Inr (k + l)"
  by (cases s) (auto simp: at_item_def actualSize_def isNull_def)

lemma at_item_payload:
  "at_item s d l k \<Longrightarrow> k + l \<le> length d \<Longrightarrow> payload d = Inr (take l (drop k d))"
  by (auto simp: at_item_def payload_def cropped_def)

lemma at_item_toBytes:
  "at_item False d l k \<Longrightarrow> k + l \<le> length d \<Longrightarrow> toBytes f d = Inr (take l (drop k d))"
  by (simp add: toBytes_def at_item_payload) (simp add: at_item_def)

lemma at_item_single: "unat b < 0x80 \<Longrightarrow> at_item False (b # p) 1 0"
  by (simp add: at_item_def isList_def isData_def isNull_def isSingleByte_def payloadOffset_def
      rlp_length_def requireGood_def)

lemma length_rlp_header:
  "length (rlp_header start z len) = (if len < 0x38 then 1 else 1 + bytesRequired len)"
  by (simp add: rlp_header_def)

lemma at_item_data:
  assumes "length b < rlp_max" and "\<not> (length b = 1 \<and> unat (b ! 0) < 0x80)"
  shows "at_item False (rlp_header 0x80 0xb7 (length b) @ b @ p) (length b)
    (length (rlp_header 0x80 0xb7 (length b)))"
proof (cases "length b < 0x38")
  case True
  define h :: byte where "h = of_nat (0x80 + length b)"
  have h: "unat h = 0x80 + length b"
    unfolding h_def using True by (intro unat_header_byte) simp
  have "rlp_length (h # b @ p) = Inr (length b)"
    using True assms(2) by (intro rlp_length_short_data h) (cases b; simp)+
  moreover have "rlp_header 0x80 0xb7 (length b) = [h]"
    using True by (simp only: rlp_header_def h_def if_True)
  ultimately show ?thesis
    using h True
    by (simp add: at_item_def isList_def isData_def isNull_def isSingleByte_def
        payloadOffset_def lengthSize_def)
next
  case False
  define h :: byte where "h = of_nat (0xb7 + bytesRequired (length b))"
  have br: "1 \<le> bytesRequired (length b)" "bytesRequired (length b) \<le> 8"
    using False assms(1) bytesRequired_ge_1 bytesRequired_le_8 by auto
  have h: "unat h = 0xb7 + bytesRequired (length b)"
    unfolding h_def using br by (intro unat_header_byte) simp
  have hdr: "rlp_header 0x80 0xb7 (length b)
      = h # toBigEndian (bytesRequired (length b)) (length b)"
    using False by (simp only: rlp_header_def h_def if_False)
  have "rlp_length (h # toBigEndian (bytesRequired (length b)) (length b) @ b @ p)
      = Inr (length b)"
    using False assms(1) h by (intro rlp_length_long [where z = "0xb7"]) auto
  with h br show ?thesis
    by (simp add: at_item_def isList_def isData_def isNull_def isSingleByte_def
        payloadOffset_def lengthSize_def hdr)
qed

lemma at_item_list:
  assumes "length b < rlp_max"
  shows "at_item True (rlp_header 0xc0 0xf7 (length b) @ b @ p) (length b)
    (length (rlp_header 0xc0 0xf7 (length b)))"
proof (cases "length b < 0x38")
  case True
  define h :: byte where "h = of_nat (0xc0 + length b)"
  have h: "unat h = 0xc0 + length b"
    unfolding h_def using True by (intro unat_header_byte) simp
  have "rlp_length (h # b @ p) = Inr (length b)"
    using True by (intro rlp_length_short_list h)
  moreover have "rlp_header 0xc0 0xf7 (length b) = [h]"
    using True by (simp only: rlp_header_def h_def if_True)
  ultimately show ?thesis
    using h True
    by (simp add: at_item_def isList_def isData_def isNull_def isSingleByte_def
        payloadOffset_def lengthSize_def)
next
  case False
  define h :: byte where "h = of_nat (0xf7 + bytesRequired (length b))"
  have br: "1 \<le> bytesRequired (length b)" "bytesRequired (length b) \<le> 8"
    using False assms(1) bytesRequired_ge_1 bytesRequired_le_8 by auto
  have h: "unat h = 0xf7 + bytesRequired (length b)"
    unfolding h_def using br by (intro unat_header_byte) simp
  have hdr: "rlp_header 0xc0 0xf7 (length b)
      = h # toBigEndian (bytesRequired (length b)) (length b)"
    using False by (simp only: rlp_header_def h_def if_False)
  have "rlp_length (h # toBigEndian (bytesRequired (length b)) (length b) @ b @ p)
      = Inr (length b)"
    using False assms(1) h by (intro rlp_length_long [where z = "0xf7"]) auto
  with h br show ?thesis
    by (simp add: at_item_def isList_def isData_def isNull_def isSingleByte_def
        payloadOffset_def lengthSize_def hdr)
qed

lemma at_item_encode:
  assumes "fits it"
  obtains s l k where "at_item s (encodeItem it @ p) l k" and "k + l = length (encodeItem it)"
proof (cases it)
  case (Data b)
  show ?thesis
  proof (cases "length b = 1 \<and> unat (b ! 0) < 0x80")
    case True
    then obtain c where "b = [c]" by (cases b) auto
    with True Data that [of False 1 0] at_item_single [of c p] show ?thesis by simp
  next
    case False
    with Data assms at_item_data [of b p]
      that [of False "length b" "length (rlp_header 0x80 0xb7 (length b))"]
    show ?thesis by (auto simp: Let_def)
  qed
next
  case (Items xs)
  with assms at_item_list [of "concat (map encodeItem xs)" p]
    that [of True "length (concat (map encodeItem xs))"
      "length (rlp_header 0xc0 0xf7 (length (concat (map encodeItem xs))))"]
  show ?thesis by (simp add: Let_def)
qed

lemma encodeItem_ne [simp]: "fits it \<Longrightarrow> encodeItem it \<noteq> []"
proof
  assume "fits it" and e: "encodeItem it = []"
  then obtain s l k where "at_item s (encodeItem it @ []) l k"
    using at_item_encode by blast
  with e show False by (simp add: at_item_def)
qed

lemma sizeAsEncoded_encode: "fits it \<Longrightarrow> sizeAsEncoded (encodeItem it @ p) = Inr (length (encodeItem it))"
proof -
  assume "fits it"
  then obtain s l k where "at_item s (encodeItem it @ p) l k" "k + l = length (encodeItem it)"
    by (rule at_item_encode)
  then show ?thesis by (simp add: sizeAsEncoded_Inr at_item_actualSize)
qed

lemma split_items_encode:
  "list_all fits xs \<Longrightarrow> split_items (concat (map encodeItem xs)) = Inr (map encodeItem xs)"
  by (induction xs) (simp_all add: split_items_Cons sizeAsEncoded_encode)

lemma RLP_ctor_encode: "fits it \<Longrightarrow> RLP_ctor VeryStrict (encodeItem it) = Inr (encodeItem it)"
  using at_item_encode [of it "[]"] by (metis RLP_ctor_VeryStrict append_Nil2 at_item_actualSize)

lemma decodeItem_encodeItem: "fits it \<Longrightarrow> decodeItem (encodeItem it) = Inr it"
proof (induction it)
  case (Data b)
  from Data have ctor: "RLP_ctor VeryStrict (encodeItem (Data b)) = Inr (encodeItem (Data b))"
    by (rule RLP_ctor_encode)
  show ?case
  proof (cases "length b = 1 \<and> unat (b ! 0) < 0x80")
    case True
    then obtain c where b: "b = [c]" by (cases b) auto
    with True have at: "at_item False b 1 0" using at_item_single [of c "[]"] by simp
    then have "isData b" by (simp add: at_item_def)
    with True b ctor at_item_toBytes [OF at] show ?thesis
      by (subst decodeItem.simps) simp
  next
    case False
    with Data have at: "at_item False (rlp_header 0x80 0xb7 (length b) @ b) (length b)
        (length (rlp_header 0x80 0xb7 (length b)))"
      using at_item_data [of b "[]"] by simp
    then have "isData (rlp_header 0x80 0xb7 (length b) @ b)" by (simp add: at_item_def)
    with False ctor at_item_toBytes [OF at] show ?thesis
      by (subst decodeItem.simps) auto
  qed
next
  case (Items xs)
  let ?p = "concat (map encodeItem xs)"
  from Items have ctor: "RLP_ctor VeryStrict (encodeItem (Items xs)) = Inr (encodeItem (Items xs))"
    by (intro RLP_ctor_encode)
  from Items have at: "at_item True (rlp_header 0xc0 0xf7 (length ?p) @ ?p) (length ?p)
      (length (rlp_header 0xc0 0xf7 (length ?p)))"
    using at_item_list [of ?p "[]"] by simp
  have "mapE decodeItem (map encodeItem xs) = Inr xs"
    using Items by (auto simp: mapE_eq_Inr_iff list_all2_conv_all_nth list_all_iff)
  moreover from at have "\<not> isData (rlp_header 0xc0 0xf7 (length ?p) @ ?p)"
    and "isList (rlp_header 0xc0 0xf7 (length ?p) @ ?p)"
    by (simp_all add: at_item_def)
  moreover have "split_items ?p = Inr (map encodeItem xs)"
    using Items by (intro split_items_encode) simp
  ultimately show ?case
    using ctor at_item_payload [OF at] by (subst decodeItem.simps) (simp add: Let_def)
qed

subsection \<open>Only canonical encodings are accepted\<close>

text \<open>The long form read backwards: the length field is the minimal representation.\<close>

lemma long_field:
  assumes "ls < length d" "1 \<le> ls" "ls \<le> 8" "d ! 1 \<noteq> 0"
    and l: "l = unat (fromBigEndian_word (take ls (drop 1 d)) :: u64)"
  shows "bytesRequired l = ls \<and> toBigEndian ls l = take ls (drop 1 d)"
proof -
  let ?f = "take ls (drop 1 d)"
  have len: "length ?f = ls" using assms by simp
  then have l': "l = fromBigEndian ?f" using assms by (simp add: unat_fromBigEndian_u64)
  have ne: "?f \<noteq> []" using assms by auto
  moreover have "hd ?f \<noteq> 0" using assms by (simp add: hd_drop_conv_nth)
  ultimately have "bytesRequired (fromBigEndian ?f) = length ?f"
    by (rule bytesRequired_fromBigEndian)
  then have "bytesRequired l = ls" using len l' by simp
  moreover have "toBigEndian ls l = ?f"
    using toBigEndian_fromBigEndian [of ?f] len l' by simp
  ultimately show ?thesis by simp
qed

lemma rlp_length_data_inv:
  assumes len: "rlp_length d = Inr l" and d: "isData d" "\<not> isSingleByte d"
    and full: "payloadOffset d + l \<le> length d"
  shows "l < rlp_max \<and> take (payloadOffset d) d = rlp_header 0x80 0xb7 l \<and>
    \<not> (l = 1 \<and> unat (d ! 1) < 0x80)"
proof -
  from d have ne: "d \<noteq> []" and n: "0x80 \<le> unat (d ! 0)" "unat (d ! 0) < 0xc0"
    by (auto simp: isData_def isSingleByte_def isNull_def)
  from len ne have good: "requireGood d = Inr ()"
    by (auto simp: rlp_length_def isNull_def res_simps)
  show ?thesis
  proof (cases "unat (d ! 0) \<le> 0xb7")
    case True
    with len ne n good have l: "unat (d ! 0) = 0x80 + l" "l < 0x38"
      by (auto simp: rlp_length_def isNull_def Let_def)
    then have "(of_nat (0x80 + l) :: byte) = d ! 0" by (metis of_nat_unat_byte)
    moreover have "payloadOffset d = 1"
      using True d by (simp add: payloadOffset_def lengthSize_def isList_def isData_def)
    moreover have "\<not> (l = 1 \<and> unat (d ! 1) < 0x80)"
      using good l by (auto simp: requireGood_def split: if_splits)
    moreover have "l < rlp_max" using l(2) by (simp add: rlp_max_def)
    ultimately show ?thesis
      using ne l(2) by (cases d) (simp_all only: rlp_header_def if_True take_Suc_Cons
          take0 nth_Cons_0 One_nat_def simp_thms list.simps)
  next
    case False
    define ls where "ls = unat (d ! 0) - 0xb7"
    from False n have ls: "1 \<le> ls" "ls \<le> 8" "unat (d ! 0) = 0xb7 + ls" by (auto simp: ls_def)
    from len ne n good False ls have facts: "ls < length d" "d ! 1 \<noteq> 0"
      "l = unat (fromBigEndian_word (take ls (drop 1 d)) :: u64)" "0x38 \<le> l" "l < rlp_max"
      by (auto simp: rlp_length_def isNull_def Let_def unat_max_check rlp_max_def
          split: if_splits)
    have off: "payloadOffset d = Suc ls"
      using ls d by (simp add: payloadOffset_def lengthSize_def)
    have "(of_nat (0xb7 + ls) :: byte) = d ! 0" using ls(3) by (metis of_nat_unat_byte)
    moreover have "take (Suc ls) d = d ! 0 # take ls (drop 1 d)"
      using ne by (cases d) simp_all
    ultimately show ?thesis
      using long_field [OF facts(1) ls(1,2) facts(2,3)] facts(4,5) off
      by (simp add: rlp_header_def)
  qed
qed

lemma rlp_length_list_inv:
  assumes len: "rlp_length d = Inr l" and d: "isList d"
  shows "l < rlp_max \<and> take (payloadOffset d) d = rlp_header 0xc0 0xf7 l"
proof -
  from d have ne: "d \<noteq> []" and n: "0xc0 \<le> unat (d ! 0)"
    by (auto simp: isList_def isNull_def)
  from len ne have good: "requireGood d = Inr ()"
    by (auto simp: rlp_length_def isNull_def res_simps)
  show ?thesis
  proof (cases "unat (d ! 0) \<le> 0xf7")
    case True
    with len ne n good have l: "unat (d ! 0) = 0xc0 + l" "l < 0x38"
      by (auto simp: rlp_length_def isNull_def Let_def)
    then have "(of_nat (0xc0 + l) :: byte) = d ! 0" by (metis of_nat_unat_byte)
    moreover have "payloadOffset d = 1"
      using True n by (simp add: payloadOffset_def lengthSize_def isSingleByte_def isData_def)
    moreover have "l < rlp_max" using l(2) by (simp add: rlp_max_def)
    ultimately show ?thesis
      using ne l(2) by (cases d) (simp_all only: rlp_header_def if_True take_Suc_Cons
          take0 nth_Cons_0 One_nat_def simp_thms list.simps)
  next
    case False
    define ls where "ls = unat (d ! 0) - 0xf7"
    have "unat (d ! 0) < 256" by simp
    with False have ls: "1 \<le> ls" "ls \<le> 8" "unat (d ! 0) = 0xf7 + ls"
      unfolding ls_def by linarith+
    from len ne n good False ls have facts: "ls < length d" "d ! 1 \<noteq> 0"
      "l = unat (fromBigEndian_word (take ls (drop 1 d)) :: u64)" "0x38 \<le> l" "l < rlp_max"
      by (auto simp: rlp_length_def isNull_def Let_def unat_max_check rlp_max_def
          split: if_splits)
    have off: "payloadOffset d = Suc ls"
      using ls d n by (simp add: payloadOffset_def lengthSize_def isSingleByte_def isData_def)
    have "(of_nat (0xf7 + ls) :: byte) = d ! 0" using ls(3) by (metis of_nat_unat_byte)
    moreover have "take (Suc ls) d = d ! 0 # take ls (drop 1 d)"
      using ne by (cases d) simp_all
    ultimately show ?thesis
      using long_field [OF facts(1) ls(1,2) facts(2,3)] facts(4,5) off
      by (simp add: rlp_header_def)
  qed
qed

lemma exact_size:
  assumes "actualSize d = Inr (length d)" "d \<noteq> []" "\<not> isSingleByte d"
  obtains l where "rlp_length d = Inr l" and "payloadOffset d + l = length d"
    and "payload d = Inr (drop (payloadOffset d) d)" and "length (drop (payloadOffset d) d) = l"
proof -
  from assms obtain l where "rlp_length d = Inr l" "payloadOffset d + l = length d"
    by (auto simp: actualSize_def isNull_def res_simps split: if_splits)
  moreover from this have "payload d = Inr (drop (payloadOffset d) d)"
    by (auto simp: payload_def cropped_def)
  ultimately show ?thesis using that [of l] by auto
qed

lemma encodeItem_data_exact:
  assumes ex: "actualSize d = Inr (length d)" and "d \<noteq> []" "isData d" and tb: "toBytes f d = Inr b"
  shows "encodeItem (Data b) = d \<and> fits (Data b)"
proof (cases "isSingleByte d")
  case True
  then have "length d = 1" using ex \<open>d \<noteq> []\<close> by (simp add: actualSize_def isNull_def)
  then obtain c where d: "d = [c]" by (auto simp: length_Suc_conv)
  with True have c: "unat c < 0x80" by (simp add: isSingleByte_def)
  then have "at_item False d 1 0" using d at_item_single [of c "[]"] by simp
  with tb d have "b = [c]" by (simp add: at_item_toBytes)
  with c d show ?thesis by (simp add: rlp_max_def)
next
  case False
  with ex \<open>d \<noteq> []\<close> obtain l where l: "rlp_length d = Inr l" "payloadOffset d + l = length d"
    "payload d = Inr (drop (payloadOffset d) d)" "length (drop (payloadOffset d) d) = l"
    by (rule exact_size)
  with tb \<open>isData d\<close> have b: "b = drop (payloadOffset d) d" by (simp add: toBytes_def)
  have inv: "l < rlp_max \<and> take (payloadOffset d) d = rlp_header 0x80 0xb7 l \<and>
    \<not> (l = 1 \<and> unat (d ! 1) < 0x80)"
    using l \<open>isData d\<close> False by (intro rlp_length_data_inv) auto
  have small: "\<not> (length b = 1 \<and> unat (b ! 0) < 0x80)"
  proof
    assume a: "length b = 1 \<and> unat (b ! 0) < 0x80"
    with b l(4) have l1: "l = 1" by simp
    with inv have "length (take (payloadOffset d) d) = 1" by (simp add: length_rlp_header)
    with l(2) l1 have "payloadOffset d = 1" by simp
    with a b l(2) l1 inv show False by (simp add: nth_drop)
  qed
  have "length b = l" using b l(4) by simp
  with small inv have "encodeItem (Data b) = take (payloadOffset d) d @ b"
    by (simp only: encodeItem.simps if_False)
  also have "\<dots> = d" unfolding b by simp
  finally show ?thesis using inv \<open>length b = l\<close> by simp
qed

lemma encodeItem_decodeItem: "decodeItem d = Inr it \<Longrightarrow> encodeItem it = d \<and> fits it"
proof (induction d arbitrary: it rule: decodeItem.induct)
  case (1 d)
  from 1(2) have ex: "actualSize d = Inr (length d)"
    by (subst (asm) decodeItem.simps) (auto simp: res_simps RLP_ctor_VeryStrict)
  then have ctor: "RLP_ctor VeryStrict d = Inr d" by (simp add: RLP_ctor_VeryStrict)
  consider (data) "isData d" | (list) "\<not> isData d" "isList d" | (none) "\<not> isData d" "\<not> isList d"
    by blast
  then show ?case
  proof cases
    case data
    with 1(2) ctor obtain b where "toBytes Strict d = Inr b" "it = Data b"
      by (subst (asm) decodeItem.simps) (auto simp: res_simps)
    with data ex show ?thesis
      using encodeItem_data_exact by (auto simp: isData_def isNull_def)
  next
    case list
    then have single: "\<not> isSingleByte d" and ne: "d \<noteq> []"
      by (auto simp: isSingleByte_def isList_def isNull_def)
    from list 1(2) ctor obtain pl xs ys where pl: "payload d = Inr pl"
      and xs: "split_items pl = Inr xs" and ys: "mapE decodeItem xs = Inr ys" and it: "it = Items ys"
      by (subst (asm) decodeItem.simps) (auto simp: res_simps)
    have each: "\<And>x y. x \<in> set xs \<Longrightarrow> decodeItem x = Inr y \<Longrightarrow> encodeItem y = x \<and> fits y"
      using 1(1) [OF ctor list pl xs] by blast
    from ys have all: "list_all2 (\<lambda>x y. decodeItem x = Inr y) xs ys" by (simp add: res_simps)
    then have len: "length xs = length ys" by (rule list_all2_lengthD)
    have nth: "encodeItem (ys ! i) = xs ! i \<and> fits (ys ! i)" if "i < length ys" for i
      using that all len by (intro each) (simp_all add: list_all2_conv_all_nth)
    from len nth have enc: "map encodeItem ys = xs" and fit: "list_all fits ys"
      by (auto simp: list_all_length intro!: nth_equalityI)
    from ex ne single obtain l where l: "rlp_length d = Inr l" "payloadOffset d + l = length d"
      "payload d = Inr (drop (payloadOffset d) d)" "length (drop (payloadOffset d) d) = l"
      by (rule exact_size)
    have inv: "l < rlp_max \<and> take (payloadOffset d) d = rlp_header 0xc0 0xf7 l"
      using l(1) list(2) by (rule rlp_length_list_inv)
    have "concat (map encodeItem ys) = drop (payloadOffset d) d"
      using enc concat_split_items [OF xs] pl l(3) by simp
    with it inv fit l(4) show ?thesis
      by (simp add: Let_def) (metis append_take_drop_id)
  next
    case none
    with 1(2) ctor show ?thesis by (subst (asm) decodeItem.simps) simp
  qed
qed

end
