(* ===== verification/RLP_Lists.thy ===== *)
theory RLP_Lists
  imports RLP_Codec
begin

text \<open>
  The three ways a client reaches the items of an RLP list, against the reference
  \<open>split_items\<close>: the count \<open>items\<close>, the subscript with its cache of the last item, and
  the iterator behind a range-\<open>for\<close>.  The iterator's end test compares with the end of
  the whole buffer, so iteration ends exactly when the buffer holds nothing after the
  list.
\<close>

subsection \<open>An item is the same in any surroundings\<close>

lemma actualSize_prefix:
  assumes sz: "actualSize d = Inr n" and n: "n \<le> length d" and ne: "d \<noteq> []"
  shows "actualSize (take n d @ p) = Inr n"
proof (cases "isSingleByte d")
  case True
  with sz ne have "n = 1" by (simp add: actualSize_def isNull_def)
  moreover obtain b ds where "d = b # ds" using ne by (cases d) auto
  moreover have "unat b < 0x80" using True \<open>d = b # ds\<close> by (simp add: isSingleByte_def)
  ultimately show ?thesis using at_item_actualSize [OF at_item_single [of b p]] by simp
next
  case False
  with sz ne obtain l where l: "rlp_length d = Inr l" "payloadOffset d + l = n"
    by (auto simp: actualSize_def isNull_def isData_def isList_def res_simps split: if_splits)
  define b where "b = take l (drop (payloadOffset d) d)"
  have lb: "length b = l" using l(2) n by (simp add: b_def)
  have split: "take n d = take (payloadOffset d) d @ b"
    by (simp add: b_def l(2) [symmetric] take_add)
  show ?thesis
  proof (cases "isList d")
    case True
    then have inv: "l < rlp_max \<and> take (payloadOffset d) d = rlp_header 0xc0 0xf7 l"
      using l(1) by (intro rlp_length_list_inv)
    then have "at_item True (take n d @ p) l (length (rlp_header 0xc0 0xf7 l))"
      using at_item_list [of b p] lb split by simp
    moreover have "length (rlp_header 0xc0 0xf7 l) = payloadOffset d"
      using inv l(2) n by (metis (no_types, lifting) add_leD1 length_take min.absorb2)
    ultimately show ?thesis using l(2) by (simp add: at_item_actualSize)
  next
    case nl: False
    then have "isData d" using ne by (simp add: isData_def isList_def isNull_def)
    then have inv: "l < rlp_max \<and> take (payloadOffset d) d = rlp_header 0x80 0xb7 l \<and>
      \<not> (l = 1 \<and> unat (d ! 1) < 0x80)"
      using l n False by (intro rlp_length_data_inv) auto
    have hl: "length (rlp_header 0x80 0xb7 l) = payloadOffset d"
      using inv l(2) n by (metis (no_types, lifting) add_leD1 length_take min.absorb2)
    have "\<not> (length b = 1 \<and> unat (b ! 0) < 0x80)"
    proof
      assume a: "length b = 1 \<and> unat (b ! 0) < 0x80"
      with lb hl have "payloadOffset d = 1" by (simp add: length_rlp_header)
      with a inv lb show False using l(2) n by (auto simp: b_def)
    qed
    then have "at_item False (take n d @ p) l (length (rlp_header 0x80 0xb7 l))"
      using inv at_item_data [of b p] lb split by simp
    then show ?thesis using l(2) hl by (simp add: at_item_actualSize)
  qed
qed

lemma actualSize_take:
  "actualSize d = Inr n \<Longrightarrow> n \<le> length d \<Longrightarrow> actualSize (take n d) = Inr n"
  using actualSize_prefix [of d n "[]"] by (cases "d = []") auto

subsection \<open>Items of a payload\<close>

lemma split_items_item:
  "split_items pl = Inr xs \<Longrightarrow> x \<in> set xs \<Longrightarrow> x \<noteq> [] \<and> actualSize x = Inr (length x)"
proof (induction pl arbitrary: xs rule: split_items.induct)
  case (1 pl)
  show ?case
  proof (cases "pl = []")
    case False
    with 1(2) obtain n ys where n: "sizeAsEncoded pl = Inr n"
      and ys: "split_items (drop n pl) = Inr ys" and xs: "xs = take n pl # ys"
      by (auto simp: split_items_Cons res_simps)
    have "0 < n" "n \<le> length pl" using sizeAsEncoded_pos [OF False n] by simp_all
    moreover have "actualSize (take n pl) = Inr n"
      using n by (intro actualSize_take) (simp_all add: sizeAsEncoded_Inr)
    ultimately show ?thesis
      using 1(1) [OF False n ys] 1(3) xs False by auto
  qed (use 1 in simp)
qed

lemma sizeAsEncoded_drop:
  "split_items pl = Inr xs \<Longrightarrow> j < length xs \<Longrightarrow>
     sizeAsEncoded (concat (drop j xs)) = Inr (length (xs ! j))"
proof (induction pl arbitrary: xs j rule: split_items.induct)
  case (1 pl)
  then have ne: "pl \<noteq> []" by auto
  with 1(2) obtain n ys where n: "sizeAsEncoded pl = Inr n"
    and ys: "split_items (drop n pl) = Inr ys" and xs: "xs = take n pl # ys"
    by (auto simp: split_items_Cons res_simps)
  show ?case
  proof (cases j)
    case 0
    then show ?thesis
      using n concat_split_items [OF 1(2)] xs sizeAsEncoded_pos [OF ne n] by simp
  next
    case (Suc i)
    then show ?thesis using 1(1) [OF ne n ys, of i] 1(3) xs by simp
  qed
qed

lemma sizeAsEncoded_Nil [simp]: "sizeAsEncoded [] = Inr 0"
  by (simp add: sizeAsEncoded_Inr actualSize_def isNull_def)

lemma items_loop_split:
  "items_loop pl = bindE (split_items pl) (\<lambda>xs. Inr (length xs))"
proof (induction pl rule: split_items.induct)
  case (1 pl)
  show ?case
  proof (cases "pl = []")
    case True
    then show ?thesis by (simp add: items_loop.simps)
  next
    case False
    show ?thesis
    proof (cases "sizeAsEncoded pl")
      case (Inr n)
      with False have "n \<le> length pl" using sizeAsEncoded_pos by blast
      with 1 [OF False Inr] Inr False show ?thesis
        by (subst items_loop.simps) (simp add: croppedFrom_def split_items_Cons bindE_assoc)
    qed (use False in \<open>subst items_loop.simps, simp add: split_items_Cons\<close>)
  qed
qed

subsection \<open>The subscript cache\<close>

definition item_at :: "bytes list \<Rightarrow> nat \<Rightarrow> bytes" where
  "item_at xs k = (if k < length xs then xs ! k else [])"

definition end_of :: "bytes list \<Rightarrow> nat \<Rightarrow> nat" where
  "end_of xs k = length (concat (take (Suc k) xs))"

definition cacheOK :: "bytes list \<Rightarrow> rlp_cache \<Rightarrow> bool" where
  "cacheOK xs c = (case lastIndex c of None \<Rightarrow> True
     | Some k \<Rightarrow> k \<le> length xs \<and> lastEnd c = end_of xs k \<and> lastItem c = item_at xs k)"

lemma croppedFrom_end_of:
  assumes "concat xs = pl"
  shows "croppedFrom pl (end_of xs k) = concat (drop (Suc k) xs)"
proof -
  have "pl = concat (take (Suc k) xs) @ concat (drop (Suc k) xs)"
    using assms by (metis append_take_drop_id concat_append)
  then show ?thesis by (simp add: croppedFrom_def end_of_def)
qed

lemma end_of_Suc: "end_of xs (Suc k) = end_of xs k + length (item_at xs (Suc k))"
proof (cases "Suc k < length xs")
  case True
  then show ?thesis by (simp add: end_of_def item_at_def take_Suc_conv_app_nth)
next
  case False
  then show ?thesis by (simp add: end_of_def item_at_def)
qed

lemma next_item:
  assumes "split_items pl = Inr xs"
  shows "sizeAsEncoded (concat (drop k xs)) = Inr (length (item_at xs k)) \<and>
    cropped (concat (drop k xs)) 0 (length (item_at xs k)) = item_at xs k"
proof (cases "k < length xs")
  case True
  then have "concat (drop k xs) = xs ! k @ concat (drop (Suc k) xs)"
    by (simp add: Cons_nth_drop_Suc [symmetric])
  then show ?thesis
    using sizeAsEncoded_drop [OF assms True] True by (simp add: item_at_def cropped_def)
qed (simp add: item_at_def cropped_def)

lemma subscript_loop_correct:
  assumes xs: "split_items pl = Inr xs"
  shows "k \<le> length xs \<Longrightarrow>
    subscript_loop pl i k (end_of xs k) (item_at xs k) =
      (let k' = (if k < i then min i (length xs) else k) in Inr (k', end_of xs k', item_at xs k'))"
proof (induction "i - k" arbitrary: k)
  case 0
  then show ?case by (subst subscript_loop.simps) simp
next
  case (Suc m)
  then have lt: "k < i" by simp
  show ?case
  proof (cases "k < length xs")
    case True
    then have "item_at xs k \<noteq> []"
      using split_items_item [OF xs, of "xs ! k"] by (simp add: item_at_def)
    then have "subscript_loop pl i k (end_of xs k) (item_at xs k)
        = subscript_loop pl i (Suc k) (end_of xs (Suc k)) (item_at xs (Suc k))"
      using lt next_item [OF xs, of "Suc k"] concat_split_items [OF xs]
      by (subst subscript_loop.simps) (simp add: croppedFrom_end_of end_of_Suc Let_def)
    moreover have "m = i - Suc k" using Suc(2) by simp
    moreover have "(if Suc k < i then min i (length xs) else Suc k) = min i (length xs)"
      using True lt by (auto simp: min_def)
    ultimately show ?thesis using Suc(1) [of "Suc k"] True lt by simp
  next
    case False
    with Suc(3) have "k = length xs" by simp
    moreover from this have "item_at xs k = []" by (simp add: item_at_def)
    ultimately show ?thesis using lt by (subst subscript_loop.simps) (simp add: Let_def)
  qed
qed

lemma subscript_correct:
  assumes pl: "payload d = Inr pl" and xs: "split_items pl = Inr xs" and c: "cacheOK xs c"
  shows "\<exists>c'. subscript d i c = Inr (item_at xs i, c') \<and> cacheOK xs c'"
proof -
  have ctor: "RLP_ctor ThrowOnFail_FailIfTooSmall (item_at xs k) = Inr (item_at xs k)" for k
    using split_items_item [OF xs, of "xs ! k"]
    by (auto simp: item_at_def RLP_ctor_def ThrowOnFail_FailIfTooSmall_def actualSize_def isNull_def)
  have first: "sizeAsEncoded pl = Inr (end_of xs 0) \<and> cropped pl 0 (end_of xs 0) = item_at xs 0"
    using next_item [OF xs, of 0] concat_split_items [OF xs]
    by (cases xs) (simp_all add: end_of_def item_at_def)
  define k where "k = (case lastIndex c of None \<Rightarrow> 0 | Some k \<Rightarrow> if i < k then 0 else k)"
  have k: "k \<le> length xs" and ki: "k \<le> i"
    using c by (auto simp: k_def cacheOK_def split: option.splits)
  define k' where "k' = (if k < i then min i (length xs) else k)"
  have item: "item_at xs k' = item_at xs i" using k ki by (auto simp: k'_def item_at_def)
  have "subscript d i c = Inr (item_at xs k',
      \<lparr>lastIndex = Some k', lastEnd = end_of xs k', lastItem = item_at xs k'\<rparr>)"
    using pl first c subscript_loop_correct [OF xs k, of i]
    by (cases "lastIndex c")
      (auto simp: subscript_def cacheOK_def k_def k'_def ctor Let_def split: if_splits)
  moreover have "k' \<le> length xs" using k ki by (auto simp: k'_def)
  ultimately show ?thesis using item by (simp add: cacheOK_def)
qed

text \<open>A client's run of subscripts on one object, threading the cache.\<close>

fun subscripts :: "bytes \<Rightarrow> nat list \<Rightarrow> rlp_cache \<Rightarrow> rlp_error + bytes list" where
  "subscripts d [] c = Inr []"
| "subscripts d (i # is) c =
     bindE (subscript d i c) (\<lambda>(r, c'). bindE (subscripts d is c') (\<lambda>rs. Inr (r # rs)))"

lemma subscripts_correct:
  assumes "payload d = Inr pl" and "split_items pl = Inr xs"
  shows "cacheOK xs c \<Longrightarrow> subscripts d is c = Inr (map (item_at xs) is)"
proof (induction "is" arbitrary: c)
  case (Cons i "is")
  obtain c' where "subscript d i c = Inr (item_at xs i, c')" "cacheOK xs c'"
    using subscript_correct [OF assms Cons(2)] by blast
  with Cons(1) show ?case by simp
qed simp

subsection \<open>The iterator\<close>

text \<open>The iterator after \<open>j\<close> increments over a list whose payload starts at \<open>off\<close>.\<close>

definition iter_at :: "nat \<Rightarrow> bytes list \<Rightarrow> nat \<Rightarrow> rlp_iter" where
  "iter_at off xs j = \<lparr>itPos = Some (off + length (concat (take j xs))),
     itCount = length (item_at xs j), itRemaining = length (concat (drop (Suc j) xs))\<rparr>"

lemma view_items:
  assumes "concat xs = pl" and "pl = take (length pl) (drop off d)" and "off + length pl \<le> length d"
    and n: "n \<le> length (concat (drop j xs))"
  shows "viewAt d (Some (off + length (concat (take j xs)))) n = take n (concat (drop j xs))"
proof -
  let ?a = "concat (take j xs)" and ?b = "concat (drop j xs)"
  have ab: "pl = ?a @ ?b" using assms(1) by (metis append_take_drop_id concat_append)
  have "take n ?b = take n (drop (length ?a) pl)" by (simp add: ab)
  also have "\<dots> = take n (drop (length ?a) (take (length pl) (drop off d)))"
    using assms(2) by simp
  also have "\<dots> = take n (drop (off + length ?a) d)"
    using n ab by (simp add: drop_take take_take min_def add.commute)
  finally show ?thesis by (simp add: viewAt_def)
qed

text \<open>
  \<open>list_view d off xs\<close>: \<open>d\<close> is a list whose payload, all of it inside the buffer, starts at
  \<open>off\<close> and splits into the items \<open>xs\<close>.
\<close>

definition list_view :: "bytes \<Rightarrow> nat \<Rightarrow> bytes list \<Rightarrow> bool" where
  "list_view d off xs \<longleftrightarrow> isList d \<and> payloadOffset d = off \<and>
     (\<exists>l. rlp_length d = Inr l \<and> off + l \<le> length d \<and>
        split_items (take l (drop off d)) = Inr xs)"

lemma list_viewD:
  assumes "list_view d off xs"
  shows "rlp_length d = Inr (length (concat xs))"
    and "concat xs = take (length (concat xs)) (drop off d)"
    and "off + length (concat xs) \<le> length d"
    and "split_items (concat xs) = Inr xs" and "isList d" and "payloadOffset d = off"
    and "d \<noteq> []"
proof -
  from assms obtain l where l: "rlp_length d = Inr l" "off + l \<le> length d"
    "split_items (take l (drop off d)) = Inr xs" "isList d" "payloadOffset d = off"
    by (auto simp: list_view_def)
  from concat_split_items [OF l(3)] have c: "concat xs = take l (drop off d)" .
  with l(2) have "length (concat xs) = l" by simp
  with l c show "rlp_length d = Inr (length (concat xs))"
    and "concat xs = take (length (concat xs)) (drop off d)"
    and "off + length (concat xs) \<le> length d"
    and "split_items (concat xs) = Inr xs" and "isList d" and "payloadOffset d = off"
    by simp_all
  from l show "d \<noteq> []" by (auto simp: isList_def isNull_def)
qed

lemma iter_begin_at:
  assumes v: "list_view d off xs"
  shows "iter_begin d = Inr (iter_at off xs 0)"
proof -
  note f = list_viewD [OF v]
  have "viewAt d (Some off) (length (concat xs)) = concat xs"
    using view_items [OF refl f(2,3), of "length (concat xs)" 0] by simp
  moreover have "sizeAsEncoded (concat xs) = Inr (length (item_at xs 0))"
    using next_item [OF f(4), of 0] by simp
  moreover have "length (concat xs) - length (item_at xs 0) = length (concat (drop (Suc 0) xs))"
    by (cases xs) (simp_all add: item_at_def)
  ultimately show ?thesis
    using f(1,3,5,6) by (simp add: iter_begin_def iter_at_def)
qed

lemma iter_next_at:
  assumes v: "list_view d off xs" and j: "j < length xs"
  shows "iter_next d (iter_at off xs j) = Inr (iter_at off xs (Suc j))"
proof -
  note f = list_viewD [OF v]
  have pos: "off + length (concat (take j xs)) + length (item_at xs j)
      = off + length (concat (take (Suc j) xs))"
    using j by (simp add: item_at_def take_Suc_conv_app_nth)
  show ?thesis
  proof (cases "concat (drop (Suc j) xs) = []")
    case True
    have last: "length xs \<le> Suc j"
    proof (rule ccontr)
      assume "\<not> length xs \<le> Suc j"
      then have "concat (drop (Suc j) xs) = xs ! Suc j @ concat (drop (Suc (Suc j)) xs)"
        by (simp add: Cons_nth_drop_Suc [symmetric])
      with True \<open>\<not> length xs \<le> Suc j\<close> show False
        using split_items_item [OF f(4), of "xs ! Suc j"] by simp
    qed
    with pos show ?thesis
      by (simp add: iter_next_def iter_at_def Let_def add.assoc item_at_def)
  next
    case False
    have view: "viewAt d (Some (off + length (concat (take (Suc j) xs))))
        (length (concat (drop (Suc j) xs))) = concat (drop (Suc j) xs)"
      using view_items [OF refl f(2,3), of "length (concat (drop (Suc j) xs))" "Suc j"] by simp
    have len: "length (concat (drop (Suc j) xs))
        = length (item_at xs (Suc j)) + length (concat (drop (Suc (Suc j)) xs))"
      by (cases "Suc j < length xs")
        (simp_all add: item_at_def Cons_nth_drop_Suc [symmetric])
    show ?thesis
      using False view len next_item [OF f(4), of "Suc j"] pos
      by (simp add: iter_next_def iter_at_def Let_def add.assoc)
  qed
qed

lemma iter_deref_at:
  assumes v: "list_view d off xs" and j: "j < length xs"
  shows "iter_deref d (iter_at off xs j) = Inr (xs ! j)"
proof -
  note f = list_viewD [OF v]
  have d: "concat (drop j xs) = xs ! j @ concat (drop (Suc j) xs)"
    using j by (simp add: Cons_nth_drop_Suc [symmetric])
  have "viewAt d (Some (off + length (concat (take j xs)))) (length (xs ! j)) = xs ! j"
    using view_items [OF refl f(2,3), of "length (xs ! j)" j] d by simp
  moreover have "RLP_ctor VeryStrict (xs ! j) = Inr (xs ! j)"
    using split_items_item [OF f(4), of "xs ! j"] j by (simp add: RLP_ctor_VeryStrict)
  ultimately show ?thesis using j by (simp add: iter_deref_def iter_at_def item_at_def)
qed

lemma iter_eq_end_before:
  assumes v: "list_view d off xs" and j: "j < length xs"
  shows "\<not> iter_eq (iter_at off xs j) (iter_end d)"
  using split_items_item [OF list_viewD(4) [OF v], of "xs ! j"] j
  by (simp add: iter_eq_def iter_at_def iter_end_def item_at_def)

lemma iter_collect_at:
  assumes v: "list_view d off xs" and full: "off + length (concat xs) = length d"
  shows "j \<le> length xs \<Longrightarrow> length xs - j < fuel \<Longrightarrow>
    iter_collect fuel d (iter_at off xs j) = Some (Inr (drop j xs))"
proof (induction fuel arbitrary: j)
  case (Suc fuel)
  show ?case
  proof (cases "j < length xs")
    case True
    then have "iter_collect fuel d (iter_at off xs (Suc j)) = Some (Inr (drop (Suc j) xs))"
      using Suc by simp
    with True show ?thesis
      by (simp add: iter_eq_end_before [OF v] iter_deref_at [OF v] iter_next_at [OF v]
          Cons_nth_drop_Suc)
  next
    case False
    with Suc have "j = length xs" by simp
    moreover have "iter_eq (iter_at off xs (length xs)) (iter_end d)"
      using full list_viewD(7) [OF v] by (simp add: iter_eq_def iter_at_def iter_end_def item_at_def)
    ultimately show ?thesis by simp
  qed
qed simp

text \<open>With trailing bytes the iterator sticks to the end of the payload and never compares equal.\<close>

lemma iter_collect_stuck:
  assumes v: "list_view d off xs" and trail: "off + length (concat xs) < length d"
  shows "iter_collect fuel d (iter_at off xs (length xs)) = None"
proof (induction fuel)
  case (Suc fuel)
  let ?it = "iter_at off xs (length xs)"
  have "\<not> iter_eq ?it (iter_end d)"
    using trail list_viewD(7) [OF v] by (simp add: iter_eq_def iter_at_def iter_end_def)
  moreover have "iter_deref d ?it = Inr []"
    by (simp add: iter_deref_def iter_at_def item_at_def viewAt_def RLP_ctor_VeryStrict
        actualSize_def isNull_def)
  moreover have "iter_next d ?it = Inr ?it"
    by (simp add: iter_next_def iter_at_def item_at_def)
  ultimately show ?case using Suc by simp
qed simp

lemma iter_collect_diverges:
  assumes v: "list_view d off xs" and trail: "off + length (concat xs) < length d"
  shows "j \<le> length xs \<Longrightarrow> iter_collect fuel d (iter_at off xs j) = None"
proof (induction fuel arbitrary: j)
  case (Suc fuel)
  show ?case
  proof (cases "j < length xs")
    case True
    with Suc show ?thesis
      by (simp add: iter_eq_end_before [OF v] iter_deref_at [OF v] iter_next_at [OF v])
  next
    case False
    with Suc(2) show ?thesis using iter_collect_stuck [OF v trail, of "Suc fuel"] by simp
  qed
qed simp

end
