(* ===== verification/RLP_Stream.thy ===== *)
theory RLP_Stream
  imports RLP_Codec
begin

text \<open>
  The writer class \<open>dev::RLPStream\<close> (\<open>libdevcore/RLP.h\<close>, \<open>RLP.cpp\<close>): an output buffer and
  a stack of open lists, each with the number of items still to come and the position
  where its payload starts.  When the last item of a list arrives, \<open>noteAppended\<close>
  moves the payload up and writes the list header in front of it.  The theory shows that
  writing an item tree through the stream gives its canonical encoding.
\<close>

record rlp_stream =
  m_out :: bytes
  m_listStack :: "(nat \<times> nat) list"   \<comment> \<open>top of stack first\<close>

definition RLPStream_new :: rlp_stream where
  "RLPStream_new = \<lparr>m_out = [], m_listStack = []\<rparr>"

text \<open>
  \<open>pushInt\<close> appends \<open>br\<close> bytes holding the integer; \<open>bytesRequired\<close> of it is at most
  \<open>br\<close> at every call.
\<close>

definition pushInt :: "nat \<Rightarrow> nat \<Rightarrow> rlp_stream \<Rightarrow> rlp_stream" where
  "pushInt i br s = s\<lparr>m_out := m_out s @ toBigEndian br i\<rparr>"

definition push_back :: "nat \<Rightarrow> rlp_stream \<Rightarrow> rlp_stream" where
  "push_back b s = s\<lparr>m_out := m_out s @ [of_nat b]\<rparr>"

definition pushCount :: "nat \<Rightarrow> nat \<Rightarrow> rlp_stream \<Rightarrow> rlp_error + rlp_stream" where
  "pushCount count base s =
     (let br = bytesRequired count in
      if 0xff < br + base then Inl RLPException
      else Inr (pushInt count br (push_back (br + base) s)))"

text \<open>
  \<open>closeList p out\<close>: the header insertion of \<open>noteAppended\<close>, for a list whose payload
  starts at \<open>p\<close>: the buffer grows by the header, the payload moves up behind it.
\<close>

definition closeList :: "nat \<Rightarrow> bytes \<Rightarrow> rlp_error + bytes" where
  "closeList p out =
     (let s = length out - p; brs = bytesRequired s in
      if s < c_rlpListImmLenCount
      then Inr (take p out @ [of_nat (c_rlpListStart + s)] @ drop p out)
      else if c_rlpListIndLenZero + brs \<le> 0xff
      then Inr (take p out @ (of_nat (c_rlpListIndLenZero + brs) # toBigEndian brs s) @ drop p out)
      else Inl RLPException)"

fun noteAppended_loop :: "(nat \<times> nat) list \<Rightarrow> nat \<Rightarrow> bytes \<Rightarrow> rlp_error + rlp_stream" where
  "noteAppended_loop [] cnt out = Inr \<lparr>m_out = out, m_listStack = []\<rparr>"
| "noteAppended_loop ((n, p) # st) cnt out =
     (if n < cnt then Inl RLPException
      else if n - cnt \<noteq> 0
      then Inr \<lparr>m_out = out, m_listStack = (n - cnt, p) # st\<rparr>
      else bindE (closeList p out) (noteAppended_loop st 1))"

definition noteAppended :: "nat \<Rightarrow> rlp_stream \<Rightarrow> rlp_error + rlp_stream" where
  "noteAppended cnt s =
     (if cnt = 0 then Inr s else noteAppended_loop (m_listStack s) cnt (m_out s))"

definition appendRaw :: "bytes \<Rightarrow> nat \<Rightarrow> rlp_stream \<Rightarrow> rlp_error + rlp_stream" where
  "appendRaw b cnt s = noteAppended cnt (s\<lparr>m_out := m_out s @ b\<rparr>)"

definition appendList_raw :: "bytes \<Rightarrow> rlp_stream \<Rightarrow> rlp_error + rlp_stream" where
  "appendList_raw b s =
     bindE (if length b < c_rlpListImmLenCount
            then Inr (push_back (length b + c_rlpListStart) s)
            else pushCount (length b) c_rlpListIndLenZero s) (appendRaw b 1)"

definition appendList :: "nat \<Rightarrow> rlp_stream \<Rightarrow> rlp_error + rlp_stream" where
  "appendList n s =
     (if n \<noteq> 0 then Inr (s\<lparr>m_listStack := (n, length (m_out s)) # m_listStack s\<rparr>)
      else appendList_raw [] s)"

text \<open>\<open>append\<close> of a byte string; \<open>compact\<close> first skips leading zero bytes.\<close>

definition append_bytes :: "bytes \<Rightarrow> bool \<Rightarrow> rlp_stream \<Rightarrow> rlp_error + rlp_stream" where
  "append_bytes b compact s =
     (let d = (if compact then dropWhile (\<lambda>x. x = 0) b else b) in
      bindE (if length d = 1 \<and> unat (d ! 0) < c_rlpDataImmLenStart
             then Inr (s\<lparr>m_out := m_out s @ d\<rparr>)
             else bindE (if length d < c_rlpDataImmLenCount
                         then Inr (push_back (length d + c_rlpDataImmLenStart) s)
                         else pushCount (length d) c_rlpDataIndLenZero s)
                    (appendRaw d 0))
        (noteAppended 1))"

text \<open>\<open>append\<close> of an integer; every caller passes an unsigned value.\<close>

definition append_int :: "nat \<Rightarrow> rlp_stream \<Rightarrow> rlp_error + rlp_stream" where
  "append_int i s =
     bindE (if i = 0 then Inr (push_back c_rlpDataImmLenStart s)
            else if i < c_rlpDataImmLenStart then Inr (push_back i s)
            else let br = bytesRequired i in
              bindE (if br < c_rlpDataImmLenCount
                     then Inr (push_back (br + c_rlpDataImmLenStart) s)
                     else let brbr = bytesRequired br in
                       if 0xff < c_rlpDataIndLenZero + brbr then Inl RLPException
                       else Inr (pushInt br brbr (push_back (c_rlpDataIndLenZero + brbr) s)))
                (\<lambda>s'. Inr (pushInt i br s')))
       (noteAppended 1)"

definition stream_out :: "rlp_stream \<Rightarrow> rlp_error + bytes" where
  "stream_out s = (if m_listStack s \<noteq> [] then Inl RLPException else Inr (m_out s))"

text \<open>
  \<open>appendVector\<close> opens a list of the vector's size and appends every element; on nested
  data it is this recursion.
\<close>

function append_item :: "rlp_item \<Rightarrow> rlp_stream \<Rightarrow> rlp_error + rlp_stream" where
  "append_item (Data b) s = append_bytes b False s"
| "append_item (Items xs) s = bindE (appendList (length xs) s) (foldE append_item xs)"
  by pat_completeness auto
termination
  by (relation "measure (\<lambda>(it, s). size it)") (auto simp: less_Suc_eq_le intro: size_list_estimation')

subsection \<open>The stream writes canonical encodings\<close>

lemma of_nat_add_commute: "(of_nat (a + b) :: byte) = of_nat (b + a)"
  by (simp add: add.commute)

lemma pushCount_header:
  assumes "0x38 \<le> n" "n < rlp_max" "z = 0xb7 \<or> z = 0xf7"
  shows "pushCount n z s = Inr (s\<lparr>m_out := m_out s @ rlp_header a z n\<rparr>)"
proof -
  have "bytesRequired n \<le> 8" using assms(2) by (rule bytesRequired_le_8)
  then show ?thesis
    using assms
    by (auto simp: pushCount_def pushInt_def push_back_def rlp_header_def add.commute
        of_nat_add_commute Let_def)
qed

lemma append_bytes_data:
  assumes "length b < rlp_max"
  shows "append_bytes b False s = noteAppended 1 (s\<lparr>m_out := m_out s @ encodeItem (Data b)\<rparr>)"
proof (cases "length b < 0x38")
  case True
  then show ?thesis
    by (auto simp: append_bytes_def appendRaw_def noteAppended_def push_back_def rlp_header_def
        add.commute)
next
  case False
  then show ?thesis
    using pushCount_header [of "length b" "0xb7" s "0x80"] assms
    by (auto simp: append_bytes_def appendRaw_def noteAppended_def)
qed

lemma closeList_header:
  assumes "length b < rlp_max"
  shows "closeList (length a) (a @ b) = Inr (a @ rlp_header 0xc0 0xf7 (length b) @ b)"
  using bytesRequired_le_8 [OF assms] by (simp add: closeList_def rlp_header_def Let_def)

lemma append_item_correct:
  "fits it \<Longrightarrow> append_item it s = noteAppended 1 (s\<lparr>m_out := m_out s @ encodeItem it\<rparr>)"
proof (induction it arbitrary: s)
  case (Data b)
  then show ?case by (simp add: append_bytes_data del: encodeItem.simps)
next
  case (Items xs)
  define o0 where "o0 = m_out s"
  define st where "st = m_listStack s"
  have step: "foldE append_item ys \<lparr>m_out = out, m_listStack = (length ys, p) # st\<rparr>
      = bindE (closeList p (out @ concat (map encodeItem ys))) (noteAppended_loop st 1)"
    if "set ys \<subseteq> set xs" "ys \<noteq> []" for ys out p
    using that
  proof (induction ys arbitrary: out)
    case (Cons y ys)
    from Cons.prems Items have y: "append_item y s' = noteAppended 1 (s'\<lparr>m_out := m_out s' @ encodeItem y\<rparr>)" for s'
      by (auto simp: list_all_iff)
    show ?case
    proof (cases "ys = []")
      case True
      then show ?thesis by (simp add: y noteAppended_def foldE_Nil_fun bindE_Inr_right)
    next
      case False
      with Cons show ?thesis by (simp add: y noteAppended_def)
    qed
  qed simp
  show ?case
  proof (cases "xs = []")
    case True
    then show ?thesis
      by (simp add: appendList_def appendList_raw_def appendRaw_def push_back_def rlp_header_def
          foldE_Nil_fun)
  next
    case False
    from Items have "length (concat (map encodeItem xs)) < rlp_max" by simp
    have upd: "s\<lparr>m_listStack := x\<rparr> = \<lparr>m_out = m_out s, m_listStack = x\<rparr>" for x
      by simp
    from \<open>length (concat (map encodeItem xs)) < rlp_max\<close>
    have "closeList (length o0) (o0 @ concat (map encodeItem xs)) = Inr (o0 @
      rlp_header 0xc0 0xf7 (length (concat (map encodeItem xs))) @ concat (map encodeItem xs))"
      by (rule closeList_header)
    with step [OF subset_refl False, of o0 "length o0"] False
    show ?thesis
      by (simp add: appendList_def noteAppended_def o0_def st_def Let_def upd)
  qed
qed

lemma rlp_stream_item:
  "fits it \<Longrightarrow> bindE (append_item it RLPStream_new) stream_out = Inr (encodeItem it)"
  by (simp add: append_item_correct RLPStream_new_def noteAppended_def stream_out_def)

subsection \<open>Integers\<close>

text \<open>An integer is written as its minimal big-endian byte string.\<close>

definition int_item :: "nat \<Rightarrow> rlp_item" where
  "int_item i = Data (toBigEndian (bytesRequired i) i)"

lemma bytesRequired_small: "0 < i \<Longrightarrow> i < 256 \<Longrightarrow> bytesRequired i = 1"
  by (simp add: bytesRequired_pos)

lemma toBigEndian_small: "i < 256 \<Longrightarrow> toBigEndian 1 i = [of_nat i]"
  by simp

lemma append_int_item:
  assumes "bytesRequired i < rlp_max"
  shows "append_int i s = noteAppended 1 (s\<lparr>m_out := m_out s @ encodeItem (int_item i)\<rparr>)"
proof (cases "i < 0x80")
  case True
  then show ?thesis
    by (cases "i = 0")
      (simp_all add: append_int_def int_item_def push_back_def rlp_header_def
        bytesRequired_small unat_of_nat_byte)
next
  case False
  then have i0: "0 < i" by simp
  let ?b = "toBigEndian (bytesRequired i) i"
  have notsingle: "\<not> (length ?b = 1 \<and> unat (?b ! 0) < 0x80)"
  proof
    assume a: "length ?b = 1 \<and> unat (?b ! 0) < 0x80"
    then have br: "bytesRequired i = 1" by simp
    with bytesRequired_upper [of i] have "i < 256" by simp
    with a br False show False by (simp add: unat_of_nat_byte)
  qed
  then have "encodeItem (Data ?b) = rlp_header 0x80 0xb7 (length ?b) @ ?b"
    by (simp only: encodeItem.simps if_False)
  then have enc: "encodeItem (int_item i) = rlp_header 0x80 0xb7 (bytesRequired i) @ ?b"
    by (simp only: int_item_def length_toBigEndian)
  show ?thesis
  proof (cases "bytesRequired i < 0x38")
    case True
    with False enc i0 show ?thesis
      by (simp add: append_int_def push_back_def pushInt_def rlp_header_def add.commute Let_def)
  next
    case nlt: False
    have "bytesRequired (bytesRequired i) \<le> 8" using assms by (rule bytesRequired_le_8)
    with False nlt enc i0 show ?thesis
      by (simp add: append_int_def push_back_def pushInt_def rlp_header_def Let_def)
  qed
qed

lemma isInt_long:
  assumes "0x38 \<le> bytesRequired i" "bytesRequired i < rlp_max"
  shows "isInt (encodeItem (int_item i)) = Inr True"
proof -
  let ?n = "bytesRequired i" and ?b = "toBigEndian (bytesRequired i) i"
  define h :: byte where "h = of_nat (0xb7 + bytesRequired ?n)"
  have i0: "0 < i" using assms(1) by (cases "i = 0") simp_all
  have br: "1 \<le> bytesRequired ?n" "bytesRequired ?n \<le> 8"
    using assms bytesRequired_ge_1 bytesRequired_le_8 by auto
  have h: "unat h = 0xb7 + bytesRequired ?n"
    unfolding h_def using br by (intro unat_header_byte) simp
  have d: "encodeItem (int_item i) = h # toBigEndian (bytesRequired ?n) ?n @ ?b"
    using assms(1) by (simp add: int_item_def rlp_header_def h_def)
  have "(toBigEndian (bytesRequired ?n) ?n @ ?b) ! bytesRequired ?n = hd ?b"
    using i0 by (simp add: nth_append hd_conv_nth flip: length_0_conv)
  moreover have "hd ?b \<noteq> 0" using i0 by (rule hd_toBigEndian_br)
  ultimately show ?thesis
    using h br assms(1) i0
    by (simp add: d isInt_def isNull_def requireGood_def)
qed

lemma isInt_int_item:
  assumes "bytesRequired i < rlp_max"
  shows "isInt (encodeItem (int_item i)) = Inr True"
proof (cases "i < 0x80")
  case True
  then show ?thesis
    by (cases "i = 0")
      (simp_all add: int_item_def bytesRequired_small unat_of_nat_byte rlp_header_def isInt_def
        isNull_def requireGood_def)
next
  case big: False
  show ?thesis
  proof (cases "bytesRequired i < 0x38")
    case True
    let ?b = "toBigEndian (bytesRequired i) i"
    define h :: byte where "h = of_nat (0x80 + bytesRequired i)"
    have h: "unat h = 0x80 + bytesRequired i"
      unfolding h_def using True by (intro unat_header_byte) simp
    have i0: "0 < i" using big by simp
    then obtain c cs where b: "?b = c # cs"
      by (cases ?b) (auto dest: arg_cong [of _ _ length])
    have c0: "c \<noteq> 0" using hd_toBigEndian_br [OF i0] b by simp
    have single: "bytesRequired i = 1 \<Longrightarrow> 0x80 \<le> unat c"
      using b big bytesRequired_upper [of i] by (auto simp: unat_of_nat_byte)
    have "length ?b = bytesRequired i" by simp
    then have "\<not> (length ?b = 1 \<and> unat (?b ! 0) < 0x80)" using single b by fastforce
    then have "encodeItem (Data ?b) = rlp_header 0x80 0xb7 (length ?b) @ ?b"
      by (simp only: encodeItem.simps if_False)
    moreover have "rlp_header 0x80 0xb7 (length ?b) = [h]"
      using True by (simp only: rlp_header_def h_def length_toBigEndian if_True)
    ultimately have d: "encodeItem (int_item i) = h # c # cs"
      using b by (simp only: int_item_def append.simps)
    show ?thesis
      using h c0 single True i0
      by (auto simp: d isInt_def isNull_def requireGood_def Let_def)
  next
    case False
    then show ?thesis using assms by (intro isInt_long) simp_all
  qed
qed

lemma toInt_int_item:
  assumes fit: "bytesRequired i < rlp_max" and small: "bytesRequired i \<le> maxSize"
  shows "toInt maxSize f (encodeItem (int_item i)) = Inr i"
proof -
  let ?b = "toBigEndian (bytesRequired i) i"
  have fi: "fits (int_item i)" using fit by (simp add: int_item_def)
  then obtain s l k where at: "at_item s (encodeItem (int_item i) @ []) l k"
    and kl: "k + l = length (encodeItem (int_item i))"
    by (rule at_item_encode)
  have "decodeItem (encodeItem (int_item i)) = Inr (int_item i)"
    using fi by (rule decodeItem_encodeItem)
  then have data: "isData (encodeItem (int_item i))"
    and tb: "toBytes Strict (encodeItem (int_item i)) = Inr ?b"
    by (subst (asm) decodeItem.simps, auto simp: res_simps int_item_def RLP_ctor_VeryStrict
        split: if_splits)+
  from tb data have pl: "payload (encodeItem (int_item i)) = Inr ?b"
    by (auto simp: toBytes_def res_simps split: if_splits)
  have good: "requireGood (encodeItem (int_item i)) = Inr ()"
    using isInt_int_item [OF fit] data by (auto simp: isInt_def isData_def res_simps split: if_splits)
  show ?thesis
    using data pl good small isInt_int_item [OF fit]
    by (auto simp: toInt_def isData_def isList_def)
qed

end
