(* ===== verification/RLP_Props.thy ===== *)
theory RLP_Props
  imports RLP_Lists RLP_Stream
begin

text \<open>
  The properties of the RLP reader and writer and of the hex routines.
\<close>

interpretation rlp: canonical_codec encodeItem decodeItem fits
  by unfold_locales (rule decodeItem_encodeItem, assumption, rule encodeItem_decodeItem)

text \<open>C24: Whatever nested data is appended to an RLP stream, the stream accepts it, closes every list it
  opened, and the bytes it returns are read back by a strict reader as the same data.\<close>

theorem rlp_write_read:
  assumes "fits it"
  shows "\<exists>d. bindE (append_item it RLPStream_new) stream_out = Inr d \<and> decodeItem d = Inr it"
  using rlp_stream_item [OF assms] rlp.dec_enc [OF assms] by blast

theorem rlp_write_read_witness:
  "\<exists>d. bindE (append_item (Items [Data [1, 200], Items [], Data []]) RLPStream_new) stream_out = Inr d \<and>
    decodeItem d = Inr (Items [Data [1, 200], Items [], Data []])"
  by (rule rlp_write_read) (simp add: rlp_max_def rlp_header_def)

text \<open>C25: The strict reader accepts exactly one encoding of every data item, the one the stream writes:
  if it reads an item from some bytes, writing the item gives these bytes back.\<close>

theorem rlp_not_malleable:
  assumes "decodeItem d = Inr it"
  shows "bindE (append_item it RLPStream_new) stream_out = Inr d \<and> (\<forall>d'. decodeItem d' = Inr it \<longrightarrow> d' = d)"
  using rlp_stream_item [of it] rlp.enc_dec [OF assms] rlp.not_malleable [OF assms] by auto

theorem rlp_not_malleable_witness:
  "bindE (append_item (Items [Data [1], Data [2, 3]]) RLPStream_new) stream_out =
      Inr (encodeItem (Items [Data [1], Data [2, 3]]))"
  by (rule conjunct1 [OF rlp_not_malleable], rule rlp.dec_enc) (simp add: rlp_max_def rlp_header_def)



text \<open>C27: Iterating over a list that fills its buffer exactly visits its items in order and ends, and the
  item count is the number of items visited.\<close>

theorem rlp_iteration:
  assumes "list_view d off xs" and "off + length (concat xs) = length d" and "length xs < fuel"
  shows "bindE (iter_begin d) (\<lambda>it. case iter_collect fuel d it of None \<Rightarrow> Inl UndefinedBehaviour | Some r \<Rightarrow> r)
      = Inr xs \<and> itemCount d = Inr (length xs)"
proof -
  note v = list_viewD [OF assms(1)]
  have "payload d = Inr (concat xs)"
    using v(1,2,6) assms(2) by (simp add: payload_def cropped_def)
  then have "itemCount d = Inr (length xs)"
    using v(4,5) by (simp add: itemCount_def items_def items_loop_split)
  then show ?thesis
    using iter_begin_at [OF assms(1)] iter_collect_at [OF assms(1,2), of 0 fuel] assms(3) by simp
qed

text \<open>C28: Iterating over a list followed by trailing bytes (which only a reader built without
  \<open>FailIfTooBig\<close> accepts) never reaches the end iterator: the loop runs forever.\<close>

theorem rlp_iteration_trailing:
  assumes "list_view d off xs" and "off + length (concat xs) < length d"
  shows "\<exists>it. iter_begin d = Inr it \<and> (\<forall>fuel. iter_collect fuel d it = None)"
  using iter_begin_at [OF assms(1)] iter_collect_diverges [OF assms, of 0] by auto

lemma sample_view: "list_view [0xc2, 1, 2] 1 [[1], [2]]" "list_view [0xc2, 1, 2, 9] 1 [[1], [2]]"
proof -
  have "split_items [1, 2] = Inr [[1], [2]]" by code_simp
  moreover have "rlp_length [0xc2, 1, 2] = Inr 2" "rlp_length [0xc2, 1, 2, 9] = Inr 2" by code_simp+
  moreover have "isList [0xc2, 1, 2]" "isList [0xc2, 1, 2, 9]" "payloadOffset [0xc2, 1, 2] = 1"
    "payloadOffset [0xc2, 1, 2, 9] = 1" by code_simp+
  ultimately show "list_view [0xc2, 1, 2] 1 [[1], [2]]" "list_view [0xc2, 1, 2, 9] 1 [[1], [2]]"
    by (simp_all add: list_view_def)
qed

theorem rlp_iteration_witness:
  "bindE (iter_begin [0xc2, 1, 2]) (\<lambda>it. case iter_collect 3 [0xc2, 1, 2] it of
      None \<Rightarrow> Inl UndefinedBehaviour | Some r \<Rightarrow> r) = Inr [[1], [2]]"
  using rlp_iteration [OF sample_view(1), of 3] by simp

theorem rlp_iteration_trailing_witness:
  "\<exists>it. iter_begin [0xc2, 1, 2, 9] = Inr it \<and> (\<forall>fuel. iter_collect fuel [0xc2, 1, 2, 9] it = None)"
  using rlp_iteration_trailing [OF sample_view(2)] by simp

text \<open>C29: An integer appended to a stream is read back by \<open>toInt\<close> at every width it fits, with the
  strictness checks on, and is recognised as an integer.\<close>

theorem rlp_int_roundtrip:
  assumes "bytesRequired i < rlp_max" and "bytesRequired i \<le> maxSize"
  shows "\<exists>d. bindE (append_int i RLPStream_new) stream_out = Inr d \<and> toInt maxSize f d = Inr i \<and> isInt d = Inr True"
proof -
  have "bindE (append_int i RLPStream_new) stream_out = Inr (encodeItem (int_item i))"
    unfolding append_int_item [OF assms(1)]
    by (simp add: RLPStream_new_def noteAppended_def stream_out_def)
  then show ?thesis using toInt_int_item [OF assms] isInt_int_item [OF assms(1)] by blast
qed

theorem rlp_int_roundtrip_witness:
  "\<exists>d. bindE (append_int 1000000 RLPStream_new) stream_out = Inr d \<and> toInt 32 VeryStrict d = Inr 1000000 \<and>
    isInt d = Inr True"
proof -
  have "bytesRequired 1000000 = 3" by (simp add: bytesRequired.simps)
  then show ?thesis using rlp_int_roundtrip [of 1000000 32 VeryStrict] by (simp add: rlp_max_def)
qed

text \<open>C30: Hex text written with a prefix is accepted by \<open>isHex\<close> and decoded to the same bytes.\<close>

theorem hex_roundtrip:
  "isHex (toHexPrefixed b) \<and> fromHex (toHexPrefixed b) w = Inr b \<and> fromHex (toHex b) w = Inr b"
  by (simp add: isHex_toHexPrefixed fromHex_toHexPrefixed fromHex_toHex)

end
