(* ===== verification/StdMap.thy ===== *)
theory StdMap
  imports Prelude "HOL-Library.AList"
begin

text \<open>
  The standard containers the components use.  A \<open>std::unordered_map\<close> is an association
  list with distinct keys, a \<open>std::map\<close> one that is also sorted by key, and
  \<open>unordered_map<K, map<N, V>>\<close>, which the transaction queue keeps twice, is a nested
  list whose inner maps are never empty.  The locale \<open>store_index\<close> is the contract between
  a node store and a secondary index over it.
\<close>

subsection \<open>std::map\<close>

type_synonym ('k, 'v) omap = "('k \<times> 'v) list"

definition omap_ok :: "('k::linorder, 'v) omap \<Rightarrow> bool" where
  "omap_ok m = sorted_wrt (<) (map fst m)"

text \<open>\<open>m[k] = v\<close>.\<close>

fun omap_put :: "'k::linorder \<Rightarrow> 'v \<Rightarrow> ('k, 'v) omap \<Rightarrow> ('k, 'v) omap" where
  "omap_put k v [] = [(k, v)]"
| "omap_put k v ((k', v') # m) =
     (if k < k' then (k, v) # (k', v') # m
      else if k = k' then (k, v) # m
      else (k', v') # omap_put k v m)"

text \<open>\<open>m.emplace(k, v)\<close>: an existing entry stays.\<close>

definition omap_emplace :: "'k::linorder \<Rightarrow> 'v \<Rightarrow> ('k, 'v) omap \<Rightarrow> ('k, 'v) omap" where
  "omap_emplace k v m = (case map_of m k of None \<Rightarrow> omap_put k v m | Some _ \<Rightarrow> m)"

definition omap_erase :: "'k \<Rightarrow> ('k, 'v) omap \<Rightarrow> ('k, 'v) omap" where
  "omap_erase k m = filter (\<lambda>(k', _). k' \<noteq> k) m"

text \<open>The entries from \<open>m.lower_bound(k)\<close> on, and those before it.\<close>

definition omap_from :: "'k::linorder \<Rightarrow> ('k, 'v) omap \<Rightarrow> ('k, 'v) omap" where
  "omap_from k m = dropWhile (\<lambda>(k', _). k' < k) m"

definition omap_before :: "'k::linorder \<Rightarrow> ('k, 'v) omap \<Rightarrow> ('k, 'v) omap" where
  "omap_before k m = takeWhile (\<lambda>(k', _). k' < k) m"

lemma omap_before_from: "omap_before k m @ omap_from k m = m"
  by (simp add: omap_before_def omap_from_def)

lemma omap_ok_Nil [simp]: "omap_ok []"
  by (simp add: omap_ok_def)

lemma omap_ok_Cons: "omap_ok ((k, v) # m) \<longleftrightarrow> (\<forall>x\<in>set m. k < fst x) \<and> omap_ok m"
  by (auto simp: omap_ok_def)

lemma omap_ok_append:
  "omap_ok (a @ b) \<longleftrightarrow> omap_ok a \<and> omap_ok b \<and> (\<forall>x\<in>set a. \<forall>y\<in>set b. fst x < fst y)"
  by (auto simp: omap_ok_def sorted_wrt_append)

lemma omap_ok_distinct: "omap_ok m \<Longrightarrow> distinct (map fst m)"
  by (simp add: omap_ok_def strict_sorted_iff)

lemma set_omap_put: "set (omap_put k v m) \<subseteq> insert (k, v) (set m)"
  by (induction k v m rule: omap_put.induct) auto

lemma omap_ok_put [simp]: "omap_ok m \<Longrightarrow> omap_ok (omap_put k v m)"
proof (induction m)
  case (Cons x m)
  then show ?case
    using set_omap_put [of k v m] by (cases x) (fastforce simp: omap_ok_Cons)
qed (simp add: omap_ok_def)

lemma map_of_omap_put [simp]: "omap_ok m \<Longrightarrow> map_of (omap_put k v m) = (map_of m)(k \<mapsto> v)"
proof (induction m)
  case (Cons x m)
  then show ?case by (cases x) (auto simp: omap_ok_Cons fun_eq_iff)
qed simp

lemma omap_put_ne [simp]: "omap_put k v m \<noteq> []"
  by (cases "(k, v, m)" rule: omap_put.cases) auto

lemma omap_ok_erase [simp]: "omap_ok m \<Longrightarrow> omap_ok (omap_erase k m)"
  by (simp add: omap_ok_def omap_erase_def sorted_wrt_map sorted_wrt_filter)

lemma map_of_omap_erase [simp]: "map_of (omap_erase k m) = (map_of m)(k := None)"
  by (induction m) (auto simp: omap_erase_def fun_eq_iff)

lemma set_omap_from:
  "omap_ok m \<Longrightarrow> set (omap_from k m) = {x \<in> set m. k \<le> fst x}"
proof (induction m)
  case (Cons x m)
  then show ?case
    by (cases x) (force simp: omap_ok_Cons omap_from_def)
qed (simp add: omap_from_def)

lemma set_omap_before:
  "omap_ok m \<Longrightarrow> set (omap_before k m) = {x \<in> set m. fst x < k}"
proof (induction m)
  case (Cons x m)
  then show ?case
    by (cases x) (force simp: omap_ok_Cons omap_before_def)
qed (simp add: omap_before_def)

lemma omap_ok_from: "omap_ok m \<Longrightarrow> omap_ok (omap_from k m)"
  by (metis omap_before_from omap_ok_append)

lemma omap_ok_before: "omap_ok m \<Longrightarrow> omap_ok (omap_before k m)"
  by (metis omap_before_from omap_ok_append)

lemma omap_last_max: "omap_ok m \<Longrightarrow> x \<in> set m \<Longrightarrow> fst x \<le> fst (last m)"
proof (induction m rule: rev_induct)
  case (snoc y m)
  then show ?case by (auto simp: omap_ok_append)
qed simp

subsection \<open>Sums over entries\<close>

definition osum :: "('v \<Rightarrow> nat) \<Rightarrow> ('k, 'v) omap \<Rightarrow> nat" where
  "osum f m = sum_list (map (f \<circ> snd) m)"

lemma osum_Nil [simp]: "osum f [] = 0"
  by (simp add: osum_def)

lemma osum_Cons [simp]: "osum f (x # m) = f (snd x) + osum f m"
  by (simp add: osum_def)

lemma osum_append [simp]: "osum f (a @ b) = osum f a + osum f b"
  by (simp add: osum_def)

lemma osum_put_new:
  "map_of m k = None \<Longrightarrow> osum f (omap_put k v m) = osum f m + f v"
  by (induction m) (auto split: if_splits)

lemma osum_delete:
  "distinct (map fst m) \<Longrightarrow> map_of m k = Some v \<Longrightarrow>
     osum f (AList.delete k m) + f v = osum f m"
proof (induction m)
  case (Cons x m)
  then show ?case
    by (auto simp: AList.delete_eq split: if_splits)
      (metis (mono_tags, lifting) case_prod_beta' filter_True fst_conv image_eqI)+
qed simp

lemma omap_erase_delete: "omap_erase k m = AList.delete k m"
  by (auto simp: omap_erase_def AList.delete_eq intro!: filter_cong)

subsection \<open>Nested maps\<close>

type_synonym ('a, 'k, 'v) nmap = "('a \<times> ('k, 'v) omap) list"

definition nmap_ok :: "('a, 'k::linorder, 'v) nmap \<Rightarrow> bool" where
  "nmap_ok al \<longleftrightarrow> distinct (map fst al) \<and> (\<forall>(a, m)\<in>set al. m \<noteq> [] \<and> omap_ok m)"

text \<open>The inner map at \<open>a\<close>, as \<open>operator[]\<close> gives it (empty when absent).\<close>

definition ninner :: "('a, 'k, 'v) nmap \<Rightarrow> 'a \<Rightarrow> ('k, 'v) omap" where
  "ninner al a = (case map_of al a of None \<Rightarrow> [] | Some m \<Rightarrow> m)"

definition nlookup :: "('a, 'k, 'v) nmap \<Rightarrow> 'a \<Rightarrow> 'k \<Rightarrow> 'v option" where
  "nlookup al a k = map_of (ninner al a) k"

text \<open>Store an inner map back, dropping the address when it became empty.\<close>

definition nset :: "'a \<Rightarrow> ('k, 'v) omap \<Rightarrow> ('a, 'k, 'v) nmap \<Rightarrow> ('a, 'k, 'v) nmap" where
  "nset a m al = (if m = [] then AList.delete a al else AList.update a m al)"

definition nsum :: "('v \<Rightarrow> nat) \<Rightarrow> ('a, 'k, 'v) nmap \<Rightarrow> nat" where
  "nsum f al = sum_list (map (osum f \<circ> snd) al)"

lemma nmap_ok_Nil [simp]: "nmap_ok []"
  by (simp add: nmap_ok_def)

lemma ninner_ok [simp]: "nmap_ok al \<Longrightarrow> omap_ok (ninner al a)"
  by (auto simp: nmap_ok_def ninner_def split: option.splits dest: map_of_SomeD)

lemma map_of_ninner: "map_of al a = Some m \<Longrightarrow> ninner al a = m"
  by (simp add: ninner_def)

lemma nmap_ok_find: "nmap_ok al \<Longrightarrow> map_of al a = Some m \<Longrightarrow> m \<noteq> []"
  by (auto simp: nmap_ok_def dest!: map_of_SomeD)

lemma ninner_eq_Nil: "nmap_ok al \<Longrightarrow> ninner al a = [] \<longleftrightarrow> map_of al a = None"
  using nmap_ok_find by (fastforce simp: ninner_def split: option.splits)

lemma set_update_subset: "set (AList.update k v al) \<subseteq> insert (k, v) (set al)"
  by (induction al) auto

lemma nmap_ok_nset [simp]: "nmap_ok al \<Longrightarrow> omap_ok m \<Longrightarrow> nmap_ok (nset a m al)"
  using set_update_subset [of a m al] distinct_delete [of al a]
  by (auto simp: nmap_ok_def nset_def AList.delete_eq intro: distinct_update)

lemma ninner_nset [simp]: "ninner (nset a m al) b = (if b = a then m else ninner al b)"
  by (auto simp: ninner_def nset_def update_conv' delete_conv')

lemma nlookup_nset [simp]:
  "nlookup (nset a m al) b k = (if b = a then map_of m k else nlookup al b k)"
  by (simp add: nlookup_def)

lemma nsum_delete:
  "distinct (map fst al) \<Longrightarrow> nsum f (AList.delete a al) + osum f (ninner al a) = nsum f al"
proof (induction al)
  case (Cons x al)
  then have IH: "nsum f (AList.delete a al) + osum f (ninner al a) = nsum f al" by simp
  show ?case
  proof (cases "fst x = a")
    case True
    with Cons.prems have "a \<notin> fst ` set al" by (cases x) auto
    then have "AList.delete a al = al" by (rule delete_id)
    with True show ?thesis
      by (cases x) (simp add: nsum_def ninner_def)
  next
    case False
    with IH show ?thesis by (cases x) (simp add: nsum_def ninner_def)
  qed
qed (simp add: nsum_def ninner_def)

lemma nsum_update: "distinct (map fst al) \<Longrightarrow>
  nsum f (AList.update a m al) + osum f (ninner al a) = nsum f al + osum f m"
proof (induction al)
  case (Cons x al)
  then show ?case by (cases x) (auto simp: nsum_def ninner_def)
qed (simp add: nsum_def ninner_def)

lemma nsum_nset: "nmap_ok al \<Longrightarrow>
  nsum f (nset a m al) + osum f (ninner al a) = nsum f al + osum f m"
  using nsum_delete [of al f a] nsum_update [of al f a m]
  by (simp add: nset_def nmap_ok_def)

lemma nsum_Nil [simp]: "nsum f [] = 0"
  by (simp add: nsum_def)

definition nput :: "'a \<Rightarrow> 'k::linorder \<Rightarrow> 'v \<Rightarrow> ('a, 'k, 'v) nmap \<Rightarrow> ('a, 'k, 'v) nmap" where
  "nput a k v al = nset a (omap_put k v (ninner al a)) al"

definition nerase :: "'a \<Rightarrow> 'k \<Rightarrow> ('a, 'k, 'v) nmap \<Rightarrow> ('a, 'k, 'v) nmap" where
  "nerase a k al = nset a (omap_erase k (ninner al a)) al"

lemma nmap_ok_nput [simp]: "nmap_ok al \<Longrightarrow> nmap_ok (nput a k v al)"
  by (simp add: nput_def)

lemma nmap_ok_nerase [simp]: "nmap_ok al \<Longrightarrow> nmap_ok (nerase a k al)"
  by (simp add: nerase_def)

lemma nlookup_nput [simp]: "nmap_ok al \<Longrightarrow>
  nlookup (nput a k v al) b j = (if b = a \<and> j = k then Some v else nlookup al b j)"
  by (auto simp: nput_def nlookup_def)

lemma nlookup_nerase [simp]:
  "nlookup (nerase a k al) b j = (if b = a \<and> j = k then None else nlookup al b j)"
  by (auto simp: nerase_def nlookup_def)

lemma nsum_nput: "nmap_ok al \<Longrightarrow> nlookup al a k = None \<Longrightarrow> nsum f (nput a k v al) = nsum f al + f v"
  using nsum_nset [of al f a "omap_put k v (ninner al a)"]
  by (simp add: nput_def nlookup_def osum_put_new)

lemma nsum_nerase:
  assumes "nmap_ok al" and "nlookup al a k = Some v"
  shows "nsum f (nerase a k al) + f v = nsum f al"
proof -
  have "osum f (omap_erase k (ninner al a)) + f v = osum f (ninner al a)"
    using assms omap_ok_distinct [of "ninner al a"]
    by (simp add: omap_erase_delete osum_delete nlookup_def)
  with nsum_nset [OF assms(1), of f a "omap_erase k (ninner al a)"] show ?thesis
    by (simp add: nerase_def)
qed

lemma nset_nset [simp]: "m' \<noteq> [] \<or> m = [] \<Longrightarrow> nset a m (nset a m' al) = nset a m al"
  by (induction al) (auto simp: nset_def AList.delete_eq split: if_splits)

lemma omap_put_put [simp]: "omap_put k v (omap_put k w m) = omap_put k v m"
  by (induction m) auto

lemma nput_nput [simp]: "nput a k v (nput a k w al) = nput a k v al"
  by (simp add: nput_def)

lemma omap_erase_append_Cons:
  assumes "omap_ok (pre @ (k, v) # m)"
  shows "omap_erase k (pre @ (k, v) # m) = pre @ m"
proof -
  have "\<forall>x\<in>set pre. fst x \<noteq> k" "\<forall>x\<in>set m. fst x \<noteq> k"
    using assms by (force simp: omap_ok_append omap_ok_Cons)+
  then have "omap_erase k pre = pre" "omap_erase k m = m"
    by (simp_all add: omap_erase_def filter_id_conv case_prod_beta')
  then show ?thesis by (simp add: omap_erase_def)
qed

lemma nset_ninner: "nmap_ok al \<Longrightarrow> nset a (ninner al a) al = al"
proof (cases "map_of al a")
  case None
  then have "a \<notin> fst ` set al" by (simp add: map_of_eq_None_iff)
  with None show ?thesis by (simp add: nset_def ninner_def delete_id)
next
  case (Some m)
  moreover assume "nmap_ok al"
  ultimately show ?thesis using nmap_ok_find [of al a m] by (simp add: nset_def ninner_def update_triv)
qed

subsection \<open>Secondary indexes over a node store\<close>

text \<open>
  A store maps node identities to values; an index of type \<open>'m\<close> maps a key of the value
  to the node that holds it.  A provider gives lookup, insertion and removal with the
  usual laws on its well-formed indexes; the client's lemmas say that inserting or
  removing one node in store and index together keeps them in step.
\<close>

locale store_index =
  fixes look :: "'m \<Rightarrow> 'k \<Rightarrow> 'i option"
    and put :: "'k \<Rightarrow> 'i \<Rightarrow> 'm \<Rightarrow> 'm"
    and del :: "'k \<Rightarrow> 'm \<Rightarrow> 'm"
    and ok :: "'m \<Rightarrow> bool"
    and key :: "'v \<Rightarrow> 'k"
  assumes look_put: "ok m \<Longrightarrow> look (put k i m) = (look m)(k \<mapsto> i)"
    and look_del: "ok m \<Longrightarrow> look (del k m) = (look m)(k := None)"
    and ok_put: "ok m \<Longrightarrow> ok (put k i m)"
    and ok_del: "ok m \<Longrightarrow> ok (del k m)"
begin

definition indexes :: "'m \<Rightarrow> ('i \<rightharpoonup> 'v) \<Rightarrow> bool" where
  "indexes m s \<longleftrightarrow> ok m \<and> (\<forall>k i. look m k = Some i \<longleftrightarrow> (\<exists>v. s i = Some v \<and> key v = k))"

lemma indexesD: "indexes m s \<Longrightarrow> s i = Some v \<Longrightarrow> look m (key v) = Some i"
  by (auto simp: indexes_def)

lemma indexes_node: "indexes m s \<Longrightarrow> look m k = Some i \<Longrightarrow> \<exists>v. s i = Some v \<and> key v = k"
  by (auto simp: indexes_def)

lemma indexes_ok: "indexes m s \<Longrightarrow> ok m"
  by (simp add: indexes_def)

lemma indexes_None: "indexes m s \<Longrightarrow> look m k = None \<Longrightarrow> s i = Some v \<Longrightarrow> key v \<noteq> k"
  by (metis indexesD option.distinct(1))

lemma indexes_unique: "indexes m s \<Longrightarrow> s i = Some v \<Longrightarrow> s j = Some w \<Longrightarrow> key v = key w \<Longrightarrow> i = j"
  by (metis indexesD option.inject)

lemma indexes_put:
  "indexes m s \<Longrightarrow> s i = None \<Longrightarrow> look m (key v) = None \<Longrightarrow>
     indexes (put (key v) i m) (s(i \<mapsto> v))"
  unfolding indexes_def by (auto simp: look_put ok_put) (metis option.distinct(1))+

lemma indexes_del:
  assumes idx: "indexes m s" and i: "s i = Some v"
  shows "indexes (del (key v) m) (s(i := None))"
  unfolding indexes_def
proof (intro conjI allI)
  show "ok (del (key v) m)" using idx by (simp add: indexes_ok ok_del)
  fix k j
  have l: "look (del (key v) m) = (look m)(key v := None)"
    using idx by (simp add: indexes_ok look_del)
  have u: "s j = Some w \<Longrightarrow> key w = key v \<Longrightarrow> j = i" for w
    using indexes_unique [OF idx _ i] by blast
  have e: "look m k = Some j \<longleftrightarrow> (\<exists>w. s j = Some w \<and> key w = k)"
    using idx by (simp add: indexes_def)
  show "look (del (key v) m) k = Some j \<longleftrightarrow> (\<exists>w. (s(i := None)) j = Some w \<and> key w = k)"
  proof (cases "k = key v")
    case True
    with l u show ?thesis by auto
  next
    case False
    with l e i show ?thesis by auto
  qed
qed

end

end
