(* ===== verification/LruCache.thy ===== *)
theory LruCache
  imports StdMap
begin

text \<open>
  \<open>libdevcore/LruCache.h\<close>: a list of key-value nodes, most recently used first, and an
  index from keys to list iterators.  An iterator is the identity of its node, drawn from
  the counter \<open>lru_next\<close>; a list operation through an iterator finds the node by its
  identity.  \<open>None\<close> is undefined behaviour: \<open>back()\<close> of an empty list, or an iterator
  to a node that is gone.  The theory shows that the cache implements the abstract
  move-to-front list of at most \<open>m_capacity\<close> distinct keys.
\<close>

record ('k, 'v) lru =
  lru_data :: "(nat \<times> 'k \<times> 'v) list"
  lru_index :: "('k \<times> nat) list"
  lru_capacity :: nat
  lru_next :: nat

definition lru_new :: "nat \<Rightarrow> ('k, 'v) lru" where
  "lru_new capacity = \<lparr>lru_data = [], lru_index = [], lru_capacity = capacity, lru_next = 0\<rparr>"

text \<open>\<open>m_data.splice(m_data.begin(), m_data, it)\<close>\<close>

definition lru_splice :: "nat \<Rightarrow> (nat \<times> 'a) list \<Rightarrow> (nat \<times> 'a) list option" where
  "lru_splice i d = (case map_of d i of None \<Rightarrow> None
     | Some x \<Rightarrow> Some ((i, x) # AList.delete i d))"

definition lru_insert :: "'k \<Rightarrow> 'v \<Rightarrow> ('k, 'v) lru \<Rightarrow> (nat \<times> ('k, 'v) lru) option" where
  "lru_insert key val c =
     (case map_of (lru_index c) key of
        None \<Rightarrow>
          Option.bind
            (if length (lru_index c) = lru_capacity c
             then (if lru_data c = [] then None
                   else Some (c\<lparr>lru_index := AList.delete (fst (snd (last (lru_data c)))) (lru_index c),
                               lru_data := butlast (lru_data c)\<rparr>))
             else Some c)
            (\<lambda>c1. let c2 = c1\<lparr>lru_data := (lru_next c1, key, val) # lru_data c1,
                          lru_index := AList.update key (lru_next c1) (lru_index c1),
                          lru_next := Suc (lru_next c1)\<rparr>
                  in Some (length (lru_index c2), c2))
      | Some i \<Rightarrow>
          Option.bind (lru_splice i (lru_data c))
            (\<lambda>d. let c1 = c\<lparr>lru_data := d\<rparr> in Some (length (lru_index c1), c1)))"

definition lru_remove :: "'k \<Rightarrow> ('k, 'v) lru \<Rightarrow> nat \<times> ('k, 'v) lru" where
  "lru_remove key c =
     (let c1 = (case map_of (lru_index c) key of
                  None \<Rightarrow> c
                | Some i \<Rightarrow> c\<lparr>lru_data := AList.delete i (lru_data c),
                              lru_index := AList.delete key (lru_index c)\<rparr>)
      in (length (lru_index c1), c1))"

definition lru_touch :: "'k \<Rightarrow> ('k, 'v) lru \<Rightarrow> (bool \<times> ('k, 'v) lru) option" where
  "lru_touch key c =
     (case map_of (lru_index c) key of
        None \<Rightarrow> Some (False, c)
      | Some i \<Rightarrow> map_option (\<lambda>d. (True, c\<lparr>lru_data := d\<rparr>)) (lru_splice i (lru_data c)))"

definition lru_contains :: "'k \<Rightarrow> ('k, 'v) lru \<Rightarrow> bool" where
  "lru_contains key c = (map_of (lru_index c) key \<noteq> None)"

definition lru_contains_value :: "'k \<Rightarrow> 'v \<Rightarrow> ('k, 'v) lru \<Rightarrow> bool" where
  "lru_contains_value key val c =
     (case map_of (lru_index c) key of
        None \<Rightarrow> False
      | Some i \<Rightarrow> (case map_of (lru_data c) i of None \<Rightarrow> False | Some (_, v) \<Rightarrow> v = val))"

definition lru_size :: "('k, 'v) lru \<Rightarrow> nat" where
  "lru_size c = length (lru_index c)"

definition lru_clear :: "('k, 'v) lru \<Rightarrow> ('k, 'v) lru" where
  "lru_clear c = c\<lparr>lru_index := [], lru_data := []\<rparr>"

subsection \<open>Invariant and abstraction\<close>

interpretation lru_ix: store_index map_of AList.update AList.delete
    "\<lambda>m. distinct (map fst m)" "fst :: 'k \<times> 'v \<Rightarrow> 'k"
  by unfold_locales (simp_all add: update_conv' delete_conv' distinct_update distinct_delete)

definition lru_ok :: "('k, 'v) lru \<Rightarrow> bool" where
  "lru_ok c \<longleftrightarrow> distinct (map fst (lru_data c)) \<and> (\<forall>x\<in>set (lru_data c). fst x < lru_next c) \<and>
     lru_ix.indexes (lru_index c) (map_of (lru_data c)) \<and>
     length (lru_index c) = length (lru_data c) \<and> length (lru_data c) \<le> lru_capacity c"

text \<open>The abstract cache: entries in order of use, most recent first.\<close>

definition lru_abs :: "('k, 'v) lru \<Rightarrow> ('k \<times> 'v) list" where
  "lru_abs c = map snd (lru_data c)"

definition mtf_touch :: "'k \<Rightarrow> ('k \<times> 'v) list \<Rightarrow> ('k \<times> 'v) list" where
  "mtf_touch k xs = (case map_of xs k of None \<Rightarrow> xs | Some v \<Rightarrow> (k, v) # AList.delete k xs)"

definition mtf_insert :: "nat \<Rightarrow> 'k \<Rightarrow> 'v \<Rightarrow> ('k \<times> 'v) list \<Rightarrow> ('k \<times> 'v) list" where
  "mtf_insert cap k v xs =
     (if map_of xs k = None
      then (k, v) # (if length xs = cap then butlast xs else xs)
      else mtf_touch k xs)"

lemma lru_ok_new [simp]: "lru_ok (lru_new n)"
  by (simp add: lru_ok_def lru_new_def lru_ix.indexes_def)

lemma lru_okD:
  assumes "lru_ok c"
  shows "distinct (map fst (lru_data c))"
    and "lru_ix.indexes (lru_index c) (map_of (lru_data c))"
    and "length (lru_index c) = length (lru_data c)"
    and "map_of (lru_data c) (lru_next c) = None"
  using assms by (auto simp: lru_ok_def map_of_eq_None_iff)

lemma lru_abs_distinct:
  assumes "lru_ok c"
  shows "distinct (map fst (lru_abs c))"
proof -
  note ok = lru_okD [OF assms]
  have "inj_on (fst \<circ> snd) (set (lru_data c))"
  proof (rule inj_onI)
    fix x y assume x: "x \<in> set (lru_data c)" and y: "y \<in> set (lru_data c)"
      and e: "(fst \<circ> snd) x = (fst \<circ> snd) y"
    have "map_of (lru_data c) (fst x) = Some (snd x)" "map_of (lru_data c) (fst y) = Some (snd y)"
      using x y ok(1) by simp_all
    with lru_ix.indexes_unique [OF ok(2)] e have "fst x = fst y" by simp
    with x y ok(1) show "x = y" by (metis eq_key_imp_eq_value prod.collapse)
  qed
  moreover have "distinct (lru_data c)" using ok(1) by (simp add: distinct_map)
  ultimately show ?thesis by (simp add: lru_abs_def distinct_map)
qed

lemma lru_node:
  assumes "lru_ok c" and "map_of (lru_index c) k = Some i"
  obtains v where "map_of (lru_data c) i = Some (k, v)" and "map_of (lru_abs c) k = Some v"
proof -
  obtain v where v: "map_of (lru_data c) i = Some (k, v)"
    using lru_ix.indexes_node [OF lru_okD(2) [OF assms(1)] assms(2)] by auto
  then have "(k, v) \<in> set (lru_abs c)" by (force simp: lru_abs_def dest: map_of_SomeD)
  with lru_abs_distinct [OF assms(1)] v that show ?thesis by simp
qed

lemma lru_absent:
  assumes "lru_ok c"
  shows "map_of (lru_abs c) k = None \<longleftrightarrow> map_of (lru_index c) k = None"
proof
  assume n: "map_of (lru_index c) k = None"
  note ok = lru_okD [OF assms]
  have "fst (snd x) \<noteq> k" if "x \<in> set (lru_data c)" for x
    using lru_ix.indexes_None [OF ok(2) n, of "fst x" "snd x"] that ok(1) by simp
  then show "map_of (lru_abs c) k = None"
    unfolding map_of_eq_None_iff lru_abs_def by (fastforce simp del: split_paired_All)
next
  assume "map_of (lru_abs c) k = None"
  then show "map_of (lru_index c) k = None" using lru_node [OF assms] by (metis option.exhaust option.simps(3))
qed

lemma lru_data_delete:
  assumes "lru_ok c" and "map_of (lru_index c) k = Some i"
  shows "map snd (AList.delete i (lru_data c)) = AList.delete k (lru_abs c)"
proof -
  note ok = lru_okD [OF assms(1)]
  have "(i \<noteq> fst x) = (k \<noteq> fst (snd x))" if "x \<in> set (lru_data c)" for x
  proof -
    have "map_of (lru_index c) (fst (snd x)) = Some (fst x)"
      using lru_ix.indexesD [OF ok(2), of "fst x" "snd x"] that ok(1) by simp
    moreover obtain v where "map_of (lru_data c) i = Some (k, v)" using lru_node [OF assms] .
    moreover have "map_of (lru_data c) (fst x) = Some (snd x)" using that ok(1) by simp
    ultimately show ?thesis using assms(2) by auto
  qed
  then have "filter (\<lambda>x. i \<noteq> fst x) (lru_data c) = filter (\<lambda>x. k \<noteq> fst (snd x)) (lru_data c)"
    by (intro filter_cong) auto
  then show ?thesis
    by (simp add: lru_abs_def AList.delete_eq filter_map case_prod_beta' comp_def)
qed

lemma length_delete_in:
  assumes "distinct (map fst m)" and "map_of m k = Some v"
  shows "Suc (length (AList.delete k m)) = length m"
  using assms
proof (induction m)
  case (Cons x m)
  then show ?case by (cases x) (auto simp: delete_id split: if_splits)
qed simp

lemma length_update_new:
  "map_of m k = None \<Longrightarrow> length (AList.update k v m) = Suc (length m)"
  by (induction m) (auto split: if_splits)

lemma lru_ok_drop:
  assumes "lru_ok c" and i: "map_of (lru_index c) k = Some i"
  defines "c' \<equiv> c\<lparr>lru_data := AList.delete i (lru_data c), lru_index := AList.delete k (lru_index c)\<rparr>"
  shows "lru_ok c'" and "lru_abs c' = AList.delete k (lru_abs c)"
    and "Suc (length (lru_data c')) = length (lru_data c)"
proof -
  note ok = lru_okD [OF assms(1)]
  obtain v where v: "map_of (lru_data c) i = Some (k, v)" using lru_node [OF assms(1) i] .
  have "lru_ix.indexes (AList.delete k (lru_index c)) (map_of (AList.delete i (lru_data c)))"
    using lru_ix.indexes_del [OF ok(2) v] by (simp add: delete_conv')
  moreover have "Suc (length (AList.delete i (lru_data c))) = length (lru_data c)"
    by (rule length_delete_in [OF ok(1) v])
  moreover have "Suc (length (AList.delete k (lru_index c))) = length (lru_index c)"
    by (rule length_delete_in [OF lru_ix.indexes_ok [OF ok(2)] i])
  ultimately show "lru_ok c'" "Suc (length (lru_data c')) = length (lru_data c)"
    using assms(1) ok(1,3)
    by (auto simp: lru_ok_def c'_def distinct_map_filter AList.delete_eq)
  show "lru_abs c' = AList.delete k (lru_abs c)"
    using lru_data_delete [OF assms(1) i] by (simp add: lru_abs_def c'_def)
qed

lemma lru_ok_push:
  fixes v
  assumes "lru_ok c" and n: "map_of (lru_index c) k = None" and "length (lru_data c) < lru_capacity c"
  defines "c' \<equiv> c\<lparr>lru_data := (lru_next c, k, v) # lru_data c,
    lru_index := AList.update k (lru_next c) (lru_index c), lru_next := Suc (lru_next c)\<rparr>"
  shows "lru_ok c'" and "lru_abs c' = (k, v) # lru_abs c"
proof -
  note ok = lru_okD [OF assms(1)]
  have "lru_ix.indexes (AList.update k (lru_next c) (lru_index c))
      (map_of ((lru_next c, k, v) # lru_data c))"
    using lru_ix.indexes_put [OF ok(2,4), of "(k, v)"] n by simp
  moreover have "length (AList.update k (lru_next c) (lru_index c)) = Suc (length (lru_index c))"
    using n by (rule length_update_new)
  ultimately show "lru_ok c'"
    using assms(1,3) ok by (fastforce simp: lru_ok_def c'_def)
  show "lru_abs c' = (k, v) # lru_abs c" by (simp add: lru_abs_def c'_def)
qed

lemma lru_ok_splice:
  assumes "lru_ok c" and i: "map_of (lru_index c) k = Some i"
  obtains d where "lru_splice i (lru_data c) = Some d" and "lru_ok (c\<lparr>lru_data := d\<rparr>)"
    and "lru_abs (c\<lparr>lru_data := d\<rparr>) = mtf_touch k (lru_abs c)"
proof -
  note ok = lru_okD [OF assms(1)]
  obtain v where v: "map_of (lru_data c) i = Some (k, v)" "map_of (lru_abs c) k = Some v"
    using lru_node [OF assms] .
  let ?d = "(i, k, v) # AList.delete i (lru_data c)"
  have "map_of ?d = map_of (lru_data c)" using v by (auto simp: delete_conv' fun_eq_iff)
  moreover have "length ?d = length (lru_data c)" using length_delete_in [OF ok(1) v(1)] by simp
  moreover have "i < lru_next c" using assms(1) v(1) by (force simp: lru_ok_def dest: map_of_SomeD)
  ultimately have "lru_ok (c\<lparr>lru_data := ?d\<rparr>)"
    using assms(1) ok by (auto simp: lru_ok_def distinct_map_filter AList.delete_eq)
  moreover have "lru_abs (c\<lparr>lru_data := ?d\<rparr>) = mtf_touch k (lru_abs c)"
    using lru_data_delete [OF assms] v(2) by (simp add: lru_abs_def mtf_touch_def)
  ultimately show ?thesis using that v(1) by (simp add: lru_splice_def)
qed

subsection \<open>Every operation implements the move-to-front list\<close>

lemma lru_last:
  assumes "lru_ok c" and "lru_data c \<noteq> []"
  shows "map_of (lru_index c) (fst (snd (last (lru_data c)))) = Some (fst (last (lru_data c)))"
    and "butlast (lru_data c) = AList.delete (fst (last (lru_data c))) (lru_data c)"
proof -
  note ok = lru_okD [OF assms(1)]
  show "map_of (lru_index c) (fst (snd (last (lru_data c)))) = Some (fst (last (lru_data c)))"
    using lru_ix.indexesD [OF ok(2)] ok(1) assms(2) by simp
  obtain ds x where d: "lru_data c = ds @ [x]" using assms(2) by (metis rev_exhaust)
  have "fst x \<notin> fst ` set ds" using ok(1) d by auto
  then have "filter (\<lambda>y. fst x \<noteq> fst y) ds = ds" by (auto simp: filter_id_conv)
  then show "butlast (lru_data c) = AList.delete (fst (last (lru_data c))) (lru_data c)"
    by (simp add: d AList.delete_eq case_prod_beta')
qed

lemma lru_insert_correct:
  assumes "lru_ok c" and "lru_capacity c \<noteq> 0"
  obtains n c' where "lru_insert k v c = Some (n, c')" and "lru_ok c'"
    and "lru_abs c' = mtf_insert (lru_capacity c) k v (lru_abs c)"
    and "lru_capacity c' = lru_capacity c" and "n = length (lru_abs c')"
proof (cases "map_of (lru_index c) k")
  case (Some i)
  obtain d where d: "lru_splice i (lru_data c) = Some d" "lru_ok (c\<lparr>lru_data := d\<rparr>)"
    "lru_abs (c\<lparr>lru_data := d\<rparr>) = mtf_touch k (lru_abs c)"
    using lru_ok_splice [OF assms(1) Some] .
  moreover have "map_of (lru_abs c) k \<noteq> None" using lru_absent [OF assms(1)] Some by simp
  moreover have "length (lru_index c) = length (lru_abs (c\<lparr>lru_data := d\<rparr>))"
    using lru_okD(3) [OF d(2)] by (simp add: lru_abs_def)
  ultimately show thesis
    using Some by (intro that [of "length (lru_index c)" "c\<lparr>lru_data := d\<rparr>"])
      (auto simp: lru_insert_def mtf_insert_def Let_def)
next
  case None
  note ok = lru_okD [OF assms(1)]
  have a: "map_of (lru_abs c) k = None" using lru_absent [OF assms(1)] None by simp
  define c1 where "c1 = (if length (lru_index c) = lru_capacity c
    then c\<lparr>lru_index := AList.delete (fst (snd (last (lru_data c)))) (lru_index c),
           lru_data := butlast (lru_data c)\<rparr> else c)"
  have c1: "lru_ok c1 \<and> length (lru_data c1) < lru_capacity c1 \<and> map_of (lru_index c1) k = None \<and>
      lru_capacity c1 = lru_capacity c \<and>
      lru_abs c1 = (if length (lru_abs c) = lru_capacity c then butlast (lru_abs c) else lru_abs c)"
  proof (cases "length (lru_index c) = lru_capacity c")
    case True
    then have ne: "lru_data c \<noteq> []" using assms(2) ok(3) by auto
    note l = lru_last [OF assms(1) ne]
    note dr = lru_ok_drop [OF assms(1) l(1), folded l(2)]
    have "c1 = c\<lparr>lru_data := butlast (lru_data c),
        lru_index := AList.delete (fst (snd (last (lru_data c)))) (lru_index c)\<rparr>"
      using True by (simp add: c1_def)
    moreover have "lru_abs c1 = butlast (lru_abs c)"
      using True by (simp add: c1_def lru_abs_def map_butlast)
    ultimately show ?thesis
      using dr(1,3) True ok(3) None by (simp add: lru_abs_def delete_conv')
  next
    case False
    then show ?thesis using assms(1) None by (auto simp: c1_def lru_abs_def lru_ok_def)
  qed
  let ?c2 = "c1\<lparr>lru_data := (lru_next c1, k, v) # lru_data c1,
    lru_index := AList.update k (lru_next c1) (lru_index c1), lru_next := Suc (lru_next c1)\<rparr>"
  have c2: "lru_ok ?c2" "lru_abs ?c2 = (k, v) # lru_abs c1"
    using lru_ok_push [of c1 k v] c1 by auto
  have "lru_insert k v c = Some (length (lru_index ?c2), ?c2)"
    using None assms(2) ok(3) by (auto simp: lru_insert_def c1_def Let_def)
  moreover have "length (lru_index ?c2) = length (lru_abs ?c2)"
    using lru_okD(3) [OF c2(1)] by (simp add: lru_abs_def)
  moreover have "lru_abs ?c2 = mtf_insert (lru_capacity c) k v (lru_abs c)"
    using c1 c2(2) a by (simp add: mtf_insert_def)
  ultimately show thesis
    using c1 c2(1) by (intro that [of _ ?c2]) auto
qed

lemma lru_remove_correct:
  assumes "lru_ok c"
  shows "lru_ok (snd (lru_remove k c))"
    and "lru_abs (snd (lru_remove k c)) = AList.delete k (lru_abs c)"
    and "fst (lru_remove k c) = length (lru_abs (snd (lru_remove k c)))"
proof -
  have *: "lru_ok (snd (lru_remove k c)) \<and> lru_abs (snd (lru_remove k c)) = AList.delete k (lru_abs c)"
  proof (cases "map_of (lru_index c) k")
    case None
    then have "AList.delete k (lru_abs c) = lru_abs c"
      using lru_absent [OF assms] by (simp add: delete_id map_of_eq_None_iff)
    with None assms show ?thesis by (simp add: lru_remove_def)
  next
    case (Some i)
    then show ?thesis using lru_ok_drop [OF assms Some] by (simp add: lru_remove_def)
  qed
  then show "lru_ok (snd (lru_remove k c))"
    "lru_abs (snd (lru_remove k c)) = AList.delete k (lru_abs c)" by auto
  show "fst (lru_remove k c) = length (lru_abs (snd (lru_remove k c)))"
    using lru_okD(3) [OF conjunct1 [OF *]] by (simp add: lru_remove_def lru_abs_def Let_def)
qed

lemma lru_touch_correct:
  assumes "lru_ok c"
  obtains c' where "lru_touch k c = Some (map_of (lru_abs c) k \<noteq> None, c')" and "lru_ok c'"
    and "lru_abs c' = mtf_touch k (lru_abs c)"
proof (cases "map_of (lru_index c) k")
  case None
  with assms lru_absent [OF assms, of k] that show ?thesis
    by (simp add: lru_touch_def mtf_touch_def)
next
  case (Some i)
  then have "map_of (lru_abs c) k \<noteq> None" using lru_absent [OF assms] by simp
  then show ?thesis
    using lru_ok_splice [OF assms Some] that Some by (auto simp: lru_touch_def)
qed

lemma lru_contains_correct: "lru_ok c \<Longrightarrow> lru_contains k c \<longleftrightarrow> map_of (lru_abs c) k \<noteq> None"
  by (simp add: lru_contains_def lru_absent)

lemma lru_contains_value_correct:
  assumes "lru_ok c"
  shows "lru_contains_value k v c \<longleftrightarrow> map_of (lru_abs c) k = Some v"
proof (cases "map_of (lru_index c) k")
  case None
  with lru_absent [OF assms, of k] show ?thesis by (simp add: lru_contains_value_def)
next
  case (Some i)
  obtain w where "map_of (lru_data c) i = Some (k, w)" "map_of (lru_abs c) k = Some w"
    using lru_node [OF assms Some] .
  with Some show ?thesis by (simp add: lru_contains_value_def)
qed

lemma lru_ok_clear [simp]: "lru_ok (lru_clear c)"
  by (simp add: lru_ok_def lru_clear_def lru_ix.indexes_def)

lemma lru_abs_clear [simp]: "lru_abs (lru_clear c) = []"
  by (simp add: lru_abs_def lru_clear_def)

lemma lru_bounded: "lru_ok c \<Longrightarrow> lru_size c = length (lru_abs c) \<and> lru_size c \<le> lru_capacity c"
  by (simp add: lru_ok_def lru_size_def lru_abs_def)

subsection \<open>Runs\<close>

datatype ('k, 'v) lru_op = Insert 'k 'v | Remove 'k | Touch 'k | Clear

fun lru_step :: "('k, 'v) lru_op \<Rightarrow> ('k, 'v) lru \<Rightarrow> ('k, 'v) lru option" where
  "lru_step (Insert k v) c = map_option snd (lru_insert k v c)"
| "lru_step (Remove k) c = Some (snd (lru_remove k c))"
| "lru_step (Touch k) c = map_option snd (lru_touch k c)"
| "lru_step Clear c = Some (lru_clear c)"

fun lru_steps :: "('k, 'v) lru_op list \<Rightarrow> ('k, 'v) lru \<Rightarrow> ('k, 'v) lru option" where
  "lru_steps [] c = Some c"
| "lru_steps (op # ops) c = Option.bind (lru_step op c) (lru_steps ops)"

fun mtf_step :: "nat \<Rightarrow> ('k, 'v) lru_op \<Rightarrow> ('k \<times> 'v) list \<Rightarrow> ('k \<times> 'v) list" where
  "mtf_step cap (Insert k v) xs = mtf_insert cap k v xs"
| "mtf_step cap (Remove k) xs = AList.delete k xs"
| "mtf_step cap (Touch k) xs = mtf_touch k xs"
| "mtf_step cap Clear xs = []"

lemma lru_remove_capacity [simp]: "lru_capacity (snd (lru_remove k c)) = lru_capacity c"
  by (simp add: lru_remove_def Let_def split: option.split)

lemma lru_touch_capacity: "lru_touch k c = Some (b, c') \<Longrightarrow> lru_capacity c' = lru_capacity c"
  by (auto simp: lru_touch_def split: option.splits)

lemma lru_step_correct:
  assumes "lru_ok c" and "lru_capacity c \<noteq> 0"
  shows "\<exists>c'. lru_step op c = Some c' \<and> lru_ok c' \<and> lru_capacity c' = lru_capacity c \<and>
    lru_abs c' = mtf_step (lru_capacity c) op (lru_abs c)"
proof (cases op)
  case (Insert k v)
  obtain n c' where "lru_insert k v c = Some (n, c')" "lru_ok c'" "lru_capacity c' = lru_capacity c"
    "lru_abs c' = mtf_insert (lru_capacity c) k v (lru_abs c)" using lru_insert_correct [OF assms] .
  with Insert show ?thesis by simp
next
  case (Remove k)
  then show ?thesis using lru_remove_correct [OF assms(1)] by simp
next
  case (Touch k)
  obtain c' where c': "lru_touch k c = Some (map_of (lru_abs c) k \<noteq> None, c')" "lru_ok c'"
    "lru_abs c' = mtf_touch k (lru_abs c)" using lru_touch_correct [OF assms(1)] .
  with Touch lru_touch_capacity [OF c'(1)] show ?thesis by simp
qed (simp_all add: lru_clear_def lru_abs_def lru_ok_def lru_ix.indexes_def)

lemma lru_steps_correct:
  "lru_ok c \<Longrightarrow> lru_capacity c \<noteq> 0 \<Longrightarrow> \<exists>c'. lru_steps ops c = Some c' \<and> lru_ok c' \<and>
     lru_capacity c' = lru_capacity c \<and> lru_abs c' = fold (mtf_step (lru_capacity c)) ops (lru_abs c)"
proof (induction ops arbitrary: c)
  case (Cons op ops)
  from lru_step_correct [OF Cons.prems, of op] obtain c1 where "lru_step op c = Some c1" "lru_ok c1"
    "lru_capacity c1 = lru_capacity c" "lru_abs c1 = mtf_step (lru_capacity c) op (lru_abs c)" by blast
  with Cons.IH [of c1] Cons.prems show ?case by simp
qed simp

text \<open>C23: Any run of inserts, removals, touches and clears on a new LRU cache of positive capacity is
  defined (no iterator dangles) and leaves the contents of the abstract move-to-front list: inserting a
  present key only moves it to the front, inserting into a full cache evicts the least recently used
  entry, and the size never exceeds the capacity.  Lookup answers from that list.\<close>

theorem lru_runs_refine:
  assumes "n \<noteq> 0"
  shows "\<exists>c. lru_steps ops (lru_new n) = Some c \<and> lru_abs c = fold (mtf_step n) ops [] \<and>
    lru_size c \<le> n \<and> lru_size c = length (lru_abs c) \<and>
    (\<forall>k. lru_contains k c \<longleftrightarrow> map_of (lru_abs c) k \<noteq> None) \<and>
    (\<forall>k v. lru_contains_value k v c \<longleftrightarrow> map_of (lru_abs c) k = Some v)"
proof -
  have "lru_abs (lru_new n :: ('a, 'b) lru) = []" "lru_capacity (lru_new n :: ('a, 'b) lru) = n"
    by (simp_all add: lru_abs_def lru_new_def)
  with lru_steps_correct [of "lru_new n" ops] assms obtain c where "lru_steps ops (lru_new n) = Some c"
    "lru_ok c" "lru_capacity c = n" "lru_abs c = fold (mtf_step n) ops []" by auto
  then show ?thesis
    using lru_bounded [of c] lru_contains_correct [of c] lru_contains_value_correct [of c] by auto
qed

theorem lru_runs_refine_witness:
  "\<exists>c. lru_steps [Insert 1 True, Insert 2 True, Touch 1, Insert (3 :: nat) False] (lru_new 2) = Some c \<and>
    lru_abs c = [(3, False), (1, True)]"
  using lru_runs_refine [of 2 "[Insert 1 True, Insert 2 True, Touch 1, Insert (3 :: nat) False]"]
  by (simp add: mtf_insert_def mtf_touch_def) blast

end
