(* ===== verification/TransactionQueue.thy ===== *)
theory TransactionQueue
  imports LruCache RLP_Lists "HOL-Library.Product_Lexorder"
begin

text \<open>
  \<open>libethereum/TransactionQueue\<close>: the pending transactions (\<open>m_current\<close>, a multiset ordered
  by a comparator that reads the queue itself, with an index by hash and one by sender and
  nonce), the future transactions, the set of known hashes, the LRU cache of dropped hashes and
  the bounded verification queue.  A multiset iterator is the identity of its node; the
  counters are 32 bits wide and wrap.  An operation returns \<open>None\<close> where the C++ is undefined
  (a singular or dangling iterator, \<open>begin()\<close> of an empty map, a failed \<open>assert\<close>), where
  its loop does not end, or where an exception leaves a moved-from entry behind.
\<close>

subsection \<open>Data\<close>

datatype tx_kind = NullTransaction | ContractCreation | MessageCall | Invalid

text \<open>What the queue reads of a \<open>Transaction\<close>: \<open>tx_sender\<close> is \<open>None\<close> where \<open>sender()\<close> throws.\<close>

record transaction =
  tx_sender :: "address option"
  tx_nonce :: u256
  tx_gasPrice :: u256
  tx_sha3 :: h256
  tx_size :: nat
  tx_zeroSig :: bool
  tx_type :: tx_kind

definition isInvalid :: "transaction \<Rightarrow> bool" where
  "isInvalid t = (tx_type t = Invalid)"

definition isTransaction :: "transaction \<Rightarrow> bool" where
  "isTransaction t = (tx_type t \<noteq> NullTransaction \<and> tx_type t \<noteq> Invalid)"

definition tx_from :: "transaction \<Rightarrow> address" where
  "tx_from t = (case tx_sender t of None \<Rightarrow> 0 | Some a \<Rightarrow> a)"

record verified_transaction =
  vt_tx :: transaction
  category :: int

definition VerifiedTransaction :: "transaction \<Rightarrow> verified_transaction" where
  "VerifiedTransaction t = \<lparr>vt_tx = t, category = 0\<rparr>"

text \<open>The move constructor leaves the category at its initialiser.\<close>

definition VerifiedTransaction_move :: "verified_transaction \<Rightarrow> verified_transaction" where
  "VerifiedTransaction_move vt = \<lparr>vt_tx = vt_tx vt, category = 0\<rparr>"

record unverified_transaction =
  ut_transaction :: bytes
  ut_nodeId :: "512 word"

datatype import_result = Success | AlreadyInChain | AlreadyKnown | Malformed
  | SameNonceAlreadyInQueue | ZeroSignature

datatype if_dropped = Ignore | Retry

abbreviation c_maxVerificationQueueSize :: nat where "c_maxVerificationQueueSize \<equiv> 8192"
abbreviation c_maxDroppedTransactionCount :: nat where "c_maxDroppedTransactionCount \<equiv> 1024"

record queue =
  m_known :: "h256 set"
  m_dropped :: "(h256, bool) lru"
  m_current :: "(nat \<times> verified_transaction) list"
  m_currentByHash :: "(h256 \<times> nat) list"
  m_currentByAddressAndNonce :: "(address, u256, nat) nmap"
  m_future :: "(address, u256, verified_transaction) nmap"
  m_onReady :: nat
  m_limit :: u32
  m_futureLimit :: u32
  m_futureSize :: u32
  m_currentSizeBytesLimit :: u32
  m_currentSizeBytes :: u32
  m_futureSizeBytesLimit :: u32
  m_futureSizeBytes :: u32
  m_unverified :: "unverified_transaction list"
  m_next :: nat

definition TransactionQueue_new :: "u32 \<Rightarrow> u32 \<Rightarrow> u32 \<Rightarrow> u32 \<Rightarrow> queue" where
  "TransactionQueue_new limit futureLimit currentLimitBytes futureLimitBytes =
     \<lparr>m_known = {}, m_dropped = lru_new c_maxDroppedTransactionCount, m_current = [],
      m_currentByHash = [], m_currentByAddressAndNonce = [], m_future = [], m_onReady = 0,
      m_limit = limit, m_futureLimit = futureLimit, m_futureSize = 0,
      m_currentSizeBytesLimit = currentLimitBytes, m_currentSizeBytes = 0,
      m_futureSizeBytesLimit = futureLimitBytes, m_futureSizeBytes = 0,
      m_unverified = [], m_next = 0\<rparr>"

subsection \<open>The comparator and the multiset\<close>

datatype queue_exn = SenderThrows | UB

definition height :: "queue \<Rightarrow> transaction \<Rightarrow> queue_exn + u256" where
  "height q t = (case tx_sender t of
     None \<Rightarrow> Inl SenderThrows
   | Some a \<Rightarrow> (case ninner (m_currentByAddressAndNonce q) a of
       [] \<Rightarrow> Inl UB
     | (n, _) # _ \<Rightarrow> Inr (tx_nonce t - n)))"

definition PriorityCompare :: "queue \<Rightarrow> verified_transaction \<Rightarrow> verified_transaction \<Rightarrow>
    queue_exn + bool" where
  "PriorityCompare q x y =
     (let cat1 = category x; cat2 = category y in
      if \<not> isTransaction (vt_tx x) \<and> isTransaction (vt_tx y) then Inr (cat1 \<ge> cat2)
      else if isTransaction (vt_tx x) \<and> \<not> isTransaction (vt_tx y) then Inr (cat1 > cat2)
      else if \<not> isTransaction (vt_tx x) \<and> \<not> isTransaction (vt_tx y) then Inr (cat1 < cat2)
      else bindE (height q (vt_tx x)) (\<lambda>height1.
           bindE (height q (vt_tx y)) (\<lambda>height2.
           Inr (cat1 > cat2 \<or> (cat1 = cat2 \<and>
             (height1 < height2 \<or> (height1 = height2 \<and>
               tx_gasPrice (vt_tx x) > tx_gasPrice (vt_tx y))))))))"

text \<open>
  The containers of boost and the standard library as the code calls them:
  \<open>emplace_pos\<close> is the position where the multiset places a new element (or the exception its
  comparator raised), \<open>lower_pos\<close> the position \<open>lower_bound\<close> finds for a key given which
  elements are below it, \<open>stale_next\<close> the node reached by incrementing an iterator whose node
  was extracted, and \<open>future_begin\<close> the key of \<open>begin()\<close> of an unordered map.
\<close>

record env =
  emplace_pos :: "(verified_transaction \<Rightarrow> verified_transaction \<Rightarrow> queue_exn + bool) \<Rightarrow>
    verified_transaction \<Rightarrow> verified_transaction list \<Rightarrow> queue_exn + nat"
  lower_pos :: "(verified_transaction \<Rightarrow> bool) \<Rightarrow> verified_transaction list \<Rightarrow> nat"
  stale_next :: "(nat \<times> verified_transaction) list \<Rightarrow> nat \<Rightarrow> nat option"
  future_begin :: "address list \<Rightarrow> address"

definition emplace :: "env \<Rightarrow> verified_transaction \<Rightarrow> queue \<Rightarrow> queue_exn + (nat \<times> queue)" where
  "emplace e vt q =
     bindE (emplace_pos e (PriorityCompare q) vt (map snd (m_current q))) (\<lambda>p.
       Inr (m_next q, q\<lparr>m_current := take p (m_current q) @ (m_next q, vt) # drop p (m_current q),
                        m_next := Suc (m_next q)\<rparr>))"

text \<open>\<open>m_currentByAddressAndNonce[a].insert({n, iterator()})\<close>: a singular iterator is an identity
  no node has.\<close>

definition slot_insert :: "address \<Rightarrow> u256 \<Rightarrow> queue \<Rightarrow> queue" where
  "slot_insert a n q =
     (if nlookup (m_currentByAddressAndNonce q) a n = None
      then q\<lparr>m_currentByAddressAndNonce := nput a n (m_next q) (m_currentByAddressAndNonce q),
             m_next := Suc (m_next q)\<rparr>
      else q)"

subsection \<open>Moving between the sets\<close>

text \<open>The loop of \<open>makeCurrent_WITH_LOCK\<close> over the entries from \<open>find(nonce)\<close> on; it returns the
  number of entries it moved.\<close>

fun makeCurrent_loop :: "env \<Rightarrow> address \<Rightarrow> u256 \<Rightarrow> (u256, verified_transaction) omap \<Rightarrow> queue \<Rightarrow>
    (nat \<times> queue) option" where
  "makeCurrent_loop e a nonce [] q = Some (0, q)"
| "makeCurrent_loop e a nonce ((k, vt) # ft) q =
     (if tx_nonce (vt_tx vt) = nonce
      then (case emplace e (VerifiedTransaction_move vt) (slot_insert a (tx_nonce (vt_tx vt)) q) of
              Inl _ \<Rightarrow> None
            | Inr (handle, q1) \<Rightarrow>
                let q2 = q1\<lparr>
                  m_currentByAddressAndNonce :=
                    nput a (tx_nonce (vt_tx vt)) handle (m_currentByAddressAndNonce q1),
                  m_currentByHash := AList.update (tx_sha3 (vt_tx vt)) handle (m_currentByHash q1),
                  m_futureSizeBytes := m_futureSizeBytes q1 - of_nat (tx_size (vt_tx vt)),
                  m_currentSizeBytes := m_currentSizeBytes q1 + of_nat (tx_size (vt_tx vt)),
                  m_futureSize := m_futureSize q1 - 1\<rparr>
                in map_option (\<lambda>(n, q3). (Suc n, q3)) (makeCurrent_loop e a (nonce + 1) ft q2))
      else Some (0, q))"

definition makeCurrent_WITH_LOCK :: "env \<Rightarrow> transaction \<Rightarrow> queue \<Rightarrow> queue option" where
  "makeCurrent_WITH_LOCK e t q =
     (let a = tx_from t; fs = ninner (m_future q) a; nonce = tx_nonce t + 1 in
      if map_of fs nonce = None then Some q
      else (case makeCurrent_loop e a nonce (omap_from nonce fs) q of
              None \<Rightarrow> None
            | Some (n, q1) \<Rightarrow>
                let q2 = q1\<lparr>m_future := nset a (omap_before nonce fs @ drop n (omap_from nonce fs))
                                            (m_future q1)\<rparr>
                in Some (if n > 0 then q2\<lparr>m_onReady := Suc (m_onReady q2)\<rparr> else q2)))"

text \<open>\<open>insertCurrent_WITH_LOCK\<close>; the flag is \<open>False\<close> when \<open>emplace\<close> threw, which leaves the
  singular iterator behind.\<close>

definition insertCurrent_WITH_LOCK :: "env \<Rightarrow> h256 \<Rightarrow> transaction \<Rightarrow> queue \<Rightarrow> (bool \<times> queue) option" where
  "insertCurrent_WITH_LOCK e h t q =
     (if map_of (m_currentByHash q) h \<noteq> None then Some (True, q)
      else let q1 = slot_insert (tx_from t) (tx_nonce t) q in
        (case emplace e (VerifiedTransaction t) q1 of
           Inl SenderThrows \<Rightarrow> Some (False, q1)
         | Inl UB \<Rightarrow> None
         | Inr (handle, q2) \<Rightarrow>
             let q3 = q2\<lparr>
               m_currentByAddressAndNonce :=
                 nput (tx_from t) (tx_nonce t) handle (m_currentByAddressAndNonce q2),
               m_currentByHash := AList.update h handle (m_currentByHash q2),
               m_currentSizeBytes := m_currentSizeBytes q2 + of_nat (tx_size t)\<rparr>
             in map_option (\<lambda>q4. (True, q4\<lparr>m_known := insert h (m_known q4)\<rparr>))
                  (makeCurrent_WITH_LOCK e t q3)))"

definition remove_WITH_LOCK :: "h256 \<Rightarrow> queue \<Rightarrow> (bool \<times> queue) option" where
  "remove_WITH_LOCK h q =
     (case map_of (m_currentByHash q) h of
        None \<Rightarrow> Some (False, q)
      | Some i \<Rightarrow>
          (case map_of (m_current q) i of
             None \<Rightarrow> None
           | Some vt \<Rightarrow>
               let a = tx_from (vt_tx vt) in
               if map_of (m_currentByAddressAndNonce q) a = None then None
               else Some (True, q\<lparr>
                 m_currentByAddressAndNonce := nerase a (tx_nonce (vt_tx vt)) (m_currentByAddressAndNonce q),
                 m_currentSizeBytes := m_currentSizeBytes q - of_nat (tx_size (vt_tx vt)),
                 m_current := AList.delete i (m_current q),
                 m_currentByHash := AList.delete h (m_currentByHash q),
                 m_known := m_known q - {h}\<rparr>)))"

text \<open>\<open>while (m_current.size() > m_limit || ...) remove(m_current.rbegin())\<close>\<close>

partial_function (option) trimCurrent :: "queue \<Rightarrow> queue option" where
  "trimCurrent q =
     (if length (m_current q) > unat (m_limit q) \<or> m_currentSizeBytes q > m_currentSizeBytesLimit q
      then (if m_current q = [] then None
            else Option.bind (remove_WITH_LOCK (tx_sha3 (vt_tx (snd (last (m_current q))))) q)
                   (\<lambda>(_, q1). trimCurrent q1))
      else Some q)"

text \<open>The moving loop of \<open>setFuture_WITH_LOCK\<close> over the entries from \<open>lower_bound\<close> on.\<close>

fun setFuture_loop :: "address \<Rightarrow> (u256, nat) omap \<Rightarrow> queue \<Rightarrow> queue option" where
  "setFuture_loop a [] q = Some q"
| "setFuture_loop a ((n, i) # m) q =
     (case map_of (m_current q) i of
        None \<Rightarrow> None
      | Some vt \<Rightarrow>
          setFuture_loop a m (q\<lparr>
            m_currentByHash := AList.delete (tx_sha3 (vt_tx vt)) (m_currentByHash q),
            m_currentSizeBytes := m_currentSizeBytes q - of_nat (tx_size (vt_tx vt)),
            m_futureSizeBytes := m_futureSizeBytes q + of_nat (tx_size (vt_tx vt)),
            m_future := nset a (omap_emplace (tx_nonce (vt_tx vt)) (VerifiedTransaction_move vt)
                                  (ninner (m_future q) a)) (m_future q),
            m_current := AList.delete i (m_current q),
            m_futureSize := m_futureSize q + 1\<rparr>))"

partial_function (option) trimFuture :: "env \<Rightarrow> queue \<Rightarrow> queue option" where
  "trimFuture e q =
     (if m_futureSize q > m_futureLimit q \<or> m_futureSizeBytes q > m_futureSizeBytesLimit q
      then (let a = future_begin e (map fst (m_future q)); m = ninner (m_future q) a in
            if m = [] then None
            else let t = vt_tx (snd (last m)) in
              trimFuture e (q\<lparr>
                m_futureSize := m_futureSize q - 1,
                m_futureSizeBytes := m_futureSizeBytes q - of_nat (tx_size t),
                m_known := m_known q - {tx_sha3 t},
                m_future := nset a (butlast m) (m_future q)\<rparr>))
      else Some q)"

definition setFuture_WITH_LOCK :: "env \<Rightarrow> h256 \<Rightarrow> queue \<Rightarrow> queue option" where
  "setFuture_WITH_LOCK e h q =
     (case map_of (m_currentByHash q) h of
        None \<Rightarrow> Some q
      | Some i \<Rightarrow>
          Option.bind (map_of (m_current q) i) (\<lambda>st.
            let a = tx_from (vt_tx st);
                queue = ninner (m_currentByAddressAndNonce q) a;
                nonce = tx_nonce (vt_tx st) in
            Option.bind (setFuture_loop a (omap_from nonce queue) q) (\<lambda>q1.
              trimFuture e (q1\<lparr>m_currentByAddressAndNonce :=
                nset a (omap_before nonce queue) (m_currentByAddressAndNonce q1)\<rparr>))))"

subsection \<open>The operations\<close>

definition check_WITH_LOCK :: "h256 \<Rightarrow> if_dropped \<Rightarrow> queue \<Rightarrow> (import_result \<times> queue) option" where
  "check_WITH_LOCK h ik q =
     (if h \<in> m_known q then Some (AlreadyKnown, q)
      else map_option (\<lambda>(touched, d).
             (if touched \<and> ik = Ignore then AlreadyInChain else Success, q\<lparr>m_dropped := d\<rparr>))
           (lru_touch h (m_dropped q)))"

definition manageImport_WITH_LOCK :: "env \<Rightarrow> h256 \<Rightarrow> transaction \<Rightarrow> queue \<Rightarrow>
    (import_result \<times> queue) option" where
  "manageImport_WITH_LOCK e h t q =
     (if h \<noteq> tx_sha3 t then None
      else if nlookup (m_currentByAddressAndNonce q) (tx_from t) (tx_nonce t) \<noteq> None
      then Some (SameNonceAlreadyInQueue, q)
      else if nlookup (m_future q) (tx_from t) (tx_nonce t) \<noteq> None
      then Some (SameNonceAlreadyInQueue, q)
      else Option.bind (insertCurrent_WITH_LOCK e h t q) (\<lambda>(ok, q1).
        if ok
        then map_option (\<lambda>q2. (Success, q2\<lparr>m_onReady := Suc (m_onReady q2)\<rparr>)) (trimCurrent q1)
        else Some (Malformed, q1)))"

text \<open>The removal of a future transaction with the same sender and nonce.\<close>

definition import_unfuture :: "transaction \<Rightarrow> queue \<Rightarrow> queue" where
  "import_unfuture t q =
     (case nlookup (m_future q) (tx_from t) (tx_nonce t) of
        None \<Rightarrow> q
      | Some vt \<Rightarrow> q\<lparr>
          m_futureSize := m_futureSize q - 1,
          m_futureSizeBytes := m_futureSizeBytes q - of_nat (tx_size (vt_tx vt)),
          m_known := m_known q - {tx_sha3 (vt_tx vt)},
          m_future := nerase (tx_from t) (tx_nonce (vt_tx vt)) (m_future q)\<rparr>)"

definition import_tx :: "env \<Rightarrow> transaction \<Rightarrow> if_dropped \<Rightarrow> bool \<Rightarrow> queue \<Rightarrow> (import_result \<times> queue) option" where
  "import_tx e t ik isFuture q =
     (if tx_zeroSig t then Some (ZeroSignature, q)
      else if isInvalid t then None
      else Option.bind (check_WITH_LOCK (tx_sha3 t) ik (import_unfuture t q)) (\<lambda>(ir, q1).
        if ir \<noteq> Success then Some (ir, q1)
        else Option.bind (manageImport_WITH_LOCK e (tx_sha3 t) t q1) (\<lambda>(ret, q2).
          if isFuture then map_option (Pair ret) (setFuture_WITH_LOCK e (tx_sha3 t) q2)
          else Some (ret, q2))))"

text \<open>Import of an encoded transaction; the decoder's failure is the constructor's exception.\<close>

definition import_bytes :: "env \<Rightarrow> (bytes \<Rightarrow> transaction option) \<Rightarrow> bytes \<Rightarrow> if_dropped \<Rightarrow> bool \<Rightarrow> queue \<Rightarrow>
    (import_result \<times> queue) option" where
  "import_bytes e ctor d ik isFuture q =
     (case ctor d of None \<Rightarrow> Some (Malformed, q) | Some t \<Rightarrow> import_tx e t ik isFuture q)"

definition drop_tx :: "h256 \<Rightarrow> queue \<Rightarrow> queue option" where
  "drop_tx h q =
     (if h \<notin> m_known q then Some q
      else Option.bind (lru_insert h True (m_dropped q)) (\<lambda>(_, d).
        map_option snd (remove_WITH_LOCK h (q\<lparr>m_dropped := d\<rparr>))))"

definition dropGood :: "env \<Rightarrow> transaction \<Rightarrow> queue \<Rightarrow> queue option" where
  "dropGood e t q =
     Option.bind (if isInvalid t then Some q else makeCurrent_WITH_LOCK e t q) (\<lambda>q1.
       if tx_sha3 t \<notin> m_known q1 then Some q1
       else map_option snd (remove_WITH_LOCK (tx_sha3 t) q1))"

definition clear :: "queue \<Rightarrow> queue" where
  "clear q = q\<lparr>m_known := {}, m_current := [], m_currentSizeBytes := 0,
     m_dropped := lru_clear (m_dropped q), m_currentByAddressAndNonce := [],
     m_currentByHash := [], m_future := [], m_futureSize := 0, m_futureSizeBytes := 0\<rparr>"

definition maxCurrentNonce :: "address \<Rightarrow> queue \<Rightarrow> u256" where
  "maxCurrentNonce a q =
     (let cs = ninner (m_currentByAddressAndNonce q) a in
      if cs \<noteq> [] then fst (last cs) + 1 else 0)"

definition maxNonce :: "address \<Rightarrow> queue \<Rightarrow> u256" where
  "maxNonce a q =
     (let ret = (let cs = ninner (m_currentByAddressAndNonce q) a in
                 if cs \<noteq> [] then fst (last cs) + 1 else 0);
          fs = ninner (m_future q) a in
      if fs \<noteq> [] then max ret (fst (last fs) + 1) else ret)"

definition waiting :: "address \<Rightarrow> queue \<Rightarrow> u32" where
  "waiting a q = of_nat (length (ninner (m_currentByAddressAndNonce q) a)) +
     of_nat (length (ninner (m_future q) a))"

definition getCategory :: "h256 \<Rightarrow> queue \<Rightarrow> int option" where
  "getCategory h q = Option.bind (map_of (m_currentByHash q) h) (\<lambda>i.
     map_option category (map_of (m_current q) i))"

subsection \<open>Reading the queue\<close>

text \<open>The loop over \<open>m_current\<close> that stops once \<open>limit\<close> transactions are collected.\<close>

fun topTransactions_loop :: "nat \<Rightarrow> (transaction \<Rightarrow> bool) \<Rightarrow> (nat \<times> verified_transaction) list \<Rightarrow>
    transaction list" where
  "topTransactions_loop limit pred [] = []"
| "topTransactions_loop limit pred (x # xs) =
     (if limit = 0 then []
      else if pred (vt_tx (snd x)) then vt_tx (snd x) # topTransactions_loop (limit - 1) pred xs
      else topTransactions_loop limit pred xs)"

definition topTransactions :: "u32 \<Rightarrow> (transaction \<Rightarrow> bool) \<Rightarrow> queue \<Rightarrow> transaction list" where
  "topTransactions limit pred q = topTransactions_loop (unat limit) pred (m_current q)"

definition topTransactions_avoid :: "u32 \<Rightarrow> h256 set \<Rightarrow> queue \<Rightarrow> transaction list" where
  "topTransactions_avoid limit avoid q = topTransactions limit (\<lambda>t. tx_sha3 t \<notin> avoid) q"

text \<open>Iterator increment: the next node in order, \<open>None\<close> for \<open>end()\<close>.\<close>

fun succ_of :: "(nat \<times> 'a) list \<Rightarrow> nat \<Rightarrow> nat option" where
  "succ_of [] i = None"
| "succ_of (x # xs) i =
     (if fst x = i then (case xs of [] \<Rightarrow> None | y # _ \<Rightarrow> Some (fst y)) else succ_of xs i)"

text \<open>The collecting loop of the category variant: extraction when a category is to be set, and
  then an increment of the extracted iterator.  The result is the collected transactions and
  the extracted nodes.\<close>

fun topCategory_loop :: "env \<Rightarrow> bool \<Rightarrow> nat \<Rightarrow> nat option \<Rightarrow> queue \<Rightarrow>
    (transaction list \<times> (nat \<times> verified_transaction) list \<times> queue) option" where
  "topCategory_loop e extract 0 p q = Some ([], [], q)"
| "topCategory_loop e extract (Suc limit) None q = Some ([], [], q)"
| "topCategory_loop e extract (Suc limit) (Some i) q =
     (case map_of (m_current q) i of
        None \<Rightarrow> None
      | Some vt \<Rightarrow>
          if extract
          then map_option (\<lambda>(ts, found, q1). (vt_tx vt # ts, (i, vt) # found, q1))
                 (topCategory_loop e extract limit (stale_next e (m_current q) i)
                    (q\<lparr>m_current := AList.delete i (m_current q)\<rparr>))
          else map_option (\<lambda>(ts, found, q1). (vt_tx vt # ts, found, q1))
                 (topCategory_loop e extract limit (succ_of (m_current q) i) q))"

text \<open>Node reinsertion keeps the node, hence its identity.\<close>

fun reinsert :: "env \<Rightarrow> int \<Rightarrow> (nat \<times> verified_transaction) list \<Rightarrow> queue \<Rightarrow> queue option" where
  "reinsert e cat [] q = Some q"
| "reinsert e cat ((i, vt) # found) q =
     (let vt' = vt\<lparr>category := cat\<rparr> in
      case emplace_pos e (PriorityCompare q) vt' (map snd (m_current q)) of
        Inl _ \<Rightarrow> None
      | Inr p \<Rightarrow> reinsert e cat found
          (q\<lparr>m_current := take p (m_current q) @ (i, vt') # drop p (m_current q)\<rparr>))"

text \<open>\<open>std::stable_sort\<close> with the comparator: null transactions first, then by height and
  falling gas price.  A comparison that throws propagates.\<close>

definition sort_height :: "queue \<Rightarrow> transaction \<Rightarrow> u256" where
  "sort_height q t = (case height q t of Inl _ \<Rightarrow> 0 | Inr h \<Rightarrow> h)"

definition priority_key :: "queue \<Rightarrow> transaction \<Rightarrow> nat \<times> nat \<times> int" where
  "priority_key q t = (if isTransaction t
     then (1, unat (sort_height q t), - int (unat (tx_gasPrice t))) else (0, 0, 0))"

definition priority_sort :: "queue \<Rightarrow> transaction list \<Rightarrow> transaction list option" where
  "priority_sort q ts =
     (if length ts \<ge> 2 \<and> (\<exists>t\<in>set ts. isTransaction t \<and> (\<exists>x. height q t = Inl x)) then None
      else Some (sort_key (priority_key q) ts))"

definition topTransactions_category :: "env \<Rightarrow> u32 \<Rightarrow> int \<Rightarrow> int \<Rightarrow> queue \<Rightarrow>
    (transaction list \<times> queue) option" where
  "topTransactions_category e limit maxCategory setCategory q =
     (let below = (\<lambda>vt. if isTransaction (vt_tx vt) then category vt > maxCategory
                        else category vt < maxCategory);
          p = lower_pos e below (map snd (m_current q));
          my_begin = (if p < length (m_current q) then Some (fst (m_current q ! p)) else None) in
      Option.bind (topCategory_loop e (setCategory \<ge> 0) (unat limit) my_begin q) (\<lambda>(ts, found, q1).
        Option.bind (if setCategory \<ge> 0 then reinsert e setCategory found q1 else Some q1) (\<lambda>q2.
          map_option (\<lambda>sorted. (sorted, q2)) (priority_sort q2 ts))))"

definition knownTransactions :: "queue \<Rightarrow> h256 set" where
  "knownTransactions q = m_known q"

definition debugGetFutureTransactions :: "queue \<Rightarrow> transaction list" where
  "debugGetFutureTransactions q =
     concat (map (\<lambda>(a, m). map (\<lambda>(n, vt). vt_tx vt) m) (m_future q))"

record Limits =
  currentLimit :: nat
  futureLimit :: nat
  currentLimitBytes :: nat
  futureLimitBytes :: nat

definition limits :: "queue \<Rightarrow> Limits" where
  "limits q = \<lparr>currentLimit = unat (m_limit q), futureLimit = unat (m_futureLimit q),
     currentLimitBytes = unat (m_currentSizeBytes q), futureLimitBytes = unat (m_futureSizeBytes q)\<rparr>"

record Status =
  st_current :: nat
  st_future :: nat
  st_unverified :: nat
  st_dropped :: nat
  st_currentBytes :: nat
  st_futureBytes :: nat

definition status :: "queue \<Rightarrow> Status" where
  "status q = \<lparr>st_current = length (m_currentByHash q), st_future = unat (m_futureSize q),
     st_unverified = length (m_unverified q), st_dropped = lru_size (m_dropped q),
     st_currentBytes = unat (m_currentSizeBytes q), st_futureBytes = unat (m_futureSizeBytes q)\<rparr>"

subsection \<open>The verification queue\<close>

text \<open>\<open>enqueue\<close> over the items of an RLP list; an RLP error leaves what was queued before it.\<close>

fun enqueue_loop :: "bytes \<Rightarrow> 512 word \<Rightarrow> nat \<Rightarrow> nat \<Rightarrow> rlp_cache \<Rightarrow> queue \<Rightarrow>
    (rlp_error + unit) \<times> queue" where
  "enqueue_loop d nodeId i 0 c q = (Inr (), q)"
| "enqueue_loop d nodeId i (Suc n) c q =
     (if length (m_unverified q) \<ge> c_maxVerificationQueueSize then (Inr (), q)
      else (case subscript d i c of
              Inl err \<Rightarrow> (Inl err, q)
            | Inr (r, c') \<Rightarrow>
                enqueue_loop d nodeId (Suc i) n c'
                  (q\<lparr>m_unverified := m_unverified q @ [\<lparr>ut_transaction = r, ut_nodeId = nodeId\<rparr>]\<rparr>)))"

definition enqueue :: "bytes \<Rightarrow> 512 word \<Rightarrow> queue \<Rightarrow> (rlp_error + unit) \<times> queue" where
  "enqueue d nodeId q =
     (case itemCount d of Inl err \<Rightarrow> (Inl err, q)
      | Inr n \<Rightarrow> enqueue_loop d nodeId 0 (unat (of_nat n :: u32)) initCache q)"

text \<open>One round of \<open>verifierBody\<close> after its wait; the result is what \<open>m_onImport\<close> is called with.\<close>

definition verifier_step :: "env \<Rightarrow> (bytes \<Rightarrow> transaction option) \<Rightarrow> queue \<Rightarrow>
    ((import_result \<times> h256 \<times> 512 word) option \<times> queue) option" where
  "verifier_step e ctor q =
     (case m_unverified q of
        [] \<Rightarrow> Some (None, q)
      | work # rest \<Rightarrow>
          let q1 = q\<lparr>m_unverified := rest\<rparr> in
          (case ctor (ut_transaction work) of
             None \<Rightarrow> Some (None, q1)
           | Some t \<Rightarrow> map_option (\<lambda>(ir, q2). (Some (ir, tx_sha3 t, ut_nodeId work), q2))
                        (import_tx e t Ignore False q1)))"

end
