(* ===== verification/TransactionQueue_Inv.thy ===== *)
theory TransactionQueue_Inv
  imports TransactionQueue
begin

text \<open>
  The invariant of the transaction queue and its preservation by every operation.  Both indexes
  of \<open>m_current\<close> are interpretations of \<^term>\<open>store_index\<close>; the operations are composed of four
  moves (a node enters or leaves the current set, an entry enters or leaves the future map), and
  each move keeps the invariant.
\<close>

subsection \<open>The invariant\<close>

abbreviation vt_hash :: "verified_transaction \<Rightarrow> h256" where
  "vt_hash vt \<equiv> tx_sha3 (vt_tx vt)"

abbreviation vt_size :: "verified_transaction \<Rightarrow> nat" where
  "vt_size vt \<equiv> tx_size (vt_tx vt)"

definition vt_slot :: "verified_transaction \<Rightarrow> address \<times> u256" where
  "vt_slot vt = (tx_from (vt_tx vt), tx_nonce (vt_tx vt))"

interpretation hix: store_index map_of AList.update AList.delete
    "\<lambda>m. distinct (map fst m)" vt_hash
  by unfold_locales (simp_all add: update_conv' delete_conv' distinct_update distinct_delete)

interpretation aix: store_index "\<lambda>m (a, n). nlookup m a n" "\<lambda>(a, n) i m. nput a n i m"
    "\<lambda>(a, n) m. nerase a n m" nmap_ok vt_slot
  by unfold_locales (auto simp: fun_eq_iff split: prod.splits)

text \<open>A transaction the comparator accepts.\<close>

definition comparable :: "transaction \<Rightarrow> bool" where
  "comparable t \<longleftrightarrow> tx_sender t \<noteq> None \<and> isTransaction t"

definition current_ok :: "queue \<Rightarrow> bool" where
  "current_ok q \<longleftrightarrow> distinct (map fst (m_current q)) \<and> (\<forall>x\<in>set (m_current q). fst x < m_next q) \<and>
     hix.indexes (m_currentByHash q) (map_of (m_current q)) \<and>
     aix.indexes (m_currentByAddressAndNonce q) (map_of (m_current q)) \<and>
     (\<forall>x\<in>set (m_current q). comparable (vt_tx (snd x))) \<and>
     m_currentSizeBytes q = of_nat (osum vt_size (m_current q))"

definition future_ok :: "queue \<Rightarrow> bool" where
  "future_ok q \<longleftrightarrow> nmap_ok (m_future q) \<and>
     (\<forall>a n vt. nlookup (m_future q) a n = Some vt \<longrightarrow> vt_slot vt = (a, n) \<and> comparable (vt_tx vt)) \<and>
     m_futureSize q = of_nat (nsum (\<lambda>_. 1) (m_future q)) \<and>
     m_futureSizeBytes q = of_nat (nsum vt_size (m_future q))"

definition disjoint_ok :: "queue \<Rightarrow> bool" where
  "disjoint_ok q \<longleftrightarrow>
     (\<forall>a n vt. nlookup (m_future q) a n = Some vt \<longrightarrow>
        nlookup (m_currentByAddressAndNonce q) a n = None \<and> map_of (m_currentByHash q) (vt_hash vt) = None) \<and>
     (\<forall>a n vt b k wt. nlookup (m_future q) a n = Some vt \<longrightarrow> nlookup (m_future q) b k = Some wt \<longrightarrow>
        vt_hash vt = vt_hash wt \<longrightarrow> (a, n) = (b, k))"

definition queue_core :: "queue \<Rightarrow> bool" where
  "queue_core q \<longleftrightarrow> current_ok q \<and> future_ok q \<and> disjoint_ok q"

definition future_hashes :: "queue \<Rightarrow> h256 set" where
  "future_hashes q = {h. \<exists>a n vt. nlookup (m_future q) a n = Some vt \<and> h = vt_hash vt}"

definition queue_hashes :: "queue \<Rightarrow> h256 set" where
  "queue_hashes q = dom (map_of (m_currentByHash q)) \<union> future_hashes q"

definition dropped_ok :: "queue \<Rightarrow> bool" where
  "dropped_ok q \<longleftrightarrow> lru_ok (m_dropped q) \<and> lru_capacity (m_dropped q) = c_maxDroppedTransactionCount"

definition queue_wf :: "queue \<Rightarrow> bool" where
  "queue_wf q \<longleftrightarrow> queue_core q \<and> m_known q = queue_hashes q \<and> dropped_ok q"

text \<open>What the queue relies on in the containers: the multiset's insertion raises only what its
  comparator raises, \<open>begin()\<close> of a non-empty map is one of its keys.\<close>

definition emplace_total :: "env \<Rightarrow> bool" where
  "emplace_total e \<longleftrightarrow> (\<forall>cmp x l.
     (\<forall>y\<in>set l. (\<exists>b. cmp x y = Inr b) \<and> (\<exists>b. cmp y x = Inr b)) \<longrightarrow> (\<exists>p. emplace_pos e cmp x l = Inr p))"

definition begin_member :: "env \<Rightarrow> bool" where
  "begin_member e \<longleftrightarrow> (\<forall>ks. ks \<noteq> [] \<longrightarrow> future_begin e ks \<in> set ks)"

lemma current_okD:
  assumes "current_ok q"
  shows "distinct (map fst (m_current q))"
    and "hix.indexes (m_currentByHash q) (map_of (m_current q))"
    and "aix.indexes (m_currentByAddressAndNonce q) (map_of (m_current q))"
    and "map_of (m_current q) (m_next q) = None"
    and "nmap_ok (m_currentByAddressAndNonce q)"
  using assms aix.indexes_ok by (auto simp: current_ok_def map_of_eq_None_iff)

subsection \<open>The four moves\<close>

definition push_current :: "nat \<Rightarrow> verified_transaction \<Rightarrow> queue \<Rightarrow> queue" where
  "push_current p vt q = q\<lparr>
     m_current := take p (m_current q) @ (m_next q, vt) # drop p (m_current q),
     m_next := Suc (m_next q),
     m_currentByAddressAndNonce :=
       nput (tx_from (vt_tx vt)) (tx_nonce (vt_tx vt)) (m_next q) (m_currentByAddressAndNonce q),
     m_currentByHash := AList.update (vt_hash vt) (m_next q) (m_currentByHash q),
     m_currentSizeBytes := m_currentSizeBytes q + of_nat (vt_size vt)\<rparr>"

definition pull_current :: "nat \<Rightarrow> verified_transaction \<Rightarrow> queue \<Rightarrow> queue" where
  "pull_current i vt q = q\<lparr>
     m_currentByAddressAndNonce :=
       nerase (tx_from (vt_tx vt)) (tx_nonce (vt_tx vt)) (m_currentByAddressAndNonce q),
     m_currentSizeBytes := m_currentSizeBytes q - of_nat (vt_size vt),
     m_current := AList.delete i (m_current q),
     m_currentByHash := AList.delete (vt_hash vt) (m_currentByHash q)\<rparr>"

definition push_future :: "verified_transaction \<Rightarrow> queue \<Rightarrow> queue" where
  "push_future vt q = q\<lparr>
     m_futureSizeBytes := m_futureSizeBytes q + of_nat (vt_size vt),
     m_future := nput (tx_from (vt_tx vt)) (tx_nonce (vt_tx vt)) vt (m_future q),
     m_futureSize := m_futureSize q + 1\<rparr>"

definition pull_future :: "verified_transaction \<Rightarrow> queue \<Rightarrow> queue" where
  "pull_future vt q = q\<lparr>
     m_futureSizeBytes := m_futureSizeBytes q - of_nat (vt_size vt),
     m_future := nerase (tx_from (vt_tx vt)) (tx_nonce (vt_tx vt)) (m_future q),
     m_futureSize := m_futureSize q - 1\<rparr>"

lemma map_of_insert_mid:
  "map_of (xs @ ys) i = None \<Longrightarrow> map_of (xs @ (i, v) # ys) = (map_of (xs @ ys))(i \<mapsto> v)"
  by (induction xs) (auto split: if_splits)

lemma distinct_insert_mid:
  "distinct (map fst (xs @ ys)) \<Longrightarrow> map_of (xs @ ys) i = None \<Longrightarrow>
     distinct (map fst (xs @ (i, v) # ys))"
  by (induction xs) (auto simp: map_of_eq_None_iff split: if_splits)

lemmas map_of_insert_at = map_of_insert_mid [of "take p l" "drop p l" for p l,
  simplified append_take_drop_id]
lemmas distinct_insert_at = distinct_insert_mid [of "take p l" "drop p l" for p l,
  simplified append_take_drop_id]

lemma osum_insert_at: "osum f (take p l @ (i, v) # drop p l) = osum f l + f v"
  by (metis (no_types, lifting) add.assoc add.commute append_take_drop_id osum_Cons osum_append snd_conv)

lemma set_insert_at: "set (take p l @ x # drop p l) = insert x (set l)"
  by (metis Un_insert_right append_take_drop_id list.simps(15) set_append)

lemma current_ok_push:
  assumes ok: "current_ok q" and "comparable (vt_tx vt)"
    and "map_of (m_currentByHash q) (vt_hash vt) = None"
    and "nlookup (m_currentByAddressAndNonce q) (tx_from (vt_tx vt)) (tx_nonce (vt_tx vt)) = None"
  shows "current_ok (push_current p vt q)"
proof -
  note D = current_okD [OF ok]
  define c where "c = take p (m_current q) @ (m_next q, vt) # drop p (m_current q)"
  have m: "map_of c = (map_of (m_current q))(m_next q \<mapsto> vt)"
    unfolding c_def by (rule map_of_insert_at [OF D(4)])
  have "hix.indexes (AList.update (vt_hash vt) (m_next q) (m_currentByHash q)) (map_of c)"
    using hix.indexes_put [OF D(2) D(4)] assms(3) by (simp only: m)
  moreover have "aix.indexes (nput (tx_from (vt_tx vt)) (tx_nonce (vt_tx vt)) (m_next q)
      (m_currentByAddressAndNonce q)) (map_of c)"
    using aix.indexes_put [OF D(3) D(4), of vt] assms(4)
    by (simp only: m) (simp add: vt_slot_def)
  moreover have "\<forall>x\<in>set c. fst x < Suc (m_next q) \<and> comparable (vt_tx (snd x))"
    using ok assms(2) by (simp only: c_def set_insert_at) (auto simp: current_ok_def less_Suc_eq)
  moreover have "distinct (map fst c)" unfolding c_def by (rule distinct_insert_at [OF D(1,4)])
  moreover have "osum vt_size c = osum vt_size (m_current q) + vt_size vt"
    unfolding c_def by (rule osum_insert_at)
  ultimately show ?thesis
    using ok by (simp add: current_ok_def push_current_def c_def [symmetric])
qed

lemma current_ok_pull:
  assumes ok: "current_ok q" and i: "map_of (m_current q) i = Some vt"
  shows "current_ok (pull_current i vt q)"
proof -
  note D = current_okD [OF ok]
  have "hix.indexes (AList.delete (vt_hash vt) (m_currentByHash q)) (map_of (AList.delete i (m_current q)))"
    using hix.indexes_del [OF D(2) i] by (simp add: delete_conv')
  moreover have "aix.indexes (nerase (tx_from (vt_tx vt)) (tx_nonce (vt_tx vt))
      (m_currentByAddressAndNonce q)) (map_of (AList.delete i (m_current q)))"
    using aix.indexes_del [OF D(3) i] by (simp add: delete_conv' vt_slot_def)
  moreover have "osum vt_size (m_current q) = osum vt_size (AList.delete i (m_current q)) + vt_size vt"
    using osum_delete [OF D(1) i, of vt_size] by simp
  ultimately show ?thesis
    using ok by (auto simp: current_ok_def pull_current_def AList.delete_eq distinct_map_filter)
qed

lemma future_ok_push:
  assumes "future_ok q" and "comparable (vt_tx vt)"
    and "nlookup (m_future q) (tx_from (vt_tx vt)) (tx_nonce (vt_tx vt)) = None"
  shows "future_ok (push_future vt q)"
  using assms by (auto simp: future_ok_def push_future_def nsum_nput vt_slot_def)

lemma future_ok_pull:
  assumes "future_ok q" and v: "nlookup (m_future q) a n = Some vt"
  shows "future_ok (pull_future vt q)"
proof -
  have ok: "nmap_ok (m_future q)" and s: "tx_from (vt_tx vt) = a" "tx_nonce (vt_tx vt) = n"
    using assms by (auto simp: future_ok_def vt_slot_def)
  have "nsum f (m_future q) = nsum f (nerase a n (m_future q)) + f vt" for f
    using nsum_nerase [OF ok v, of f] by simp
  from this [of "\<lambda>_. 1"] this [of vt_size] show ?thesis
    using assms(1) by (auto simp: future_ok_def pull_future_def s)
qed

lemma queue_coreD:
  assumes "queue_core q"
  shows "nmap_ok (m_currentByAddressAndNonce q)" and "nmap_ok (m_future q)"
    and "distinct (map fst (m_currentByHash q))"
proof -
  have c: "current_ok q" and f: "future_ok q" using assms by (simp_all add: queue_core_def)
  show "nmap_ok (m_currentByAddressAndNonce q)" by (rule current_okD(5) [OF c])
  show "nmap_ok (m_future q)" using f by (simp add: future_ok_def)
  show "distinct (map fst (m_currentByHash q))" by (rule hix.indexes_ok [OF current_okD(2) [OF c]])
qed

lemma future_hashesI: "nlookup (m_future q) a n = Some vt \<Longrightarrow> vt_hash vt \<in> future_hashes q"
  by (auto simp: future_hashes_def)

lemma disjoint_okD:
  assumes "disjoint_ok q" and "nlookup (m_future q) a n = Some vt"
  shows "nlookup (m_currentByAddressAndNonce q) a n = None"
    and "map_of (m_currentByHash q) (vt_hash vt) = None"
    and "nlookup (m_future q) b k = Some wt \<Longrightarrow> vt_hash wt = vt_hash vt \<Longrightarrow> b = a \<and> k = n"
  using assms unfolding disjoint_ok_def by (blast, blast, metis prod.inject)

lemma disjoint_okI:
  assumes "\<And>a n vt. nlookup (m_future q) a n = Some vt \<Longrightarrow> nlookup (m_currentByAddressAndNonce q) a n = None"
    and "\<And>a n vt. nlookup (m_future q) a n = Some vt \<Longrightarrow> map_of (m_currentByHash q) (vt_hash vt) = None"
    and "\<And>a n vt b k wt. nlookup (m_future q) a n = Some vt \<Longrightarrow> nlookup (m_future q) b k = Some wt \<Longrightarrow>
      vt_hash vt = vt_hash wt \<Longrightarrow> (a, n) = (b, k)"
  shows "disjoint_ok q"
  unfolding disjoint_ok_def using assms by blast

lemma current_node:
  assumes ok: "current_ok q" and i: "map_of (m_current q) i = Some vt"
  shows "map_of (m_currentByHash q) (vt_hash vt) = Some i"
    and "nlookup (m_currentByAddressAndNonce q) (tx_from (vt_tx vt)) (tx_nonce (vt_tx vt)) = Some i"
    and "comparable (vt_tx vt)"
proof -
  show "map_of (m_currentByHash q) (vt_hash vt) = Some i"
    by (rule hix.indexesD [OF current_okD(2) [OF ok] i])
  show "nlookup (m_currentByAddressAndNonce q) (tx_from (vt_tx vt)) (tx_nonce (vt_tx vt)) = Some i"
    using aix.indexesD [OF current_okD(3) [OF ok] i] by (simp add: vt_slot_def)
  show "comparable (vt_tx vt)" using ok i by (auto simp: current_ok_def dest!: map_of_SomeD)
qed

lemma core_current_node:
  assumes "queue_core q" and i: "map_of (m_current q) i = Some vt"
  shows "map_of (m_currentByHash q) (vt_hash vt) = Some i"
    and "nlookup (m_currentByAddressAndNonce q) (tx_from (vt_tx vt)) (tx_nonce (vt_tx vt)) = Some i"
    and "nlookup (m_future q) (tx_from (vt_tx vt)) (tx_nonce (vt_tx vt)) = None"
    and "vt_hash vt \<notin> future_hashes q" and "comparable (vt_tx vt)"
proof -
  have ok: "current_ok q" and d: "disjoint_ok q" using assms(1) by (auto simp: queue_core_def)
  note n = current_node [OF ok i]
  show "map_of (m_currentByHash q) (vt_hash vt) = Some i" "comparable (vt_tx vt)"
    "nlookup (m_currentByAddressAndNonce q) (tx_from (vt_tx vt)) (tx_nonce (vt_tx vt)) = Some i"
    using n by simp_all
  show "nlookup (m_future q) (tx_from (vt_tx vt)) (tx_nonce (vt_tx vt)) = None"
    using d n(2) by (auto simp: disjoint_ok_def intro: ccontr)
  show "vt_hash vt \<notin> future_hashes q" using d n(1) by (fastforce simp: disjoint_ok_def future_hashes_def)
qed

lemma core_future_entry:
  assumes "queue_core q" and "nlookup (m_future q) a n = Some vt"
  shows "tx_from (vt_tx vt) = a" and "tx_nonce (vt_tx vt) = n" and "comparable (vt_tx vt)"
    and "nlookup (m_currentByAddressAndNonce q) a n = None"
    and "map_of (m_currentByHash q) (vt_hash vt) = None"
  using assms by (auto simp: queue_core_def future_ok_def disjoint_ok_def vt_slot_def)

lemma core_push_current:
  assumes "queue_core q" and "comparable (vt_tx vt)" and h: "vt_hash vt \<notin> queue_hashes q"
    and a: "nlookup (m_currentByAddressAndNonce q) (tx_from (vt_tx vt)) (tx_nonce (vt_tx vt)) = None"
    and f: "nlookup (m_future q) (tx_from (vt_tx vt)) (tx_nonce (vt_tx vt)) = None"
  shows "queue_core (push_current p vt q)"
    and "queue_hashes (push_current p vt q) = insert (vt_hash vt) (queue_hashes q)"
proof -
  have d: "disjoint_ok q" using assms(1) by (simp add: queue_core_def)
  have "map_of (m_currentByHash q) (vt_hash vt) = None" using h by (auto simp: queue_hashes_def)
  then have "current_ok (push_current p vt q)"
    using assms by (intro current_ok_push) (auto simp: queue_core_def)
  moreover have "future_ok (push_current p vt q)"
    using assms(1) by (simp add: queue_core_def future_ok_def push_current_def)
  moreover have "disjoint_ok (push_current p vt q)"
  proof (rule disjoint_okI, goal_cases)
    case (1 b k wt)
    with d f queue_coreD(1) [OF assms(1)] show ?case
      using disjoint_okD(1) [OF d, of b k wt] by (auto simp: push_current_def)
  next
    case (2 b k wt)
    with d h show ?case
      using disjoint_okD(2) [OF d, of b k wt] future_hashesI [of q b k wt]
      by (auto simp: push_current_def update_conv' queue_hashes_def)
  next
    case (3 b k wt c l ut)
    with disjoint_okD(3) [OF d, of c l ut b k wt] show ?case by (simp add: push_current_def)
  qed
  ultimately show "queue_core (push_current p vt q)" by (simp add: queue_core_def)
  show "queue_hashes (push_current p vt q) = insert (vt_hash vt) (queue_hashes q)"
    by (auto simp: queue_hashes_def push_current_def future_hashes_def update_conv')
qed

lemma core_pull_current:
  assumes "queue_core q" and i: "map_of (m_current q) i = Some vt"
  shows "queue_core (pull_current i vt q)"
    and "queue_hashes (pull_current i vt q) = queue_hashes q - {vt_hash vt}"
proof -
  note n = core_current_node [OF assms]
  have "current_ok (pull_current i vt q)"
    using assms by (intro current_ok_pull) (auto simp: queue_core_def)
  moreover have "future_ok (pull_current i vt q)"
    using assms(1) by (simp add: queue_core_def future_ok_def pull_current_def)
  moreover have "disjoint_ok (pull_current i vt q)"
    using assms(1) unfolding queue_core_def disjoint_ok_def by (auto simp: pull_current_def delete_conv')
  ultimately show "queue_core (pull_current i vt q)" by (simp add: queue_core_def)
  show "queue_hashes (pull_current i vt q) = queue_hashes q - {vt_hash vt}"
    using n(4) unfolding queue_hashes_def
    by (auto simp: pull_current_def future_hashes_def delete_conv' split: if_splits)
qed

lemma core_push_future:
  assumes "queue_core q" and "comparable (vt_tx vt)" and h: "vt_hash vt \<notin> queue_hashes q"
    and a: "nlookup (m_currentByAddressAndNonce q) (tx_from (vt_tx vt)) (tx_nonce (vt_tx vt)) = None"
    and f: "nlookup (m_future q) (tx_from (vt_tx vt)) (tx_nonce (vt_tx vt)) = None"
  shows "queue_core (push_future vt q)"
    and "queue_hashes (push_future vt q) = insert (vt_hash vt) (queue_hashes q)"
proof -
  have d: "disjoint_ok q" using assms(1) by (simp add: queue_core_def)
  have hf: "vt_hash wt \<noteq> vt_hash vt" if "nlookup (m_future q) b k = Some wt" for b k wt
    using h future_hashesI [OF that] by (auto simp: queue_hashes_def)
  have hc: "map_of (m_currentByHash q) (vt_hash vt) = None" using h by (auto simp: queue_hashes_def)
  let ?a = "tx_from (vt_tx vt)" and ?n = "tx_nonce (vt_tx vt)"
  have look: "nlookup (m_future (push_future vt q)) b k =
      (if b = ?a \<and> k = ?n then Some vt else nlookup (m_future q) b k)" for b k
    using queue_coreD(2) [OF assms(1)] by (simp add: push_future_def)
  have "future_ok (push_future vt q)"
    using assms by (intro future_ok_push) (auto simp: queue_core_def)
  moreover have "current_ok (push_future vt q)"
    using assms(1) by (simp add: queue_core_def current_ok_def push_future_def)
  moreover have "disjoint_ok (push_future vt q)"
  proof (rule disjoint_okI, goal_cases)
    case (1 b k wt)
    with a disjoint_okD(1) [OF d, of b k wt] show ?case
      unfolding look by (auto simp: push_future_def split: if_splits)
  next
    case (2 b k wt)
    with hc disjoint_okD(2) [OF d, of b k wt] show ?case
      unfolding look by (auto simp: push_future_def split: if_splits)
  next
    case (3 b k wt c l ut)
    with hf [of b k wt] hf [of c l ut] disjoint_okD(3) [OF d, of c l ut b k wt] show ?case
      unfolding look by (auto split: if_splits)
  qed
  ultimately show "queue_core (push_future vt q)" by (simp add: queue_core_def)
  show "queue_hashes (push_future vt q) = insert (vt_hash vt) (queue_hashes q)"
  proof -
    have "future_hashes (push_future vt q) = insert (vt_hash vt) (future_hashes q)"
      using f unfolding future_hashes_def look by (auto split: if_splits) (metis option.distinct(1))
    then show ?thesis by (simp add: queue_hashes_def push_future_def)
  qed
qed

lemma core_pull_future:
  assumes "queue_core q" and v: "nlookup (m_future q) a n = Some vt"
  shows "queue_core (pull_future vt q)"
    and "queue_hashes (pull_future vt q) = queue_hashes q - {vt_hash vt}"
proof -
  note n = core_future_entry [OF assms]
  have d: "disjoint_ok q" using assms(1) by (simp add: queue_core_def)
  have "future_ok (pull_future vt q)"
    using assms by (intro future_ok_pull) (auto simp: queue_core_def)
  moreover have "current_ok (pull_future vt q)"
    using assms(1) by (simp add: queue_core_def current_ok_def pull_future_def)
  moreover have "disjoint_ok (pull_future vt q)"
  proof (rule disjoint_okI, goal_cases)
    case (1 b k wt)
    with disjoint_okD(1) [OF d, of b k wt] show ?case by (simp add: pull_future_def split: if_splits)
  next
    case (2 b k wt)
    with disjoint_okD(2) [OF d, of b k wt] show ?case by (simp add: pull_future_def split: if_splits)
  next
    case (3 b k wt c l ut)
    with disjoint_okD(3) [OF d, of c l ut b k wt] show ?case by (simp add: pull_future_def split: if_splits)
  qed
  ultimately show "queue_core (pull_future vt q)" by (simp add: queue_core_def)
  have look: "nlookup (m_future (pull_future vt q)) b k =
      (if b = a \<and> k = n then None else nlookup (m_future q) b k)" for b k
    using n by (simp add: pull_future_def)
  have "future_hashes (pull_future vt q) = future_hashes q - {vt_hash vt}"
  proof (intro set_eqI iffI)
    fix h assume "h \<in> future_hashes (pull_future vt q)"
    then obtain b k wt where w: "nlookup (m_future q) b k = Some wt" "h = vt_hash wt" "\<not> (b = a \<and> k = n)"
      unfolding future_hashes_def look by (auto split: if_splits)
    with disjoint_okD(3) [OF d v w(1)] show "h \<in> future_hashes q - {vt_hash vt}"
      using future_hashesI [OF w(1)] by auto
  next
    fix h assume "h \<in> future_hashes q - {vt_hash vt}"
    then obtain b k wt where w: "nlookup (m_future q) b k = Some wt" "h = vt_hash wt" "h \<noteq> vt_hash vt"
      by (auto simp: future_hashes_def)
    with v have "\<not> (b = a \<and> k = n)" by auto
    with w future_hashesI [of "pull_future vt q" b k wt] show "h \<in> future_hashes (pull_future vt q)"
      by (simp add: look)
  qed
  moreover have "vt_hash vt \<notin> dom (map_of (m_currentByHash q))" using n(5) by auto
  ultimately show "queue_hashes (pull_future vt q) = queue_hashes q - {vt_hash vt}"
    by (auto simp: queue_hashes_def pull_future_def)
qed

subsection \<open>The abstract queue\<close>

text \<open>What the queue holds: a current and a future map from sender and nonce to transactions.\<close>

type_synonym slots = "address \<times> u256 \<rightharpoonup> transaction"

definition cur_map :: "queue \<Rightarrow> slots" where
  "cur_map q = (\<lambda>(a, n). Option.bind (nlookup (m_currentByAddressAndNonce q) a n)
     (\<lambda>i. map_option vt_tx (map_of (m_current q) i)))"

definition fut_map :: "queue \<Rightarrow> slots" where
  "fut_map q = (\<lambda>(a, n). map_option vt_tx (nlookup (m_future q) a n))"

definition frame :: "queue \<Rightarrow> h256 set \<times> (h256, bool) lru \<times> u32 \<times> u32 \<times> u32 \<times> u32 \<times>
    unverified_transaction list" where
  "frame q = (m_known q, m_dropped q, m_limit q, m_futureLimit q, m_currentSizeBytesLimit q,
     m_futureSizeBytesLimit q, m_unverified q)"

lemma frame_moves [simp]:
  "frame (push_current p vt q) = frame q" "frame (pull_current i vt q) = frame q"
  "frame (push_future vt q) = frame q" "frame (pull_future vt q) = frame q"
  by (simp_all add: frame_def push_current_def pull_current_def push_future_def pull_future_def)

lemma fut_map_current [simp]:
  "fut_map (push_current p vt q) = fut_map q" "fut_map (pull_current i vt q) = fut_map q"
  by (simp_all add: fut_map_def push_current_def pull_current_def)

lemma cur_map_future [simp]:
  "cur_map (push_future vt q) = cur_map q" "cur_map (pull_future vt q) = cur_map q"
  by (simp_all add: cur_map_def push_future_def pull_future_def)

lemma cur_map_push [simp]:
  assumes "queue_core q"
  shows "cur_map (push_current p vt q) = (cur_map q)(vt_slot vt \<mapsto> vt_tx vt)"
proof -
  note D = current_okD
  have c: "current_ok q" using assms by (simp add: queue_core_def)
  have m: "map_of (m_current (push_current p vt q)) = (map_of (m_current q))(m_next q \<mapsto> vt)"
    using map_of_insert_at [OF D(4) [OF c]] by (simp add: push_current_def)
  have "nlookup (m_currentByAddressAndNonce q) a n \<noteq> Some (m_next q)" for a n
    using aix.indexes_node [OF D(3) [OF c], of "(a, n)" "m_next q"] D(4) [OF c] by auto
  moreover have "m_currentByAddressAndNonce (push_current p vt q) =
      nput (tx_from (vt_tx vt)) (tx_nonce (vt_tx vt)) (m_next q) (m_currentByAddressAndNonce q)"
    by (simp add: push_current_def)
  ultimately show ?thesis
    using queue_coreD(1) [OF assms]
    by (auto simp: cur_map_def m fun_eq_iff vt_slot_def split: bind_splits)
qed

lemma cur_map_pull [simp]:
  assumes "queue_core q" and i: "map_of (m_current q) i = Some vt"
  shows "cur_map (pull_current i vt q) = (cur_map q)(vt_slot vt := None)"
proof -
  have c: "current_ok q" using assms by (simp add: queue_core_def)
  have "nlookup (m_currentByAddressAndNonce q) a n = Some i \<Longrightarrow> (a, n) = vt_slot vt" for a n
    using aix.indexes_node [OF current_okD(3) [OF c], of "(a, n)" i] i by auto
  then show ?thesis
    by (auto simp: cur_map_def fun_eq_iff vt_slot_def pull_current_def delete_conv' split: bind_splits)
qed

lemma fut_map_push [simp]:
  "queue_core q \<Longrightarrow> fut_map (push_future vt q) = (fut_map q)(vt_slot vt \<mapsto> vt_tx vt)"
  using queue_coreD(2) [of q] by (auto simp: fut_map_def push_future_def vt_slot_def fun_eq_iff)

lemma fut_map_pull [simp]: "fut_map (pull_future vt q) = (fut_map q)(vt_slot vt := None)"
  by (auto simp: fut_map_def pull_future_def vt_slot_def fun_eq_iff)

lemma cur_map_None:
  assumes "queue_core q"
  shows "cur_map q (a, n) = None \<longleftrightarrow> nlookup (m_currentByAddressAndNonce q) a n = None"
proof -
  have c: "current_ok q" using assms by (simp add: queue_core_def)
  show ?thesis
    using aix.indexes_node [OF current_okD(3) [OF c], of "(a, n)"]
    by (cases "nlookup (m_currentByAddressAndNonce q) a n") (auto simp: cur_map_def)
qed

lemma cur_map_Some:
  assumes "queue_core q" and "cur_map q s = Some t"
  obtains i vt where "map_of (m_current q) i = Some vt" and "vt_tx vt = t" and "vt_slot vt = s"
proof -
  have c: "current_ok q" using assms by (simp add: queue_core_def)
  obtain a n where s: "s = (a, n)" by fastforce
  obtain i vt where "nlookup (m_currentByAddressAndNonce q) a n = Some i" "map_of (m_current q) i = Some vt"
    "t = vt_tx vt" using assms(2) by (auto simp: s cur_map_def split: bind_splits)
  with aix.indexes_node [OF current_okD(3) [OF c], of "(a, n)" i] that show ?thesis by (auto simp: s)
qed

subsection \<open>Insertion into the multiset\<close>

lemma height_Inr:
  "tx_sender t = Some a \<Longrightarrow> ninner (m_currentByAddressAndNonce q) a \<noteq> [] \<Longrightarrow> \<exists>h. height q t = Inr h"
  by (auto simp: height_def split: list.splits)

lemma nlookup_ninner: "nlookup m a n \<noteq> None \<Longrightarrow> ninner m a \<noteq> []"
  by (auto simp: nlookup_def)

lemma comparable_height:
  assumes "comparable t" and "nlookup (m_currentByAddressAndNonce q) (tx_from t) n \<noteq> None"
  shows "\<exists>h. height q t = Inr h"
  using assms nlookup_ninner [OF assms(2)] height_Inr [of t _ q]
  by (auto simp: comparable_def tx_from_def)

lemma PriorityCompare_Inr:
  assumes "isTransaction (vt_tx x)" "isTransaction (vt_tx y)"
    and "\<exists>h. height q (vt_tx x) = Inr h" "\<exists>h. height q (vt_tx y) = Inr h"
  shows "\<exists>b. PriorityCompare q x y = Inr b"
  using assms by (auto simp: PriorityCompare_def Let_def)

lemma slot_insert_free:
  "nlookup (m_currentByAddressAndNonce q) a n = None \<Longrightarrow> slot_insert a n q =
     q\<lparr>m_currentByAddressAndNonce := nput a n (m_next q) (m_currentByAddressAndNonce q),
       m_next := Suc (m_next q)\<rparr>"
  by (simp add: slot_insert_def)

lemma emplace_slot:
  assumes "emplace_total e" and core: "current_ok q" and c: "comparable (vt_tx vt)"
    and f: "nlookup (m_currentByAddressAndNonce q) (tx_from (vt_tx vt)) (tx_nonce (vt_tx vt)) = None"
  obtains p h q1 where
    "emplace e vt (slot_insert (tx_from (vt_tx vt)) (tx_nonce (vt_tx vt)) q) = Inr (h, q1)"
    and "q1\<lparr>m_currentByAddressAndNonce :=
             nput (tx_from (vt_tx vt)) (tx_nonce (vt_tx vt)) h (m_currentByAddressAndNonce q1),
           m_currentByHash := AList.update (vt_hash vt) h (m_currentByHash q1),
           m_currentSizeBytes := m_currentSizeBytes q1 + of_nat (vt_size vt)\<rparr> =
         push_current p vt (q\<lparr>m_next := Suc (m_next q)\<rparr>)"
    and "m_futureSize q1 = m_futureSize q" and "m_futureSizeBytes q1 = m_futureSizeBytes q"
proof -
  let ?a = "tx_from (vt_tx vt)" and ?n = "tx_nonce (vt_tx vt)"
  let ?q = "slot_insert ?a ?n q"
  have look: "nlookup (m_currentByAddressAndNonce ?q) b k \<noteq> None"
    if "nlookup (m_currentByAddressAndNonce q) b k \<noteq> None \<or> (b = ?a \<and> k = ?n)" for b k
    using that current_okD(5) [OF core] by (auto simp: slot_insert_free [OF f])
  have hx: "\<exists>h. height ?q (vt_tx vt) = Inr h"
    using c look by (intro comparable_height [of _ _ ?n]) auto
  have "(\<exists>b. PriorityCompare ?q vt y = Inr b) \<and> (\<exists>b. PriorityCompare ?q y vt = Inr b)"
    if y: "y \<in> set (map snd (m_current q))" for y
  proof -
    obtain i where "(i, y) \<in> set (m_current q)" using y by auto
    then have i: "map_of (m_current q) i = Some y" using current_okD(1) [OF core] by simp
    note n = current_node [OF core i]
    have "\<exists>h. height ?q (vt_tx y) = Inr h"
      using n(2,3) look by (intro comparable_height [of _ _ "tx_nonce (vt_tx y)"]) auto
    with hx c n(3) show ?thesis by (auto simp: comparable_def intro!: PriorityCompare_Inr)
  qed
  then obtain p where "emplace_pos e (PriorityCompare ?q) vt (map snd (m_current q)) = Inr p"
    using assms(1) unfolding emplace_total_def by blast
  then have "emplace e vt ?q = Inr (Suc (m_next q), ?q\<lparr>
      m_current := take p (m_current q) @ (Suc (m_next q), vt) # drop p (m_current q),
      m_next := Suc (Suc (m_next q))\<rparr>)"
    by (simp add: emplace_def slot_insert_free [OF f])
  then show ?thesis
    by (rule that [of _ _ p]) (simp_all add: slot_insert_free [OF f] push_current_def)
qed

end
