(* ===== verification/TransactionQueue_Ops.thy ===== *)
theory TransactionQueue_Ops
  imports TransactionQueue_Inv
begin

text \<open>
  Every operation of the transaction queue returns on a well-formed queue, keeps it
  well-formed, and implements a step of the abstract queue of \<open>TransactionQueue_Inv\<close>.
\<close>

subsection \<open>Future to current\<close>

lemma core_next:
  "queue_core q \<Longrightarrow> queue_core (q\<lparr>m_next := Suc (m_next q)\<rparr>)"
  by (auto simp: queue_core_def current_ok_def future_ok_def disjoint_ok_def)

lemma maps_next [simp]:
  "queue_hashes (q\<lparr>m_next := k\<rparr>) = queue_hashes q" "cur_map (q\<lparr>m_next := k\<rparr>) = cur_map q"
  "fut_map (q\<lparr>m_next := k\<rparr>) = fut_map q" "frame (q\<lparr>m_next := k\<rparr>) = frame q"
  by (simp_all add: queue_hashes_def future_hashes_def cur_map_def fut_map_def frame_def)

lemma vt_move [simp]: "vt_tx (VerifiedTransaction_move vt) = vt_tx vt"
  "vt_tx (VerifiedTransaction t) = t" "vt_slot (VerifiedTransaction_move vt) = vt_slot vt"
  by (simp_all add: VerifiedTransaction_move_def VerifiedTransaction_def vt_slot_def)

lemma future_to_current:
  fixes p :: nat
  assumes core: "queue_core q" and v: "nlookup (m_future q) a n = Some vt"
  defines "q' \<equiv> push_current p (VerifiedTransaction_move vt) ((pull_future vt q)\<lparr>m_next := Suc (m_next q)\<rparr>)"
  shows "queue_core q'" and "queue_hashes q' = queue_hashes q" and "frame q' = frame q"
    and "cur_map q' = (cur_map q)((a, n) := fut_map q (a, n))"
    and "fut_map q' = (fut_map q)((a, n) := None)"
proof -
  note n = core_future_entry [OF core v]
  let ?r = "(pull_future vt q)\<lparr>m_next := Suc (m_next q)\<rparr>"
  have r: "queue_core ?r"
    using core_next [OF core_pull_future(1) [OF core v]] by (simp add: pull_future_def)
  have h: "queue_hashes ?r = queue_hashes q - {vt_hash vt}" by (simp add: core_pull_future(2) [OF core v])
  have a: "nlookup (m_currentByAddressAndNonce ?r) (tx_from (vt_tx (VerifiedTransaction_move vt)))
      (tx_nonce (vt_tx (VerifiedTransaction_move vt))) = None"
    and f: "nlookup (m_future ?r) (tx_from (vt_tx (VerifiedTransaction_move vt)))
      (tx_nonce (vt_tx (VerifiedTransaction_move vt))) = None"
    and c: "comparable (vt_tx (VerifiedTransaction_move vt))"
    and hh: "vt_hash (VerifiedTransaction_move vt) \<notin> queue_hashes ?r"
    using n h by (simp_all add: pull_future_def)
  note push = core_push_current [OF r c hh a f, of p]
  moreover have "vt_hash vt \<in> queue_hashes q"
    using future_hashesI [OF v] by (simp add: queue_hashes_def)
  ultimately show "queue_core q'" "queue_hashes q' = queue_hashes q"
    unfolding q'_def push(2) h by auto
  show "frame q' = frame q" by (simp add: q'_def)
  have "vt_slot vt = (a, n)" "fut_map q (a, n) = Some (vt_tx vt)"
    using n v by (simp_all add: vt_slot_def fut_map_def)
  then show "cur_map q' = (cur_map q)((a, n) := fut_map q (a, n))"
    "fut_map q' = (fut_map q)((a, n) := None)"
    using r by (simp_all add: q'_def)
qed

text \<open>The queue as it is once the entries of \<open>a\<close> in \<open>m_future\<close> are \<open>m\<close>.\<close>

abbreviation with_future :: "address \<Rightarrow> (u256, verified_transaction) omap \<Rightarrow> queue \<Rightarrow> queue" where
  "with_future a m q \<equiv> q\<lparr>m_future := nset a m (m_future q)\<rparr>"

definition moved :: "address \<Rightarrow> (u256, 'v) omap \<Rightarrow> (address \<times> u256) set" where
  "moved a m = Pair a ` fst ` set m"

lemma makeCurrent_loop_correct:
  assumes "emplace_total e"
  shows "queue_core (with_future a (pre @ ft) q) \<Longrightarrow>
    \<exists>n q'. makeCurrent_loop e a nonce ft q = Some (n, q') \<and> n \<le> length ft \<and> m_onReady q' = m_onReady q \<and>
      frame q' = frame q \<and> queue_core (with_future a (pre @ drop n ft) q') \<and>
      queue_hashes (with_future a (pre @ drop n ft) q') = queue_hashes (with_future a (pre @ ft) q) \<and>
      cur_map (with_future a (pre @ drop n ft) q') =
        (\<lambda>s. if s \<in> moved a (take n ft) then fut_map (with_future a (pre @ ft) q) s
             else cur_map (with_future a (pre @ ft) q) s) \<and>
      fut_map (with_future a (pre @ drop n ft) q') =
        (\<lambda>s. if s \<in> moved a (take n ft) then None else fut_map (with_future a (pre @ ft) q) s) \<and>
      (\<forall>i<n. fst (ft ! i) = nonce + of_nat i) \<and>
      (n < length ft \<longrightarrow> fst (ft ! n) \<noteq> nonce + of_nat n)"
proof (induction ft arbitrary: nonce q)
  case Nil
  then show ?case by (simp add: moved_def)
next
  case (Cons x ft)
  obtain k vt where x: "x = (k, vt)" by fastforce
  let ?v = "with_future a (pre @ (k, vt) # ft) q"
  have core: "queue_core ?v" using Cons.prems by (simp add: x)
  have om: "omap_ok (pre @ (k, vt) # ft)"
    using ninner_ok [OF queue_coreD(2) [OF core], of a] by simp
  have "map_of (pre @ (k, vt) # ft) k = Some vt"
    using omap_ok_distinct [OF om] by (auto simp: map_add_Some_iff map_of_eq_None_iff)
  then have v: "nlookup (m_future ?v) a k = Some vt" by simp
  note n = core_future_entry [OF core v]
  show ?case
  proof (cases "k = nonce")
    case False
    then show ?thesis
      using core n(2) by (simp add: x moved_def)
  next
    case True
    let ?w = "VerifiedTransaction_move vt"
    have f: "nlookup (m_currentByAddressAndNonce q) (tx_from (vt_tx ?w)) (tx_nonce (vt_tx ?w)) = None"
      and ok: "current_ok q" and c: "comparable (vt_tx ?w)"
      using n core by (simp_all add: queue_core_def current_ok_def)
    obtain p h q1 where em: "emplace e ?w (slot_insert a k q) = Inr (h, q1)"
      and q1: "q1\<lparr>m_currentByAddressAndNonce := nput a k h (m_currentByAddressAndNonce q1),
           m_currentByHash := AList.update (vt_hash vt) h (m_currentByHash q1),
           m_currentSizeBytes := m_currentSizeBytes q1 + of_nat (vt_size vt)\<rparr> =
         push_current p ?w (q\<lparr>m_next := Suc (m_next q)\<rparr>)"
      and fs: "m_futureSize q1 = m_futureSize q" "m_futureSizeBytes q1 = m_futureSizeBytes q"
      using emplace_slot [OF assms ok c f, unfolded vt_move(1) n(1,2)] by metis
    define q2 where "q2 = q1\<lparr>m_currentByAddressAndNonce := nput a k h (m_currentByAddressAndNonce q1),
           m_currentByHash := AList.update (vt_hash vt) h (m_currentByHash q1),
           m_futureSizeBytes := m_futureSizeBytes q1 - of_nat (vt_size vt),
           m_currentSizeBytes := m_currentSizeBytes q1 + of_nat (vt_size vt),
           m_futureSize := m_futureSize q1 - 1\<rparr>"
    have q2: "q2 = (push_current p ?w (q\<lparr>m_next := Suc (m_next q)\<rparr>))\<lparr>
        m_futureSizeBytes := m_futureSizeBytes q - of_nat (vt_size vt), m_futureSize := m_futureSize q - 1\<rparr>"
      unfolding q1 [symmetric] q2_def fs by simp
    have er: "omap_erase k (pre @ (k, vt) # ft) = pre @ ft" by (rule omap_erase_append_Cons [OF om])
    have v2: "with_future a (pre @ ft) q2 =
        push_current p ?w ((pull_future vt ?v)\<lparr>m_next := Suc (m_next ?v)\<rparr>)"
      using n by (simp add: q2 pull_future_def push_current_def nerase_def er)
    note m = future_to_current [OF core v, of p, folded v2]
    have on: "m_onReady q2 = m_onReady q" "frame q2 = frame q"
      by (simp_all add: q2 push_current_def frame_def)
    from Cons.IH [OF m(1), of "nonce + 1"] obtain j q' where IH:
      "makeCurrent_loop e a (nonce + 1) ft q2 = Some (j, q')" "j \<le> length ft" "m_onReady q' = m_onReady q2"
      "frame q' = frame q2" "queue_core (with_future a (pre @ drop j ft) q')"
      "queue_hashes (with_future a (pre @ drop j ft) q') = queue_hashes (with_future a (pre @ ft) q2)"
      "cur_map (with_future a (pre @ drop j ft) q') =
        (\<lambda>s. if s \<in> moved a (take j ft) then fut_map (with_future a (pre @ ft) q2) s
             else cur_map (with_future a (pre @ ft) q2) s)"
      "fut_map (with_future a (pre @ drop j ft) q') =
        (\<lambda>s. if s \<in> moved a (take j ft) then None else fut_map (with_future a (pre @ ft) q2) s)"
      "\<forall>i<j. fst (ft ! i) = nonce + 1 + of_nat i" "j < length ft \<longrightarrow> fst (ft ! j) \<noteq> nonce + 1 + of_nat j"
      by blast
    have mv: "moved a (take (Suc j) (x # ft)) = insert (a, k) (moved a (take j ft))"
      by (simp add: moved_def x)
    have nm: "(a, k) \<notin> moved a (take j ft)"
      using om by (force simp: omap_ok_append omap_ok_Cons moved_def dest: in_set_takeD)
    have "cur_map (with_future a (pre @ drop j ft) q') =
        (\<lambda>s. if s \<in> moved a (take (Suc j) (x # ft)) then fut_map ?v s else cur_map ?v s)"
      unfolding IH(7) m(4,5) mv using nm by (simp add: fun_eq_iff)
    moreover have "fut_map (with_future a (pre @ drop j ft) q') =
        (\<lambda>s. if s \<in> moved a (take (Suc j) (x # ft)) then None else fut_map ?v s)"
      unfolding IH(8) m(5) mv by (simp add: fun_eq_iff)
    moreover have "makeCurrent_loop e a nonce (x # ft) q = Some (Suc j, q')"
      using em IH(1) n True by (simp add: x q2_def Let_def)
    moreover have "\<forall>i<Suc j. fst ((x # ft) ! i) = nonce + of_nat i"
      using IH(9) True by (auto simp: x less_Suc_eq_0_disj)
    moreover have "Suc j < length (x # ft) \<longrightarrow> fst ((x # ft) ! Suc j) \<noteq> nonce + of_nat (Suc j)"
      using IH(10) by (simp add: ac_simps)
    ultimately show ?thesis
      using IH(2-6) on m(2)
      by (intro exI [of _ "Suc j"] exI [of _ q'] conjI) (simp_all only: x drop_Suc_Cons length_Cons Suc_le_mono)
  qed
qed

text \<open>The consecutive run of nonces from \<open>n\<close> on that a map holds for a sender.\<close>

definition run :: "slots \<Rightarrow> address \<Rightarrow> u256 \<Rightarrow> (address \<times> u256) set" where
  "run f a n = {(b, m). b = a \<and> n \<le> m \<and> (\<forall>k. n \<le> k \<and> k \<le> m \<longrightarrow> f (a, k) \<noteq> None)}"

definition abs_queue :: "queue \<Rightarrow> slots \<times> slots" where
  "abs_queue q = (cur_map q, fut_map q)"

definition abs_makeCurrent :: "transaction \<Rightarrow> slots \<times> slots \<Rightarrow> slots \<times> slots" where
  "abs_makeCurrent t = (\<lambda>(c, f).
     let r = run f (tx_from t) (tx_nonce t + 1) in
     (\<lambda>s. if s \<in> r then f s else c s, \<lambda>s. if s \<in> r then None else f s))"

lemma word_less_inc_le: "n < k \<Longrightarrow> n + 1 \<le> (k :: 'w::len word)"
  by (metis add.commute inc_le)

lemma word_less_inc: "n < m \<Longrightarrow> n < n + (1 :: 'w::len word)"
proof -
  assume "n < m"
  then have "unat n < unat m" by (simp add: word_less_nat_alt)
  moreover have "unat m < 2 ^ LENGTH('w)" by simp
  ultimately have "unat n + 1 < 2 ^ LENGTH('w)" by linarith
  then show ?thesis by (simp add: word_less_nat_alt unat_word_ariths)
qed

lemma run_prefix:
  fixes ks :: "'w::len word list"
  assumes "sorted_wrt (<) ks" and "\<forall>k\<in>set ks. n \<le> k" and "j \<le> length ks"
    and "\<forall>i<j. ks ! i = n + of_nat i" and "j < length ks \<longrightarrow> ks ! j \<noteq> n + of_nat j"
  shows "set (take j ks) = {m. n \<le> m \<and> (\<forall>k. n \<le> k \<and> k \<le> m \<longrightarrow> k \<in> set ks)}"
  using assms
proof (induction ks arbitrary: n j)
  case (Cons k ks)
  show ?case
  proof (cases j)
    case 0
    with Cons.prems have "n < k" by (simp add: order.not_eq_order_implies_strict)
    with Cons.prems(1) have "n \<notin> set (k # ks)" by (auto dest: order.strict_trans)
    with 0 show ?thesis by auto
  next
    case (Suc j')
    have k: "k = n" using Cons.prems(4) Suc by force
    have gt: "\<forall>x\<in>set ks. n < x" using Cons.prems(1) k by simp
    have "set (take j' ks) = {m. n + 1 \<le> m \<and> (\<forall>x. n + 1 \<le> x \<and> x \<le> m \<longrightarrow> x \<in> set ks)}"
      (is "_ = ?R")
    proof (rule Cons.IH)
      show "\<forall>i<j'. ks ! i = n + 1 + of_nat i"
        using Cons.prems(4) Suc by (auto simp: ac_simps dest: spec [of _ "Suc i" for i])
      show "j' < length ks \<longrightarrow> ks ! j' \<noteq> n + 1 + of_nat j'" using Cons.prems(5) Suc by (simp add: ac_simps)
    qed (use Cons.prems gt Suc word_less_inc_le in auto)
    moreover have "{m. n \<le> m \<and> (\<forall>x. n \<le> x \<and> x \<le> m \<longrightarrow> x \<in> set (k # ks))} = insert n ?R"
    proof (intro set_eqI iffI)
      fix m assume m: "m \<in> {m. n \<le> m \<and> (\<forall>x. n \<le> x \<and> x \<le> m \<longrightarrow> x \<in> set (k # ks))}"
      show "m \<in> insert n ?R"
      proof (cases "m = n")
        case False
        with m have "n < m" by auto
        moreover have "x \<in> set ks" if "n + 1 \<le> x" "x \<le> m" for x
        proof -
          have "n < x" using that(1) word_less_inc [OF \<open>n < m\<close>] by (rule order.strict_trans2 [rotated])
          then have "n \<le> x" "x \<noteq> n" by auto
          with that(2) m k show ?thesis by (metis (lifting) mem_Collect_eq set_ConsD)
        qed
        ultimately show ?thesis using word_less_inc_le by auto
      qed simp
    next
      fix m assume "m \<in> insert n ?R"
      then consider "m = n" | "m \<in> ?R" by blast
      then show "m \<in> {m. n \<le> m \<and> (\<forall>x. n \<le> x \<and> x \<le> m \<longrightarrow> x \<in> set (k # ks))}"
      proof cases
        case 1
        then show ?thesis using k by auto
      next
        case 2
        then have "m \<in> set ks" by auto
        with gt have "n < m" by blast
        moreover have "x \<in> set (k # ks)" if "n \<le> x" "x \<le> m" for x
          using that 2 k word_less_inc_le [of n x] by (cases "x = n") auto
        ultimately show ?thesis by auto
      qed
    qed
    ultimately show ?thesis using Suc k by simp
  qed
qed auto

lemma omap_from_find:
  assumes "omap_ok m"
  shows "map_of (omap_from k m) j = (if k \<le> j then map_of m j else None)"
proof -
  have d: "distinct (map fst m)" "distinct (map fst (omap_from k m))"
    using assms omap_ok_from [OF assms] omap_ok_distinct by auto
  show ?thesis
  proof (cases "map_of m j")
    case None
    then have "map_of (omap_from k m) j = None"
      using set_omap_from [OF assms, of k] by (auto simp: map_of_eq_None_iff)
    with None show ?thesis by simp
  next
    case (Some v)
    show ?thesis
    proof (cases "k \<le> j")
      case True
      with Some have "(j, v) \<in> set (omap_from k m)"
        using set_omap_from [OF assms, of k] by (auto dest: map_of_SomeD)
      with d True Some show ?thesis by simp
    next
      case False
      then show ?thesis using set_omap_from [OF assms, of k] by (auto simp: map_of_eq_None_iff)
    qed
  qed
qed

lemma moved_run:
  assumes "omap_ok fs" and "j \<le> length (omap_from n fs)"
    and "\<forall>i<j. fst (omap_from n fs ! i) = n + of_nat i"
    and "j < length (omap_from n fs) \<longrightarrow> fst (omap_from n fs ! j) \<noteq> n + of_nat j"
    and f: "\<And>k. f (a, k) = map_option g (map_of fs k)"
  shows "moved a (take j (omap_from n fs)) = run f a n"
proof -
  let ?ks = "map fst (omap_from n fs)"
  have "set (take j ?ks) = {m. n \<le> m \<and> (\<forall>k. n \<le> k \<and> k \<le> m \<longrightarrow> k \<in> set ?ks)}"
    using assms omap_ok_from [OF assms(1)] set_omap_from [OF assms(1), of n]
    by (intro run_prefix) (auto simp: omap_ok_def)
  moreover have "k \<in> set ?ks \<longleftrightarrow> f (a, k) \<noteq> None" if "n \<le> k" for k
    using that omap_from_find [OF assms(1), of n k] map_of_eq_None_iff [of "omap_from n fs" k]
    by (auto simp: f)
  ultimately have "set (take j ?ks) = {m. n \<le> m \<and> (\<forall>k. n \<le> k \<and> k \<le> m \<longrightarrow> f (a, k) \<noteq> None)}"
    by auto
  then show ?thesis by (auto simp: moved_def run_def take_map)
qed

lemma maps_onReady [simp]:
  "queue_hashes (q\<lparr>m_onReady := k\<rparr>) = queue_hashes q" "abs_queue (q\<lparr>m_onReady := k\<rparr>) = abs_queue q"
  "frame (q\<lparr>m_onReady := k\<rparr>) = frame q" "queue_core (q\<lparr>m_onReady := k\<rparr>) = queue_core q"
  by (simp_all add: queue_hashes_def future_hashes_def cur_map_def fut_map_def frame_def abs_queue_def
      queue_core_def current_ok_def future_ok_def disjoint_ok_def)

lemma makeCurrent_correct:
  assumes "emplace_total e" and core: "queue_core q"
  obtains q' where "makeCurrent_WITH_LOCK e t q = Some q'" and "queue_core q'"
    and "queue_hashes q' = queue_hashes q" and "frame q' = frame q"
    and "abs_queue q' = abs_makeCurrent t (abs_queue q)"
proof -
  let ?a = "tx_from t" and ?n = "tx_nonce t + 1"
  define fs where "fs = ninner (m_future q) ?a"
  have ok: "omap_ok fs" using queue_coreD(2) [OF core] by (simp add: fs_def)
  have f: "fut_map q (?a, k) = map_option vt_tx (map_of fs k)" for k
    by (simp add: fut_map_def nlookup_def fs_def)
  show thesis
  proof (cases "map_of fs ?n")
    case None
    then have "run (fut_map q) ?a ?n = {}" by (auto simp: run_def f)
    then have "abs_makeCurrent t (abs_queue q) = abs_queue q" by (simp add: abs_makeCurrent_def abs_queue_def)
    with None core that show ?thesis by (simp add: makeCurrent_WITH_LOCK_def fs_def [symmetric] Let_def)
  next
    case (Some vt)
    let ?v = "with_future ?a (omap_before ?n fs @ omap_from ?n fs) q"
    have v: "?v = q" using nset_ninner [OF queue_coreD(2) [OF core]] by (simp add: omap_before_from fs_def)
    obtain j q1 where l: "makeCurrent_loop e ?a ?n (omap_from ?n fs) q = Some (j, q1)"
      "j \<le> length (omap_from ?n fs)" "frame q1 = frame q"
      and core': "queue_core (with_future ?a (omap_before ?n fs @ drop j (omap_from ?n fs)) q1)"
      and h: "queue_hashes (with_future ?a (omap_before ?n fs @ drop j (omap_from ?n fs)) q1) = queue_hashes q"
      and c: "cur_map (with_future ?a (omap_before ?n fs @ drop j (omap_from ?n fs)) q1) =
        (\<lambda>s. if s \<in> moved ?a (take j (omap_from ?n fs)) then fut_map q s else cur_map q s)"
      and f': "fut_map (with_future ?a (omap_before ?n fs @ drop j (omap_from ?n fs)) q1) =
        (\<lambda>s. if s \<in> moved ?a (take j (omap_from ?n fs)) then None else fut_map q s)"
      and r: "\<forall>i<j. fst (omap_from ?n fs ! i) = ?n + of_nat i"
        "j < length (omap_from ?n fs) \<longrightarrow> fst (omap_from ?n fs ! j) \<noteq> ?n + of_nat j"
      using makeCurrent_loop_correct [OF assms(1), of ?a "omap_before ?n fs" "omap_from ?n fs" q ?n]
        core unfolding v by blast
    let ?q2 = "with_future ?a (omap_before ?n fs @ drop j (omap_from ?n fs)) q1"
    let ?q3 = "if j > 0 then ?q2\<lparr>m_onReady := Suc (m_onReady ?q2)\<rparr> else ?q2"
    have "makeCurrent_WITH_LOCK e t q = Some ?q3"
      using Some l(1) by (simp add: makeCurrent_WITH_LOCK_def fs_def [symmetric] Let_def)
    moreover have "abs_queue ?q2 = abs_makeCurrent t (abs_queue q)"
      unfolding abs_queue_def c f' moved_run [OF ok l(2) r f] by (simp add: abs_makeCurrent_def Let_def)
    moreover have "frame ?q2 = frame q" using l(3) by (simp add: frame_def)
    ultimately show ?thesis
      using that [of ?q3] core' h by (auto split: if_splits)
  qed
qed

subsection \<open>Insertion, removal and the current limit\<close>

definition abs_insert :: "transaction \<Rightarrow> slots \<times> slots \<Rightarrow> slots \<times> slots" where
  "abs_insert t = (\<lambda>(c, f). abs_makeCurrent t (c((tx_from t, tx_nonce t) \<mapsto> t), f))"

lemma maps_known [simp]:
  "queue_hashes (q\<lparr>m_known := k\<rparr>) = queue_hashes q" "abs_queue (q\<lparr>m_known := k\<rparr>) = abs_queue q"
  "queue_core (q\<lparr>m_known := k\<rparr>) = queue_core q"
  by (simp_all add: queue_hashes_def future_hashes_def cur_map_def fut_map_def abs_queue_def
      queue_core_def current_ok_def future_ok_def disjoint_ok_def)

lemma insertCurrent_correct:
  assumes "emplace_total e" and core: "queue_core q" and c: "comparable t"
    and h: "tx_sha3 t \<notin> queue_hashes q"
    and a: "nlookup (m_currentByAddressAndNonce q) (tx_from t) (tx_nonce t) = None"
    and f: "nlookup (m_future q) (tx_from t) (tx_nonce t) = None"
  obtains q' where "insertCurrent_WITH_LOCK e (tx_sha3 t) t q = Some (True, q')" and "queue_core q'"
    and "queue_hashes q' = insert (tx_sha3 t) (queue_hashes q)"
    and "frame q' = frame (q\<lparr>m_known := insert (tx_sha3 t) (m_known q)\<rparr>)"
    and "abs_queue q' = abs_insert t (abs_queue q)"
proof -
  let ?w = "VerifiedTransaction t" and ?q = "q\<lparr>m_next := Suc (m_next q)\<rparr>"
  have ok: "current_ok q" using core by (simp add: queue_core_def)
  obtain p i q1 where em: "emplace e ?w (slot_insert (tx_from t) (tx_nonce t) q) = Inr (i, q1)"
    and q1: "q1\<lparr>m_currentByAddressAndNonce := nput (tx_from t) (tx_nonce t) i (m_currentByAddressAndNonce q1),
         m_currentByHash := AList.update (tx_sha3 t) i (m_currentByHash q1),
         m_currentSizeBytes := m_currentSizeBytes q1 + of_nat (tx_size t)\<rparr> = push_current p ?w ?q"
    using emplace_slot [OF assms(1) ok, of ?w, unfolded vt_move(2)] c a by metis
  have c': "comparable (vt_tx ?w)" and h': "vt_hash ?w \<notin> queue_hashes ?q"
    and a': "nlookup (m_currentByAddressAndNonce ?q) (tx_from (vt_tx ?w)) (tx_nonce (vt_tx ?w)) = None"
    and f': "nlookup (m_future ?q) (tx_from (vt_tx ?w)) (tx_nonce (vt_tx ?w)) = None"
    using c h a f by simp_all
  note push = core_push_current [OF core_next [OF core] c' h' a' f', of p]
  obtain q4 where m: "makeCurrent_WITH_LOCK e t (push_current p ?w ?q) = Some q4" "queue_core q4"
    "queue_hashes q4 = queue_hashes (push_current p ?w ?q)" "frame q4 = frame (push_current p ?w ?q)"
    "abs_queue q4 = abs_makeCurrent t (abs_queue (push_current p ?w ?q))"
    using makeCurrent_correct [OF assms(1) push(1)] .
  have "map_of (m_currentByHash q) (tx_sha3 t) = None" using h by (auto simp: queue_hashes_def)
  then have "insertCurrent_WITH_LOCK e (tx_sha3 t) t q =
      Some (True, q4\<lparr>m_known := insert (tx_sha3 t) (m_known q4)\<rparr>)"
    using em m(1) q1 by (simp add: insertCurrent_WITH_LOCK_def Let_def)
  moreover have "abs_queue q4 = abs_insert t (abs_queue q)"
    using m(5) core_next [OF core] by (simp add: abs_insert_def abs_queue_def vt_slot_def)
  moreover have "frame (q4\<lparr>m_known := insert (tx_sha3 t) (m_known q4)\<rparr>) =
      frame (q\<lparr>m_known := insert (tx_sha3 t) (m_known q)\<rparr>)"
    using m(4) by (simp add: frame_def push_current_def)
  moreover have "queue_hashes q4 = insert (tx_sha3 t) (queue_hashes q)"
    using m(3) push(2) by simp
  ultimately show thesis
    using that [of "q4\<lparr>m_known := insert (tx_sha3 t) (m_known q4)\<rparr>"] m(2) by simp
qed

lemma remove_correct:
  assumes core: "queue_core q"
  shows "remove_WITH_LOCK h q = (case map_of (m_currentByHash q) h of
      None \<Rightarrow> Some (False, q)
    | Some i \<Rightarrow> Some (True, (pull_current i (the (map_of (m_current q) i)) q)\<lparr>m_known := m_known q - {h}\<rparr>))"
    and "map_of (m_currentByHash q) h = Some i \<Longrightarrow> \<exists>vt. map_of (m_current q) i = Some vt \<and> vt_hash vt = h"
proof -
  have ok: "current_ok q" using core by (simp add: queue_core_def)
  show node: "\<exists>vt. map_of (m_current q) i = Some vt \<and> vt_hash vt = h" if "map_of (m_currentByHash q) h = Some i" for i
    using hix.indexes_node [OF current_okD(2) [OF ok] that] .
  show "remove_WITH_LOCK h q = (case map_of (m_currentByHash q) h of
      None \<Rightarrow> Some (False, q)
    | Some i \<Rightarrow> Some (True, (pull_current i (the (map_of (m_current q) i)) q)\<lparr>m_known := m_known q - {h}\<rparr>))"
  proof (cases "map_of (m_currentByHash q) h")
    case None
    then show ?thesis by (simp add: remove_WITH_LOCK_def)
  next
    case (Some i)
    then obtain vt where vt: "map_of (m_current q) i = Some vt" "vt_hash vt = h" using node by blast
    have "map_of (m_currentByAddressAndNonce q) (tx_from (vt_tx vt)) \<noteq> None"
      using current_node(2) [OF ok vt(1)] by (auto simp: nlookup_def ninner_def split: option.splits)
    with Some vt show ?thesis by (simp add: remove_WITH_LOCK_def pull_current_def Let_def)
  qed
qed

text \<open>Removal from a queue whose known set is exact.\<close>

definition known_ok :: "queue \<Rightarrow> bool" where
  "known_ok q \<longleftrightarrow> queue_core q \<and> m_known q = queue_hashes q"

definition config :: "queue \<Rightarrow> (h256, bool) lru \<times> u32 \<times> u32 \<times> u32 \<times> u32 \<times> unverified_transaction list" where
  "config q = (m_dropped q, m_limit q, m_futureLimit q, m_currentSizeBytesLimit q,
     m_futureSizeBytesLimit q, m_unverified q)"

lemma frame_config: "frame q = (m_known q, config q)"
  by (simp add: frame_def config_def)

lemma config_known [simp]: "config (q\<lparr>m_known := k\<rparr>) = config q"
  by (simp add: config_def)

lemma config_moves [simp]:
  "config (push_current p vt q) = config q" "config (pull_current i vt q) = config q"
  "config (push_future vt q) = config q" "config (pull_future vt q) = config q"
  by (simp_all add: config_def push_current_def pull_current_def push_future_def pull_future_def)

lemma remove_known:
  assumes "known_ok q"
  obtains b q' where "remove_WITH_LOCK h q = Some (b, q')" and "known_ok q'" and "config q' = config q"
    and "b = (h \<in> dom (map_of (m_currentByHash q)))"
    and "queue_hashes q' = queue_hashes q - (if b then {h} else {})"
    and "cur_map q' \<subseteq>\<^sub>m cur_map q" and "fut_map q' = fut_map q"
proof (cases "map_of (m_currentByHash q) h")
  case None
  with assms that [of False q] show ?thesis using remove_correct(1) [of q h] by (simp add: known_ok_def domIff)
next
  case (Some i)
  have core: "queue_core q" using assms by (simp add: known_ok_def)
  obtain vt where vt: "map_of (m_current q) i = Some vt" "vt_hash vt = h"
    using remove_correct(2) [OF core Some] by blast
  let ?q = "(pull_current i vt q)\<lparr>m_known := m_known q - {h}\<rparr>"
  note pull = core_pull_current [OF core vt(1)]
  have "cur_map ?q = cur_map (pull_current i vt q)" "fut_map ?q = fut_map q"
    by (simp_all add: cur_map_def fut_map_def pull_current_def)
  then have "cur_map ?q \<subseteq>\<^sub>m cur_map q" "fut_map ?q = fut_map q"
    using core vt(1) by (simp_all add: map_le_def)
  moreover have "known_ok ?q" using assms pull vt(2) by (simp add: known_ok_def)
  moreover have "remove_WITH_LOCK h q = Some (True, ?q)" using remove_correct(1) [OF core, of h] Some vt by simp
  ultimately show ?thesis using that [of True ?q] pull vt Some by auto
qed

definition current_over :: "queue \<Rightarrow> bool" where
  "current_over q \<longleftrightarrow> length (m_current q) > unat (m_limit q) \<or>
     m_currentSizeBytes q > m_currentSizeBytesLimit q"

lemma delete_last:
  assumes "distinct (map fst m)" and "m \<noteq> []"
  shows "AList.delete (fst (last m)) m = butlast m"
proof -
  obtain ms x where m: "m = ms @ [x]" using assms(2) by (metis rev_exhaust)
  have "fst x \<notin> fst ` set ms" using assms(1) m by auto
  then have "filter (\<lambda>y. fst x \<noteq> fst y) ms = ms" by (auto simp: filter_id_conv)
  then show ?thesis by (simp add: m AList.delete_eq case_prod_beta')
qed

lemma remove_last:
  assumes "known_ok q" and ne: "m_current q \<noteq> []"
  obtains q' where "remove_WITH_LOCK (vt_hash (snd (last (m_current q)))) q = Some (True, q')"
    and "known_ok q'" and "config q' = config q" and "m_current q' = butlast (m_current q)"
    and "cur_map q' \<subseteq>\<^sub>m cur_map q" and "fut_map q' = fut_map q"
proof -
  have ok: "current_ok q" and core: "queue_core q" using assms(1) by (simp_all add: known_ok_def queue_core_def)
  let ?x = "last (m_current q)"
  have x: "map_of (m_current q) (fst ?x) = Some (snd ?x)" using current_okD(1) [OF ok] ne by simp
  have i: "map_of (m_currentByHash q) (vt_hash (snd ?x)) = Some (fst ?x)" by (rule current_node(1) [OF ok x])
  obtain b q' where r: "remove_WITH_LOCK (vt_hash (snd ?x)) q = Some (b, q')" "known_ok q'"
    "config q' = config q" "cur_map q' \<subseteq>\<^sub>m cur_map q" "fut_map q' = fut_map q"
    using remove_known [OF assms(1)] .
  have "b = True" "m_current q' = AList.delete (fst ?x) (m_current q)"
    using r(1) remove_correct(1) [OF core, of "vt_hash (snd ?x)"] i by (auto simp: pull_current_def)
  with r that delete_last [OF current_okD(1) [OF ok] ne] show ?thesis by simp
qed

lemma trimCurrent_correct:
  "known_ok q \<Longrightarrow> \<exists>q'. trimCurrent q = Some q' \<and> known_ok q' \<and> config q' = config q \<and> \<not> current_over q' \<and>
     (\<exists>k. m_current q' = take k (m_current q)) \<and> cur_map q' \<subseteq>\<^sub>m cur_map q \<and> fut_map q' = fut_map q \<and>
     (\<not> current_over q \<longrightarrow> q' = q)"
proof (induction "length (m_current q)" arbitrary: q rule: less_induct)
  case less
  show ?case
  proof (cases "current_over q")
    case False
    then have "trimCurrent q = Some q" by (subst trimCurrent.simps) (auto simp: current_over_def)
    with False less.prems show ?thesis by (auto intro: exI [of _ "length (m_current q)"])
  next
    case True
    have ne: "m_current q \<noteq> []"
    proof
      assume e: "m_current q = []"
      then have "m_currentSizeBytes q = 0"
        using less.prems by (simp add: known_ok_def queue_core_def current_ok_def)
      with e True show False by (simp add: current_over_def)
    qed
    obtain q1 where r: "remove_WITH_LOCK (vt_hash (snd (last (m_current q)))) q = Some (True, q1)"
      "known_ok q1" "config q1 = config q" "m_current q1 = butlast (m_current q)"
      "cur_map q1 \<subseteq>\<^sub>m cur_map q" "fut_map q1 = fut_map q"
      using remove_last [OF less.prems ne] .
    have "length (m_current q1) < length (m_current q)" using r(4) ne by simp
    from less.hyps [OF this r(2)] obtain q' k where IH: "trimCurrent q1 = Some q'" "known_ok q'"
      "config q' = config q1" "\<not> current_over q'" "m_current q' = take k (m_current q1)"
      "cur_map q' \<subseteq>\<^sub>m cur_map q1" "fut_map q' = fut_map q1" by blast
    have "trimCurrent q = Some q'"
      using True ne r(1) IH(1) by (subst trimCurrent.simps) (auto simp: current_over_def)
    moreover have "m_current q' = take (min k (length (m_current q) - 1)) (m_current q)"
      using IH(5) r(4) by (simp add: butlast_conv_take)
    ultimately show ?thesis
      using True IH r by (intro exI [of _ q']) (auto intro: map_le_trans)
  qed
qed

subsection \<open>manageImport\<close>

lemma known_ok_onReady [simp]: "known_ok (q\<lparr>m_onReady := k\<rparr>) = known_ok q"
  "config (q\<lparr>m_onReady := k\<rparr>) = config q" "current_over (q\<lparr>m_onReady := k\<rparr>) = current_over q"
  "cur_map (q\<lparr>m_onReady := k\<rparr>) = cur_map q" "fut_map (q\<lparr>m_onReady := k\<rparr>) = fut_map q"
  by (simp_all add: known_ok_def config_def current_over_def cur_map_def fut_map_def)

lemma fut_map_None: "fut_map q (a, n) = None \<longleftrightarrow> nlookup (m_future q) a n = None"
  by (simp add: fut_map_def)

lemma manageImport_occupied:
  assumes "known_ok q"
    and "cur_map q (tx_from t, tx_nonce t) \<noteq> None \<or> fut_map q (tx_from t, tx_nonce t) \<noteq> None"
  shows "manageImport_WITH_LOCK e (tx_sha3 t) t q = Some (SameNonceAlreadyInQueue, q)"
  using assms cur_map_None [of q] by (auto simp: manageImport_WITH_LOCK_def known_ok_def fut_map_None)

lemma manageImport_free:
  assumes "emplace_total e" and k: "known_ok q" and c: "comparable t" and h: "tx_sha3 t \<notin> m_known q"
    and a: "cur_map q (tx_from t, tx_nonce t) = None" and f: "fut_map q (tx_from t, tx_nonce t) = None"
  obtains q' where "manageImport_WITH_LOCK e (tx_sha3 t) t q = Some (Success, q')" and "known_ok q'"
    and "config q' = config q" and "\<not> current_over q'"
    and "cur_map q' \<subseteq>\<^sub>m fst (abs_insert t (abs_queue q))"
    and "fut_map q' = snd (abs_insert t (abs_queue q))"
proof -
  have core: "queue_core q" and kn: "m_known q = queue_hashes q" using k by (simp_all add: known_ok_def)
  have a': "nlookup (m_currentByAddressAndNonce q) (tx_from t) (tx_nonce t) = None"
    and f': "nlookup (m_future q) (tx_from t) (tx_nonce t) = None"
    using a f cur_map_None [OF core] by (simp_all add: fut_map_None)
  obtain q1 where i: "insertCurrent_WITH_LOCK e (tx_sha3 t) t q = Some (True, q1)" "queue_core q1"
    "queue_hashes q1 = insert (tx_sha3 t) (queue_hashes q)"
    "frame q1 = frame (q\<lparr>m_known := insert (tx_sha3 t) (m_known q)\<rparr>)"
    "abs_queue q1 = abs_insert t (abs_queue q)"
    using insertCurrent_correct [OF assms(1) core c _ a' f'] h kn by auto
  have "known_ok q1" "config q1 = config q"
    using i(2-4) kn by (simp_all add: known_ok_def frame_config)
  with trimCurrent_correct obtain q2 where "trimCurrent q1 = Some q2" "known_ok q2" "config q2 = config q"
    "\<not> current_over q2" "cur_map q2 \<subseteq>\<^sub>m cur_map q1" "fut_map q2 = fut_map q1" by metis
  then show thesis
    using i(1) a' f' i(5) that [of "q2\<lparr>m_onReady := Suc (m_onReady q2)\<rparr>"]
    by (simp add: manageImport_WITH_LOCK_def abs_queue_def prod_eq_iff)
qed

end
