(* ===== verification/TransactionQueue_Import.thy ===== *)
theory TransactionQueue_Import
  imports TransactionQueue_Ops
begin

text \<open>
  Demotion to the future map and the public operations of the transaction queue.
\<close>

subsection \<open>Current to future\<close>

lemma current_to_future:
  assumes core: "queue_core q" and i: "map_of (m_current q) i = Some vt"
  defines "q' \<equiv> push_future (VerifiedTransaction_move vt) (pull_current i vt q)"
  shows "queue_core q'" and "queue_hashes q' = queue_hashes q" and "frame q' = frame q"
    and "cur_map q' = (cur_map q)(vt_slot vt := None)"
    and "fut_map q' = (fut_map q)(vt_slot vt := cur_map q (vt_slot vt))"
proof -
  let ?w = "VerifiedTransaction_move vt" and ?r = "pull_current i vt q"
  note n = core_current_node [OF core i]
  note pull = core_pull_current [OF core i]
  have c: "comparable (vt_tx ?w)" and h: "vt_hash ?w \<notin> queue_hashes ?r"
    and a: "nlookup (m_currentByAddressAndNonce ?r) (tx_from (vt_tx ?w)) (tx_nonce (vt_tx ?w)) = None"
    and f: "nlookup (m_future ?r) (tx_from (vt_tx ?w)) (tx_nonce (vt_tx ?w)) = None"
    using n pull(2) by (simp_all add: pull_current_def)
  note push = core_push_future [OF pull(1) c h a f]
  show "queue_core q'" unfolding q'_def by (rule push(1))
  have "vt_hash vt \<in> queue_hashes q" using n(1) by (auto simp: queue_hashes_def)
  then show "queue_hashes q' = queue_hashes q" unfolding q'_def push(2) pull(2) by auto
  show "frame q' = frame q" by (simp add: q'_def)
  show "cur_map q' = (cur_map q)(vt_slot vt := None)" using core i by (simp add: q'_def)
  have "cur_map q (vt_slot vt) = Some (vt_tx vt)" using n(2) i by (simp add: cur_map_def vt_slot_def)
  then show "fut_map q' = (fut_map q)(vt_slot vt := cur_map q (vt_slot vt))"
    using pull(1) by (simp add: q'_def)
qed

abbreviation with_slots :: "address \<Rightarrow> (u256, nat) omap \<Rightarrow> queue \<Rightarrow> queue" where
  "with_slots a m q \<equiv> q\<lparr>m_currentByAddressAndNonce := nset a m (m_currentByAddressAndNonce q)\<rparr>"

lemma setFuture_loop_correct:
  "queue_core (with_slots a (pre @ m) q) \<Longrightarrow>
    \<exists>q'. setFuture_loop a m q = Some q' \<and> frame q' = frame q \<and> queue_core (with_slots a pre q') \<and>
      queue_hashes (with_slots a pre q') = queue_hashes (with_slots a (pre @ m) q) \<and>
      cur_map (with_slots a pre q') =
        (\<lambda>s. if s \<in> moved a m then None else cur_map (with_slots a (pre @ m) q) s) \<and>
      fut_map (with_slots a pre q') =
        (\<lambda>s. if s \<in> moved a m then cur_map (with_slots a (pre @ m) q) s
             else fut_map (with_slots a (pre @ m) q) s)"
proof (induction m arbitrary: q)
  case Nil
  then show ?case by (simp add: moved_def)
next
  case (Cons x m)
  obtain n i where x: "x = (n, i)" by fastforce
  let ?v = "with_slots a (pre @ (n, i) # m) q"
  have core: "queue_core ?v" using Cons.prems by (simp add: x)
  have ok: "current_ok ?v" using core by (simp add: queue_core_def)
  have om: "omap_ok (pre @ (n, i) # m)" using ninner_ok [OF queue_coreD(1) [OF core], of a] by simp
  have "map_of (pre @ (n, i) # m) n = Some i"
    using omap_ok_distinct [OF om] by (auto simp: map_add_Some_iff map_of_eq_None_iff)
  then have "nlookup (m_currentByAddressAndNonce ?v) a n = Some i" by simp
  then obtain vt where vt: "map_of (m_current ?v) i = Some vt" "vt_slot vt = (a, n)"
    using aix.indexes_node [OF current_okD(3) [OF ok], of "(a, n)" i] by auto
  note nd = core_current_node [OF core vt(1)]
  have s: "tx_from (vt_tx vt) = a" "tx_nonce (vt_tx vt) = n" using vt(2) by (simp_all add: vt_slot_def)
  define q1 where "q1 = q\<lparr>
      m_currentByHash := AList.delete (vt_hash vt) (m_currentByHash q),
      m_currentSizeBytes := m_currentSizeBytes q - of_nat (vt_size vt),
      m_futureSizeBytes := m_futureSizeBytes q + of_nat (vt_size vt),
      m_future := nset a (omap_emplace n (VerifiedTransaction_move vt) (ninner (m_future q) a)) (m_future q),
      m_current := AList.delete i (m_current q),
      m_futureSize := m_futureSize q + 1\<rparr>"
  have e: "omap_emplace n w (ninner (m_future q) a) = omap_put n w (ninner (m_future q) a)" for w
    using nd(3) by (simp add: omap_emplace_def s nlookup_def)
  have er: "omap_erase n (pre @ (n, i) # m) = pre @ m" by (rule omap_erase_append_Cons [OF om])
  have v1: "with_slots a (pre @ m) q1 = push_future (VerifiedTransaction_move vt) (pull_current i vt ?v)"
    by (simp add: q1_def push_future_def pull_current_def s e nput_def nerase_def er)
  note mv = current_to_future [OF core vt(1), folded v1, unfolded vt(2)]
  from Cons.IH [OF mv(1)] obtain q' where IH: "setFuture_loop a m q1 = Some q'" "frame q' = frame q1"
    "queue_core (with_slots a pre q')"
    "queue_hashes (with_slots a pre q') = queue_hashes (with_slots a (pre @ m) q1)"
    "cur_map (with_slots a pre q') =
      (\<lambda>s. if s \<in> moved a m then None else cur_map (with_slots a (pre @ m) q1) s)"
    "fut_map (with_slots a pre q') = (\<lambda>s. if s \<in> moved a m then cur_map (with_slots a (pre @ m) q1) s
           else fut_map (with_slots a (pre @ m) q1) s)" by blast
  have nm: "(a, n) \<notin> moved a m" using om by (force simp: omap_ok_append omap_ok_Cons moved_def)
  have mx: "moved a (x # m) = insert (a, n) (moved a m)" by (simp add: moved_def x)
  have "setFuture_loop a (x # m) q = Some q'"
    using IH(1) vt(1) by (simp add: x s q1_def)
  moreover have "frame q1 = frame q" by (simp add: q1_def frame_def)
  moreover have "cur_map (with_slots a pre q') = (\<lambda>s. if s \<in> moved a (x # m) then None else cur_map ?v s)"
    unfolding IH(5) mv(4) mx by (simp add: fun_eq_iff)
  moreover have "fut_map (with_slots a pre q') =
      (\<lambda>s. if s \<in> moved a (x # m) then cur_map ?v s else fut_map ?v s)"
    unfolding IH(6) mv(4,5) mx using nm by (auto simp: fun_eq_iff)
  ultimately show ?case using IH(2-4) mv(2) by (simp only: x) blast
qed

subsection \<open>The future limit\<close>

definition future_over :: "queue \<Rightarrow> bool" where
  "future_over q \<longleftrightarrow> m_futureSize q > m_futureLimit q \<or> m_futureSizeBytes q > m_futureSizeBytesLimit q"

definition future_count :: "queue \<Rightarrow> nat" where
  "future_count q = nsum (\<lambda>_. 1) (m_future q)"

lemma future_step:
  assumes k: "known_ok q" and "begin_member e" and o: "future_over q"
  defines "a \<equiv> future_begin e (map fst (m_future q))"
  defines "m \<equiv> ninner (m_future q) a"
  obtains n vt where "m \<noteq> []" and "last m = (n, vt)" and "nlookup (m_future q) a n = Some vt"
    and "nset a (butlast m) (m_future q) = nerase a n (m_future q)"
proof -
  have ok: "nmap_ok (m_future q)" using k queue_coreD(2) by (simp add: known_ok_def)
  have "m_future q \<noteq> []"
  proof
    assume "m_future q = []"
    then have "m_futureSize q = 0" "m_futureSizeBytes q = 0"
      using k by (simp_all add: known_ok_def queue_core_def future_ok_def)
    with o show False by (simp add: future_over_def)
  qed
  then have "map fst (m_future q) \<noteq> []" by simp
  then have "a \<in> set (map fst (m_future q))"
    unfolding a_def using assms(2) begin_member_def by blast
  then have "map_of (m_future q) a \<noteq> None" by (simp add: map_of_eq_None_iff)
  then have ne: "m \<noteq> []" using ninner_eq_Nil [OF ok] by (simp add: m_def)
  obtain n vt where l: "last m = (n, vt)" by fastforce
  then have m: "m = butlast m @ (n, vt) # []" using ne by (metis append_butlast_last_id)
  have om: "omap_ok m" using ok by (simp add: m_def)
  have "(n, vt) \<in> set m" using l ne last_in_set by metis
  then have "map_of m n = Some vt" using omap_ok_distinct [OF om] by simp
  moreover have "omap_erase n m = butlast m"
    using omap_erase_append_Cons [of "butlast m" n vt "[]"] om m by (metis append.right_neutral)
  ultimately show ?thesis using that [OF ne l] by (simp add: nlookup_def nerase_def m_def)
qed

lemma trimFuture_correct:
  assumes b: "begin_member e"
  shows "known_ok q \<Longrightarrow> \<exists>q'. trimFuture e q = Some q' \<and> known_ok q' \<and> config q' = config q \<and>
    \<not> future_over q' \<and> cur_map q' = cur_map q \<and> m_current q' = m_current q \<and>
    m_currentSizeBytes q' = m_currentSizeBytes q \<and> fut_map q' \<subseteq>\<^sub>m fut_map q \<and>
    (\<not> future_over q \<longrightarrow> q' = q)"
proof (induction "future_count q" arbitrary: q rule: less_induct)
  case less
  show ?case
  proof (cases "future_over q")
    case False
    then have "trimFuture e q = Some q" by (subst trimFuture.simps) (auto simp: future_over_def)
    with False less.prems show ?thesis by auto
  next
    case True
    have core: "queue_core q" using less.prems by (simp add: known_ok_def)
    let ?a = "future_begin e (map fst (m_future q))"
    let ?m = "ninner (m_future q) ?a"
    obtain n vt where m: "?m \<noteq> []" "last ?m = (n, vt)" "nlookup (m_future q) ?a n = Some vt"
      "nset ?a (butlast ?m) (m_future q) = nerase ?a n (m_future q)"
      using future_step [OF less.prems b True] .
    note en = core_future_entry [OF core m(3)]
    let ?q1 = "(pull_future vt q)\<lparr>m_known := m_known q - {vt_hash vt}\<rparr>"
    have q1: "known_ok ?q1"
      using core_pull_future [OF core m(3)] less.prems by (simp add: known_ok_def)
    have "nsum (\<lambda>_. 1) (nerase ?a n (m_future q)) + 1 = nsum (\<lambda>_. 1) (m_future q)"
      by (rule nsum_nerase [OF queue_coreD(2) [OF core] m(3)])
    then have "future_count ?q1 < future_count q"
      using en by (simp add: future_count_def pull_future_def)
    from less.hyps [OF this q1] obtain q' where IH: "trimFuture e ?q1 = Some q'" "known_ok q'"
      "config q' = config ?q1" "\<not> future_over q'" "cur_map q' = cur_map ?q1" "m_current q' = m_current ?q1"
      "m_currentSizeBytes q' = m_currentSizeBytes ?q1" "fut_map q' \<subseteq>\<^sub>m fut_map ?q1" by blast
    have eq: "?q1 = q\<lparr>m_futureSize := m_futureSize q - 1,
        m_futureSizeBytes := m_futureSizeBytes q - of_nat (vt_size vt),
        m_known := m_known q - {vt_hash vt}, m_future := nset ?a (butlast ?m) (m_future q)\<rparr>"
      using en by (simp add: pull_future_def m(4))
    have "trimFuture e q = trimFuture e ?q1"
      unfolding eq using True m(1,2) by (subst trimFuture.simps) (simp add: future_over_def Let_def)
    moreover have "fut_map ?q1 = fut_map (pull_future vt q)" "cur_map ?q1 = cur_map q"
      "m_current ?q1 = m_current q" "m_currentSizeBytes ?q1 = m_currentSizeBytes q"
      by (simp_all add: fut_map_def cur_map_def pull_future_def)
    moreover have "fut_map (pull_future vt q) \<subseteq>\<^sub>m fut_map q" by (simp add: map_le_def)
    ultimately show ?thesis
      using IH True by (intro exI [of _ q']) (auto intro: map_le_trans)
  qed
qed

definition abs_setFuture :: "transaction \<Rightarrow> slots \<times> slots \<Rightarrow> slots \<times> slots" where
  "abs_setFuture t = (\<lambda>(c, f).
     let later = {s. fst s = tx_from t \<and> tx_nonce t \<le> snd s \<and> c s \<noteq> None} in
     (\<lambda>s. if s \<in> later then None else c s, \<lambda>s. if s \<in> later then c s else f s))"

lemma moved_later:
  assumes core: "queue_core q"
  shows "moved a (omap_from n (ninner (m_currentByAddressAndNonce q) a)) =
    {s. fst s = a \<and> n \<le> snd s \<and> cur_map q s \<noteq> None}"
proof -
  let ?m = "ninner (m_currentByAddressAndNonce q) a"
  have om: "omap_ok ?m" using queue_coreD(1) [OF core] by simp
  have "k \<in> fst ` set ?m \<longleftrightarrow> cur_map q (a, k) \<noteq> None" for k
    using cur_map_None [OF core, of a k] map_of_eq_None_iff [of ?m k] by (auto simp: nlookup_def)
  then show ?thesis
    using set_omap_from [OF om, of n] by (force simp: moved_def)
qed

lemma setFuture_correct:
  assumes b: "begin_member e" and k: "known_ok q" and i: "map_of (m_currentByHash q) h = Some i"
  obtains t q' where "tx_sha3 t = h" and "cur_map q (tx_from t, tx_nonce t) = Some t"
    and "setFuture_WITH_LOCK e h q = Some q'" and "known_ok q'" and "config q' = config q"
    and "\<not> future_over q'" and "cur_map q' = fst (abs_setFuture t (abs_queue q))"
    and "fut_map q' \<subseteq>\<^sub>m snd (abs_setFuture t (abs_queue q))"
proof -
  have core: "queue_core q" and kn: "m_known q = queue_hashes q" using k by (simp_all add: known_ok_def)
  obtain vt where vt: "map_of (m_current q) i = Some vt" "vt_hash vt = h"
    using remove_correct(2) [OF core i] by blast
  let ?a = "tx_from (vt_tx vt)" and ?n = "tx_nonce (vt_tx vt)"
  let ?m = "ninner (m_currentByAddressAndNonce q) ?a"
  have v: "with_slots ?a (omap_before ?n ?m @ omap_from ?n ?m) q = q"
    using nset_ninner [OF queue_coreD(1) [OF core]] by (simp add: omap_before_from)
  obtain q1 where l: "setFuture_loop ?a (omap_from ?n ?m) q = Some q1" "frame q1 = frame q"
    "queue_core (with_slots ?a (omap_before ?n ?m) q1)"
    "queue_hashes (with_slots ?a (omap_before ?n ?m) q1) = queue_hashes q"
    "cur_map (with_slots ?a (omap_before ?n ?m) q1) =
      (\<lambda>s. if s \<in> moved ?a (omap_from ?n ?m) then None else cur_map q s)"
    "fut_map (with_slots ?a (omap_before ?n ?m) q1) =
      (\<lambda>s. if s \<in> moved ?a (omap_from ?n ?m) then cur_map q s else fut_map q s)"
    using setFuture_loop_correct [of ?a "omap_before ?n ?m" "omap_from ?n ?m" q, unfolded v, OF core] by blast
  let ?q2 = "with_slots ?a (omap_before ?n ?m) q1"
  have q2: "known_ok ?q2" "config ?q2 = config q"
    using l(2-4) kn by (simp_all add: known_ok_def frame_def config_def)
  obtain q' where t: "trimFuture e ?q2 = Some q'" "known_ok q'" "config q' = config ?q2" "\<not> future_over q'"
    "cur_map q' = cur_map ?q2" "fut_map q' \<subseteq>\<^sub>m fut_map ?q2"
    using trimFuture_correct [OF b q2(1)] by blast
  have "setFuture_WITH_LOCK e h q = Some q'"
    using i vt l(1) t(1) by (simp add: setFuture_WITH_LOCK_def Let_def)
  moreover have "cur_map q (?a, ?n) = Some (vt_tx vt)"
    using core_current_node(2) [OF core vt(1)] vt(1) by (simp add: cur_map_def)
  moreover have "(cur_map ?q2, fut_map ?q2) = abs_setFuture (vt_tx vt) (abs_queue q)"
    unfolding l(5,6) moved_later [OF core] by (simp add: abs_setFuture_def abs_queue_def Let_def)
  ultimately show thesis
    using that [of "vt_tx vt" q'] vt t q2(2) by (simp add: prod_eq_iff)
qed

subsection \<open>Import\<close>

lemma queue_wf_alt: "queue_wf q \<longleftrightarrow> known_ok q \<and> dropped_ok q"
  by (auto simp: queue_wf_def known_ok_def)

lemma dropped_ok_config: "config q' = config q \<Longrightarrow> dropped_ok q' = dropped_ok q"
  by (simp add: config_def dropped_ok_def)

lemma maps_dropped [simp]:
  "known_ok (q\<lparr>m_dropped := d\<rparr>) = known_ok q" "cur_map (q\<lparr>m_dropped := d\<rparr>) = cur_map q"
  "fut_map (q\<lparr>m_dropped := d\<rparr>) = fut_map q" "abs_queue (q\<lparr>m_dropped := d\<rparr>) = abs_queue q"
  by (simp_all add: known_ok_def queue_hashes_def future_hashes_def cur_map_def fut_map_def abs_queue_def
      queue_core_def current_ok_def future_ok_def disjoint_ok_def)

lemma import_unfuture_correct:
  fixes t :: transaction
  assumes k: "known_ok q"
  defines "q' \<equiv> import_unfuture t q"
  shows "known_ok q'" and "config q' = config q" and "cur_map q' = cur_map q"
    and "fut_map q' = (fut_map q)((tx_from t, tx_nonce t) := None)"
    and "m_known q' = m_known q -
      (case fut_map q (tx_from t, tx_nonce t) of None \<Rightarrow> {} | Some u \<Rightarrow> {tx_sha3 u})"
proof -
  have core: "queue_core q" using k by (simp add: known_ok_def)
  have "known_ok q' \<and> config q' = config q \<and> cur_map q' = cur_map q \<and>
      fut_map q' = (fut_map q)((tx_from t, tx_nonce t) := None) \<and> m_known q' = m_known q -
      (case fut_map q (tx_from t, tx_nonce t) of None \<Rightarrow> {} | Some u \<Rightarrow> {tx_sha3 u})"
  proof (cases "nlookup (m_future q) (tx_from t) (tx_nonce t)")
    case None
    then have "fut_map q (tx_from t, tx_nonce t) = None" by (simp add: fut_map_None)
    then have "(fut_map q)((tx_from t, tx_nonce t) := None) = fut_map q" by (simp add: fun_eq_iff)
    with None k show ?thesis by (simp add: q'_def import_unfuture_def fut_map_def)
  next
    case (Some vt)
    note en = core_future_entry [OF core Some]
    have q': "q' = (pull_future vt q)\<lparr>m_known := m_known q - {vt_hash vt}\<rparr>"
      using Some en by (simp add: q'_def import_unfuture_def pull_future_def)
    have "fut_map q' = fut_map (pull_future vt q)" "cur_map q' = cur_map q"
      by (simp_all add: q' fut_map_def cur_map_def pull_future_def)
    moreover have "vt_slot vt = (tx_from t, tx_nonce t)" using en by (simp add: vt_slot_def)
    moreover have "fut_map q (tx_from t, tx_nonce t) = Some (vt_tx vt)" using Some by (simp add: fut_map_def)
    ultimately show ?thesis
      using core_pull_future [OF core Some] k by (simp add: q' known_ok_def)
  qed
  then show "known_ok q'" "config q' = config q" "cur_map q' = cur_map q"
    "fut_map q' = (fut_map q)((tx_from t, tx_nonce t) := None)"
    "m_known q' = m_known q - (case fut_map q (tx_from t, tx_nonce t) of None \<Rightarrow> {} | Some u \<Rightarrow> {tx_sha3 u})"
    by blast+
qed

lemma check_correct:
  assumes "known_ok q" and "dropped_ok q"
  obtains d where "check_WITH_LOCK h ik q = Some
      (if h \<in> m_known q then AlreadyKnown
       else if map_of (lru_abs (m_dropped q)) h \<noteq> None \<and> ik = Ignore then AlreadyInChain else Success,
       q\<lparr>m_dropped := d\<rparr>)"
    and "dropped_ok (q\<lparr>m_dropped := d\<rparr>)"
    and "lru_abs d = (if h \<in> m_known q then lru_abs (m_dropped q) else mtf_touch h (lru_abs (m_dropped q)))"
proof (cases "h \<in> m_known q")
  case True
  then show ?thesis using that [of "m_dropped q"] assms by (simp add: check_WITH_LOCK_def)
next
  case False
  have l: "lru_ok (m_dropped q)" using assms(2) by (simp add: dropped_ok_def)
  obtain d where d: "lru_touch h (m_dropped q) = Some (map_of (lru_abs (m_dropped q)) h \<noteq> None, d)"
    "lru_ok d" "lru_abs d = mtf_touch h (lru_abs (m_dropped q))" using lru_touch_correct [OF l] .
  then show ?thesis
    using that [of d] False assms(2) lru_touch_capacity [OF d(1)]
    by (simp add: check_WITH_LOCK_def dropped_ok_def)
qed

text \<open>The result of an import of a signed transaction, as a function of what the queue holds.\<close>

definition import_verdict :: "transaction \<Rightarrow> if_dropped \<Rightarrow> queue \<Rightarrow> import_result" where
  "import_verdict t ik q =
     (let s = (tx_from t, tx_nonce t) in
      if tx_zeroSig t then ZeroSignature
      else if tx_sha3 t \<in> m_known q \<and> map_option tx_sha3 (fut_map q s) \<noteq> Some (tx_sha3 t) then AlreadyKnown
      else if map_of (lru_abs (m_dropped q)) (tx_sha3 t) \<noteq> None \<and> ik = Ignore then AlreadyInChain
      else if cur_map q s \<noteq> None then SameNonceAlreadyInQueue
      else Success)"

lemma import_correct:
  assumes "emplace_total e" and b: "begin_member e" and wf: "queue_wf q"
    and c: "tx_zeroSig t \<or> comparable t"
  obtains q' where "import_tx e t ik isFuture q = Some (import_verdict t ik q, q')" and "queue_wf q'"
    and "import_verdict t ik q = Success \<Longrightarrow> \<not> isFuture \<Longrightarrow> \<not> current_over q' \<and>
      cur_map q' \<subseteq>\<^sub>m fst (abs_insert t (cur_map q, (fut_map q)((tx_from t, tx_nonce t) := None)))"
    and "import_verdict t ik q \<noteq> Success \<Longrightarrow> cur_map q' = cur_map q"
    and "import_verdict t ik q = Success \<Longrightarrow> isFuture \<Longrightarrow>
      \<not> future_over q' \<or> map_of (m_currentByHash q') (tx_sha3 t) = None"
proof (cases "tx_zeroSig t")
  case True
  then show ?thesis using that [of q] wf by (simp add: import_tx_def import_verdict_def)
next
  case False
  have co: "comparable t" and inv: "\<not> isInvalid t"
    using c False by (auto simp: comparable_def isTransaction_def isInvalid_def)
  have k: "known_ok q" and d: "dropped_ok q" using wf by (simp_all add: queue_wf_alt)
  let ?s = "(tx_from t, tx_nonce t)" and ?h = "tx_sha3 t"
  let ?q0 = "import_unfuture t q"
  note u = import_unfuture_correct [OF k, of t]
  have d0: "dropped_ok ?q0" using dropped_ok_config [OF u(2)] d by simp
  have kn: "?h \<in> m_known ?q0 \<longleftrightarrow> ?h \<in> m_known q \<and> map_option tx_sha3 (fut_map q ?s) \<noteq> Some ?h"
    unfolding u(5) by (auto split: option.splits)
  have dr: "m_dropped ?q0 = m_dropped q" using u(2) by (simp add: config_def)
  obtain dd where ch: "check_WITH_LOCK ?h ik ?q0 = Some
      (if ?h \<in> m_known ?q0 then AlreadyKnown
       else if map_of (lru_abs (m_dropped ?q0)) ?h \<noteq> None \<and> ik = Ignore then AlreadyInChain else Success,
       ?q0\<lparr>m_dropped := dd\<rparr>)" "dropped_ok (?q0\<lparr>m_dropped := dd\<rparr>)"
    using check_correct [OF u(1) d0] .
  let ?q1 = "?q0\<lparr>m_dropped := dd\<rparr>"
  have k1: "known_ok ?q1" using u(1) by simp
  show ?thesis
  proof (cases "?h \<in> m_known ?q0 \<or> (map_of (lru_abs (m_dropped q)) ?h \<noteq> None \<and> ik = Ignore)")
    case True
    with False inv ch(1) kn have "import_tx e t ik isFuture q = Some (import_verdict t ik q, ?q1)"
      "import_verdict t ik q \<noteq> Success"
      by (auto simp: import_tx_def import_verdict_def Let_def dr)
    with that [of ?q1] u(3) k1 ch(2) show ?thesis by (simp add: queue_wf_alt)
  next
    case ok: False
    then have ch1: "check_WITH_LOCK ?h ik ?q0 = Some (Success, ?q1)" using ch(1) by (simp add: dr)
    have f1: "fut_map ?q1 ?s = None" using u(4) by simp
    show ?thesis
    proof (cases "cur_map q ?s")
      case (Some x)
      then have "manageImport_WITH_LOCK e ?h t ?q1 = Some (SameNonceAlreadyInQueue, ?q1)"
        using manageImport_occupied [OF k1] u(3) by simp
      moreover have "map_of (m_currentByHash ?q1) ?h = None"
      proof -
        have "?h \<notin> queue_hashes ?q0" using ok u(1) by (simp add: known_ok_def)
        then show ?thesis by (auto simp: queue_hashes_def)
      qed
      moreover have "import_verdict t ik q = SameNonceAlreadyInQueue"
        using False ok kn Some by (auto simp: import_verdict_def Let_def)
      ultimately show ?thesis
        using that [of ?q1] False inv ch1 k1 ch(2) u(3)
        by (simp add: import_tx_def queue_wf_alt setFuture_WITH_LOCK_def)
    next
      case None
      have v: "import_verdict t ik q = Success" using False ok kn None by (auto simp: import_verdict_def Let_def)
      obtain q2 where m: "manageImport_WITH_LOCK e ?h t ?q1 = Some (Success, q2)" "known_ok q2"
        "config q2 = config ?q1" "\<not> current_over q2" "cur_map q2 \<subseteq>\<^sub>m fst (abs_insert t (abs_queue ?q1))"
        using manageImport_free [OF assms(1) k1 co] ok None u(3) f1 by auto
      have ab: "abs_queue ?q1 = (cur_map q, (fut_map q)(?s := None))" using u(3,4) by (simp add: abs_queue_def)
      have d2: "dropped_ok q2" using dropped_ok_config [OF m(3)] ch(2) by simp
      show ?thesis
      proof (cases isFuture)
        case True
        obtain q3 where s: "setFuture_WITH_LOCK e ?h q2 = Some q3" "known_ok q3" "config q3 = config q2"
          "\<not> future_over q3 \<or> map_of (m_currentByHash q3) ?h = None"
        proof (cases "map_of (m_currentByHash q2) ?h")
          case None
          then show ?thesis using that [of q2] m(2) by (simp add: setFuture_WITH_LOCK_def)
        next
          case (Some i)
          obtain r where r: "setFuture_WITH_LOCK e ?h q2 = Some r" "known_ok r" "config r = config q2"
            "\<not> future_over r" using setFuture_correct [OF b m(2) Some] .
          then show ?thesis using that [of r] by simp
        qed
        then show ?thesis
          using that [of q3] v True False inv ch1 m(1) d2 dropped_ok_config [OF s(3)]
          by (simp add: import_tx_def queue_wf_alt)
      next
        case nf: False
        then show ?thesis
          using that [of q2] v False inv ch1 m d2 ab by (simp add: import_tx_def queue_wf_alt)
      qed
    qed
  qed
qed

end
