(* ===== verification/TransactionQueue_Runs.thy ===== *)
theory TransactionQueue_Runs
  imports TransactionQueue_Import
begin

text \<open>
  The operations besides import, reading by category, and runs of operations.
\<close>

subsection \<open>The remaining operations keep the queue well-formed\<close>

lemma drop_correct:
  assumes "queue_wf q"
  obtains q' where "drop_tx h q = Some q'" and "queue_wf q'"
proof (cases "h \<in> m_known q")
  case False
  then show ?thesis using that assms by (simp add: drop_tx_def)
next
  case True
  have l: "lru_ok (m_dropped q)" and c: "lru_capacity (m_dropped q) \<noteq> 0"
    and k: "known_ok q" using assms by (simp_all add: queue_wf_alt dropped_ok_def)
  obtain n d where d: "lru_insert h True (m_dropped q) = Some (n, d)" "lru_ok d"
    "lru_capacity d = lru_capacity (m_dropped q)"
    using lru_insert_correct [OF l c] .
  have k1: "known_ok (q\<lparr>m_dropped := d\<rparr>)" using k by simp
  obtain b q' where r: "remove_WITH_LOCK h (q\<lparr>m_dropped := d\<rparr>) = Some (b, q')" "known_ok q'"
    "config q' = config (q\<lparr>m_dropped := d\<rparr>)"
    using remove_known [OF k1] .
  have "dropped_ok q'"
    using dropped_ok_config [OF r(3)] assms d(2,3) by (simp add: queue_wf_alt dropped_ok_def)
  with that r True d(1) show ?thesis by (simp add: drop_tx_def queue_wf_alt)
qed

lemma dropGood_correct:
  assumes "emplace_total e" and "queue_wf q"
  obtains q' where "dropGood e t q = Some q'" and "queue_wf q'"
proof -
  have k: "known_ok q" and d: "dropped_ok q" using assms(2) by (simp_all add: queue_wf_alt)
  obtain q1 where q1: "(if isInvalid t then Some q else makeCurrent_WITH_LOCK e t q) = Some q1"
    "known_ok q1" "dropped_ok q1"
  proof (cases "isInvalid t")
    case True
    then show ?thesis using that k d by simp
  next
    case False
    have core: "queue_core q" using k by (simp add: known_ok_def)
    obtain q1 where "makeCurrent_WITH_LOCK e t q = Some q1" "queue_core q1"
      "queue_hashes q1 = queue_hashes q" "frame q1 = frame q"
      using makeCurrent_correct [OF assms(1) core] .
    then show ?thesis using that [of q1] False k d
      by (simp add: known_ok_def frame_def dropped_ok_def)
  qed
  show thesis
  proof (cases "tx_sha3 t \<in> m_known q1")
    case False
    then show ?thesis using that q1 by (simp add: dropGood_def queue_wf_alt)
  next
    case True
    obtain b q' where r: "remove_WITH_LOCK (tx_sha3 t) q1 = Some (b, q')" "known_ok q'" "config q' = config q1"
      using remove_known [OF q1(2)] .
    then show ?thesis using that [of q'] True q1 dropped_ok_config [OF r(3)]
      by (simp add: dropGood_def queue_wf_alt)
  qed
qed

lemma nlookup_Nil [simp]: "nlookup [] a n = None"
  by (simp add: nlookup_def ninner_def)

lemma indexes_empty: "aix.indexes [] Map.empty" "hix.indexes [] Map.empty"
  by (simp_all add: aix.indexes_def hix.indexes_def split_beta)

lemmas wf_defs = queue_wf_alt known_ok_def queue_core_def current_ok_def future_ok_def disjoint_ok_def
  queue_hashes_def future_hashes_def dropped_ok_def

lemma clear_correct: "queue_wf q \<Longrightarrow> queue_wf (clear q)"
  by (simp add: wf_defs clear_def indexes_empty) (simp add: lru_clear_def)

lemma new_correct: "queue_wf (TransactionQueue_new l f cb fb)"
  by (simp add: wf_defs TransactionQueue_new_def indexes_empty) (simp add: lru_new_def)

lemma wf_unverified [simp]: "queue_wf (q\<lparr>m_unverified := u\<rparr>) = queue_wf q"
  by (simp add: queue_wf_alt known_ok_def queue_core_def current_ok_def future_ok_def disjoint_ok_def
      queue_hashes_def future_hashes_def dropped_ok_def)

lemma enqueue_loop_wf:
  "queue_wf q \<Longrightarrow> queue_wf (snd (enqueue_loop d w i n c q))"
  by (induction d w i n c q rule: enqueue_loop.induct) (auto split: sum.splits)

lemma enqueue_wf: "queue_wf q \<Longrightarrow> queue_wf (snd (enqueue d w q))"
  by (auto simp: enqueue_def enqueue_loop_wf split: sum.splits)

lemma enqueue_loop_bounded:
  "length (m_unverified q) \<le> c_maxVerificationQueueSize \<Longrightarrow>
     length (m_unverified (snd (enqueue_loop d w i n c q))) \<le> c_maxVerificationQueueSize"
  by (induction d w i n c q rule: enqueue_loop.induct) (auto split: sum.splits)

subsection \<open>Reading by category\<close>

lemma topCategory_loop_read:
  assumes "distinct (map fst (m_current q))"
  shows "topCategory_loop e False limit
      (if p < length (m_current q) then Some (fst (m_current q ! p)) else None) q =
    Some (map (vt_tx \<circ> snd) (take limit (drop p (m_current q))), [], q)"
proof (induction limit arbitrary: p)
  case 0
  then show ?case by simp
next
  case (Suc limit)
  show ?case
  proof (cases "p < length (m_current q)")
    case False
    then show ?thesis by simp
  next
    case True
    let ?c = "m_current q"
    have m: "map_of ?c (fst (?c ! p)) = Some (snd (?c ! p))" using assms True by simp
    have succ: "succ_of l (fst (l ! k)) = (if Suc k < length l then Some (fst (l ! Suc k)) else None)"
      if "distinct (map fst l)" "k < length l" for l :: "(nat \<times> 'z) list" and k
      using that
    proof (induction l arbitrary: k)
      case (Cons x l)
      show ?case
      proof (cases k)
        case 0
        then show ?thesis by (cases l) auto
      next
        case (Suc k')
        then have "fst x \<noteq> fst (l ! k')" using Cons.prems by (auto dest: nth_mem)
        with Suc Cons show ?thesis by auto
      qed
    qed simp
    have "drop p ?c = ?c ! p # drop (Suc p) ?c" using True by (rule Cons_nth_drop_Suc [symmetric])
    then show ?thesis
      using True m Suc.IH [of "Suc p"] succ [OF assms True] by simp
  qed
qed

lemma core_height:
  assumes core: "queue_core q" and x: "x \<in> set (m_current q)"
  shows "\<exists>h. height q (vt_tx (snd x)) = Inr h"
proof -
  have ok: "current_ok q" using core by (simp add: queue_core_def)
  have "map_of (m_current q) (fst x) = Some (snd x)" using x current_okD(1) [OF ok] by simp
  note n = current_node [OF ok this]
  show ?thesis using comparable_height [OF n(3)] n(2) by auto
qed

lemma indexes_same_tx:
  assumes "\<And>j. map_option vt_tx (s' j) = map_option vt_tx (s j)"
  shows "hix.indexes m s' = hix.indexes m s" and "aix.indexes n s' = aix.indexes n s"
proof -
  have *: "(\<exists>v. s' j = Some v \<and> P (vt_tx v)) = (\<exists>v. s j = Some v \<and> P (vt_tx v))" for j P
    using assms [of j] by (cases "s j"; cases "s' j") auto
  show "hix.indexes m s' = hix.indexes m s" by (simp add: hix.indexes_def * [of _ "\<lambda>t. tx_sha3 t = k" for k])
  show "aix.indexes n s' = aix.indexes n s"
    unfolding aix.indexes_def vt_slot_def by (simp add: * [of _ "\<lambda>t. (tx_from t, tx_nonce t) = k" for k])
qed

lemma recategorise:
  assumes wf: "queue_wf q" and i: "map_of (m_current q) i = Some vt" and t: "vt_tx vt' = vt_tx vt"
  defines "c \<equiv> AList.delete i (m_current q)"
  shows "queue_wf (q\<lparr>m_current := take p c @ (i, vt') # drop p c\<rparr>)"
proof -
  have ok: "current_ok q" using wf by (simp add: queue_wf_def queue_core_def)
  let ?c = "take p c @ (i, vt') # drop p c"
  have d: "distinct (map fst c)" "map_of c i = None"
    using current_okD(1) [OF ok] by (simp_all add: c_def distinct_delete delete_conv')
  have m: "map_of ?c = (map_of (m_current q))(i \<mapsto> vt')"
    using map_of_insert_at [OF d(2)] by (simp add: c_def delete_conv')
  then have "map_option vt_tx (map_of ?c j) = map_option vt_tx (map_of (m_current q) j)" for j
    using i t by simp
  note ix = indexes_same_tx [of "map_of ?c" "map_of (m_current q)", OF this]
  have "osum vt_size ?c = osum vt_size c + vt_size vt" by (simp only: osum_insert_at t)
  also have "\<dots> = osum vt_size (m_current q)"
    unfolding c_def by (rule osum_delete [OF current_okD(1) [OF ok] i])
  finally have o: "osum vt_size ?c = osum vt_size (m_current q)" .
  have "(i, vt) \<in> set (m_current q)" using i by (rule map_of_SomeD)
  then have "\<forall>x\<in>set ?c. fst x < m_next q \<and> comparable (vt_tx (snd x))"
    using ok t unfolding set_insert_at by (auto simp: current_ok_def c_def AList.delete_eq)
  moreover have "distinct (map fst ?c)" by (rule distinct_insert_at [OF d])
  ultimately have "current_ok (q\<lparr>m_current := ?c\<rparr>)"
    using ok ix o by (simp add: current_ok_def del: map_append map_of_append osum_append set_append)
  then show ?thesis
    using wf by (simp add: wf_defs del: map_append map_of_append osum_append set_append)
qed

lemma emplace_existing:
  assumes "emplace_total e" and core: "queue_core q" and i: "map_of (m_current q) i = Some vt"
    and t: "vt_tx vt' = vt_tx vt"
  obtains p where "emplace_pos e (PriorityCompare (q\<lparr>m_current := c\<rparr>)) vt'
      (map snd (AList.delete i (m_current q))) = Inr p"
proof -
  have h: "height (q\<lparr>m_current := c\<rparr>) u = height q u" for u
    by (cases "tx_sender u") (simp_all add: height_def)
  have x: "(i, vt) \<in> set (m_current q)" using i by (rule map_of_SomeD)
  have hx: "\<exists>h. height q (vt_tx vt') = Inr h" using core_height [OF core x] by (simp add: t)
  have "(\<exists>b. PriorityCompare (q\<lparr>m_current := c\<rparr>) vt' y = Inr b) \<and>
      (\<exists>b. PriorityCompare (q\<lparr>m_current := c\<rparr>) y vt' = Inr b)"
    if yc: "y \<in> set (map snd (AList.delete i (m_current q)))" for y
  proof -
    obtain j where y: "(j, y) \<in> set (m_current q)" using yc by (auto simp: AList.delete_eq)
    have "isTransaction (vt_tx y)" "isTransaction (vt_tx vt')"
      using core x y t by (auto simp: queue_core_def current_ok_def comparable_def)
    with hx core_height [OF core y] show ?thesis by (auto simp: h intro!: PriorityCompare_Inr)
  qed
  then obtain p where "emplace_pos e (PriorityCompare (q\<lparr>m_current := c\<rparr>)) vt'
      (map snd (AList.delete i (m_current q))) = Inr p"
    using assms(1) unfolding emplace_total_def by blast
  with that show ?thesis .
qed

lemma topTransactions_category_extract:
  assumes "emplace_total e" and wf: "queue_wf q" and "setCat \<ge> 0" and "unat limit \<le> 1"
  obtains ts q' where "topTransactions_category e limit maxCat setCat q = Some (ts, q')" and "queue_wf q'"
    and "length ts \<le> 1"
proof -
  define P where "P = lower_pos e (\<lambda>vt. if isTransaction (vt_tx vt) then category vt > maxCat
      else category vt < maxCat) (map snd (m_current q))"
  have unf: "topTransactions_category e limit maxCat setCat q =
      Option.bind (topCategory_loop e True (unat limit)
        (if P < length (m_current q) then Some (fst (m_current q ! P)) else None) q) (\<lambda>(ts, found, q1).
        Option.bind (reinsert e setCat found q1) (\<lambda>q2. map_option (\<lambda>sorted. (sorted, q2)) (priority_sort q2 ts)))"
    unfolding topTransactions_category_def Let_def P_def [symmetric] using assms(3) by simp
  have core: "queue_core q" and ok: "current_ok q" using wf by (simp_all add: queue_wf_def queue_core_def)
  show thesis
  proof (cases "unat limit = 1 \<and> P < length (m_current q)")
    case False
    with assms(4) have "topTransactions_category e limit maxCat setCat q = Some ([], q)"
      by (cases "unat limit") (auto simp: unf priority_sort_def)
    with that [of "[]" q] wf show ?thesis by simp
  next
    case True
    define x c where "x = m_current q ! P" and "c = AList.delete (fst x) (m_current q)"
    have i: "map_of (m_current q) (fst x) = Some (snd x)" using current_okD(1) [OF ok] True by (simp add: x_def)
    define vt' where "vt' = (snd x)\<lparr>category := setCat\<rparr>"
    have t: "vt_tx vt' = vt_tx (snd x)" by (simp add: vt'_def)
    obtain p where p: "emplace_pos e (PriorityCompare (q\<lparr>m_current := c\<rparr>)) vt' (map snd c) = Inr p"
      using emplace_existing [OF assms(1) core i t, of c] unfolding c_def .
    let ?q = "q\<lparr>m_current := take p c @ (fst x, vt') # drop p c\<rparr>"
    have "topTransactions_category e limit maxCat setCat q = Some ([vt_tx (snd x)], ?q)"
    proof -
      have "reinsert e setCat [x] (q\<lparr>m_current := c\<rparr>) = Some ?q" using p by (cases x) (simp add: vt'_def)
      then show ?thesis
        unfolding unf x_def [symmetric] using True i by (simp add: priority_sort_def c_def [symmetric])
    qed
    with that [of "[vt_tx (snd x)]" ?q] recategorise [OF wf i t, folded c_def] show ?thesis by simp
  qed
qed

lemma topTransactions_category_read:
  assumes wf: "queue_wf q" and "setCat < 0"
  obtains p where "topTransactions_category e limit maxCat setCat q =
    Some (sort_key (priority_key q) (map (vt_tx \<circ> snd) (take (unat limit) (drop p (m_current q)))), q)"
proof -
  have core: "queue_core q" and ok: "current_ok q" using wf by (simp_all add: queue_wf_def queue_core_def)
  define P where "P = lower_pos e (\<lambda>vt. if isTransaction (vt_tx vt) then category vt > maxCat
      else category vt < maxCat) (map snd (m_current q))"
  let ?ts = "map (vt_tx \<circ> snd) (take (unat limit) (drop P (m_current q)))"
  have "\<exists>h. height q t = Inr h" if "t \<in> set ?ts" for t
    using that core_height [OF core] by (auto dest!: in_set_takeD in_set_dropD)
  then have "priority_sort q ?ts = Some (sort_key (priority_key q) ?ts)"
    by (fastforce simp: priority_sort_def)
  then have "topTransactions_category e limit maxCat setCat q = Some (sort_key (priority_key q) ?ts, q)"
    unfolding topTransactions_category_def Let_def P_def [symmetric]
    using assms(2) topCategory_loop_read [OF current_okD(1) [OF ok], of e "unat limit" P] by simp
  with that show ?thesis .
qed

lemma current_height:
  assumes core: "queue_core q" and x: "x \<in> set (m_current q)"
  obtains n where "height q (vt_tx (snd x)) = Inr (tx_nonce (vt_tx (snd x)) - n)"
    and "fst (hd (ninner (m_currentByAddressAndNonce q) (tx_from (vt_tx (snd x))))) = n"
    and "n \<le> tx_nonce (vt_tx (snd x))"
proof -
  have ok: "current_ok q" using core by (simp add: queue_core_def)
  let ?t = "vt_tx (snd x)"
  let ?m = "ninner (m_currentByAddressAndNonce q) (tx_from ?t)"
  have i: "map_of (m_current q) (fst x) = Some (snd x)" using x current_okD(1) [OF ok] by simp
  note n = current_node [OF ok i]
  have om: "omap_ok ?m" using current_okD(5) [OF ok] by simp
  have "(tx_nonce ?t, fst x) \<in> set ?m" using n(2) by (simp add: nlookup_def map_of_SomeD)
  then obtain k j m' where m: "?m = (k, j) # m'" by (cases ?m) auto
  have "k \<le> tx_nonce ?t"
    using \<open>(tx_nonce ?t, fst x) \<in> set ?m\<close> om by (force simp: m omap_ok_Cons)
  moreover have "height q ?t = Inr (tx_nonce ?t - k)"
    using n(3) m by (auto simp: height_def comparable_def tx_from_def split: option.splits)
  ultimately show ?thesis using that m by simp
qed

lemma priority_nonce:
  assumes core: "queue_core q" and x: "x \<in> set (m_current q)" and y: "y \<in> set (m_current q)"
    and s: "tx_from (vt_tx (snd x)) = tx_from (vt_tx (snd y))"
    and k: "priority_key q (vt_tx (snd x)) \<le> priority_key q (vt_tx (snd y))"
  shows "tx_nonce (vt_tx (snd x)) \<le> tx_nonce (vt_tx (snd y))"
proof -
  let ?t = "vt_tx (snd x)" and ?u = "vt_tx (snd y)"
  obtain n where n: "height q ?t = Inr (tx_nonce ?t - n)" "n \<le> tx_nonce ?t"
    "fst (hd (ninner (m_currentByAddressAndNonce q) (tx_from ?t))) = n"
    using current_height [OF core x] by blast
  obtain m where m: "height q ?u = Inr (tx_nonce ?u - m)" "m \<le> tx_nonce ?u"
    "fst (hd (ninner (m_currentByAddressAndNonce q) (tx_from ?u))) = m"
    using current_height [OF core y] by blast
  have "m = n" using n(3) m(3) s by simp
  have "isTransaction ?t" "isTransaction ?u"
    using core x y by (auto simp: queue_core_def current_ok_def comparable_def)
  with k have "unat (tx_nonce ?t - n) \<le> unat (tx_nonce ?u - n)"
    unfolding priority_key_def sort_height_def by (auto simp: n(1) m(1) \<open>m = n\<close> less_eq_prod_def split: if_splits)
  then show ?thesis using n(2) m(2) \<open>m = n\<close> by (simp add: unat_sub word_le_nat_alt)
qed

lemma current_tx_inj:
  assumes core: "queue_core q" and x: "x \<in> set (m_current q)" and y: "y \<in> set (m_current q)"
    and s: "vt_slot (snd x) = vt_slot (snd y)"
  shows "x = y"
proof -
  have ok: "current_ok q" using core by (simp add: queue_core_def)
  have "map_of (m_current q) (fst x) = Some (snd x)" "map_of (m_current q) (fst y) = Some (snd y)"
    using x y current_okD(1) [OF ok] by simp_all
  with aix.indexes_unique [OF current_okD(3) [OF ok]] s have "fst x = fst y" by blast
  with x y current_okD(1) [OF ok] show ?thesis by (metis eq_key_imp_eq_value prod.collapse)
qed

lemma current_distinct:
  assumes core: "queue_core q"
  shows "distinct (map (vt_tx \<circ> snd) (m_current q))"
proof -
  have "inj_on (vt_tx \<circ> snd) (set (m_current q))"
    using current_tx_inj [OF core] by (auto simp: inj_on_def vt_slot_def)
  moreover have "distinct (m_current q)"
    using core current_okD(1) by (simp add: queue_core_def distinct_map)
  ultimately show ?thesis by (simp add: distinct_map)
qed

subsection \<open>Runs of operations\<close>

datatype queue_op = OpImport transaction if_dropped bool | OpDrop h256 | OpDropGood transaction
  | OpSetFuture h256 | OpClear | OpEnqueue bytes "512 word" | OpTop u32 int int

fun run_op :: "env \<Rightarrow> queue_op \<Rightarrow> queue \<Rightarrow> queue option" where
  "run_op e (OpImport t ik isFuture) q = map_option snd (import_tx e t ik isFuture q)"
| "run_op e (OpDrop h) q = drop_tx h q"
| "run_op e (OpDropGood t) q = dropGood e t q"
| "run_op e (OpSetFuture h) q = setFuture_WITH_LOCK e h q"
| "run_op e OpClear q = Some (clear q)"
| "run_op e (OpEnqueue d nodeId) q = Some (snd (enqueue d nodeId q))"
| "run_op e (OpTop limit maxCat setCat) q = map_option snd (topTransactions_category e limit maxCat setCat q)"

fun run_ops :: "env \<Rightarrow> queue_op list \<Rightarrow> queue \<Rightarrow> queue option" where
  "run_ops e [] q = Some q"
| "run_ops e (op # ops) q = Option.bind (run_op e op q) (run_ops e ops)"

text \<open>Imported transactions are signed by a recoverable sender (or refused for a zero signature),
  and a category is set on at most one transaction at a time.\<close>

fun op_ok :: "queue_op \<Rightarrow> bool" where
  "op_ok (OpImport t ik isFuture) = (tx_zeroSig t \<or> comparable t)"
| "op_ok (OpTop limit maxCat setCat) = (setCat < 0 \<or> limit \<le> 1)"
| "op_ok _ = True"

lemma setFuture_wf:
  assumes "begin_member e" and wf: "queue_wf q"
  obtains q' where "setFuture_WITH_LOCK e h q = Some q'" and "queue_wf q'"
proof (cases "map_of (m_currentByHash q) h")
  case None
  then show ?thesis using that wf by (simp add: setFuture_WITH_LOCK_def)
next
  case (Some i)
  have k: "known_ok q" using wf by (simp add: queue_wf_alt)
  obtain q' where q': "setFuture_WITH_LOCK e h q = Some q'" "known_ok q'" "config q' = config q"
    using setFuture_correct [OF assms(1) k Some] .
  then show ?thesis using that [of q'] wf dropped_ok_config [OF q'(3)] by (simp add: queue_wf_alt)
qed

lemma run_op_wf:
  assumes "emplace_total e" and "begin_member e" and "op_ok op" and wf: "queue_wf q"
  shows "\<exists>q'. run_op e op q = Some q' \<and> queue_wf q'"
proof (cases op)
  case (OpImport t ik isFuture)
  with assms(3) have "tx_zeroSig t \<or> comparable t" by simp
  from import_correct [OF assms(1,2) wf this] obtain q'
    where "import_tx e t ik isFuture q = Some (import_verdict t ik q, q')" "queue_wf q'" .
  with OpImport show ?thesis by simp
next
  case (OpDrop h)
  obtain q' where "drop_tx h q = Some q'" "queue_wf q'" using drop_correct [OF wf] .
  with OpDrop show ?thesis by simp
next
  case (OpDropGood t)
  obtain q' where "dropGood e t q = Some q'" "queue_wf q'" using dropGood_correct [OF assms(1) wf] .
  with OpDropGood show ?thesis by simp
next
  case (OpSetFuture h)
  obtain q' where "setFuture_WITH_LOCK e h q = Some q'" "queue_wf q'" using setFuture_wf [OF assms(2) wf] .
  with OpSetFuture show ?thesis by simp
next
  case (OpTop limit maxCat setCat)
  show ?thesis
  proof (cases "setCat < 0")
    case True
    obtain p where "topTransactions_category e limit maxCat setCat q =
      Some (sort_key (priority_key q) (map (vt_tx \<circ> snd) (take (unat limit) (drop p (m_current q)))), q)"
      using topTransactions_category_read [OF wf True] .
    with OpTop wf show ?thesis by simp
  next
    case False
    then have "unat limit \<le> 1" "setCat \<ge> 0" using assms(3) OpTop by (auto simp: word_le_nat_alt)
    then obtain ts q' where "topTransactions_category e limit maxCat setCat q = Some (ts, q')" "queue_wf q'"
      using topTransactions_category_extract [OF assms(1) wf] by blast
    with OpTop show ?thesis by simp
  qed
qed (simp_all add: clear_correct wf enqueue_wf)

lemma run_ops_wf:
  assumes "emplace_total e" and "begin_member e"
  shows "list_all op_ok ops \<Longrightarrow> queue_wf q \<Longrightarrow> \<exists>q'. run_ops e ops q = Some q' \<and> queue_wf q'"
proof (induction ops arbitrary: q)
  case (Cons op ops)
  then obtain q1 where "run_op e op q = Some q1" "queue_wf q1" using run_op_wf [OF assms, of op q] by auto
  with Cons show ?case by simp
qed simp

text \<open>Containers that scan linearly.\<close>

fun linear_pos :: "('a \<Rightarrow> 'a \<Rightarrow> 'e + bool) \<Rightarrow> 'a \<Rightarrow> 'a list \<Rightarrow> 'e + nat" where
  "linear_pos cmp x [] = Inr 0"
| "linear_pos cmp x (y # ys) = bindE (cmp x y) (\<lambda>b. if b then Inr 0 else bindE (linear_pos cmp x ys) (\<lambda>p. Inr (Suc p)))"

definition linear_env :: env where
  "linear_env = \<lparr>emplace_pos = linear_pos, lower_pos = (\<lambda>P l. length (takeWhile P l)), stale_next = succ_of,
     future_begin = hd\<rparr>"

lemma linear_pos_total:
  "\<forall>y\<in>set l. (\<exists>b. cmp x y = Inr b) \<Longrightarrow> \<exists>p. linear_pos cmp x l = Inr p"
proof (induction l)
  case (Cons y l)
  then obtain b p where "cmp x y = Inr b" "linear_pos cmp x l = Inr p" by auto
  then show ?case by simp
qed simp

lemma linear_env_total: "emplace_total linear_env"
  by (simp add: emplace_total_def linear_env_def linear_pos_total)

lemma linear_env_begin: "begin_member linear_env"
  by (simp add: begin_member_def linear_env_def)

lemma import_spec:
  assumes "emplace_total e" and "begin_member e" and "queue_wf q" and "tx_zeroSig t \<or> comparable t"
  shows "\<exists>q'. import_tx e t ik isFuture q = Some (import_verdict t ik q, q') \<and> queue_wf q' \<and>
    (import_verdict t ik q \<noteq> Success \<longrightarrow> cur_map q' = cur_map q) \<and>
    (import_verdict t ik q = Success \<longrightarrow> \<not> isFuture \<longrightarrow> \<not> current_over q' \<and>
      cur_map q' \<subseteq>\<^sub>m fst (abs_insert t (cur_map q, (fut_map q)((tx_from t, tx_nonce t) := None))))"
  by (rule import_correct [OF assms, of ik isFuture]) blast

end
