(* ===== verification/TransactionQueue_Props.thy ===== *)
theory TransactionQueue_Props
  imports TransactionQueue_Runs
begin

text \<open>
  The properties of the transaction queue.
\<close>

subsection \<open>Sample states\<close>

text \<open>Sample transactions of one sender with nonces 0, 1 and 2.\<close>

definition sample_tx :: "u256 \<Rightarrow> transaction" where
  "sample_tx n = \<lparr>tx_sender = Some 7, tx_nonce = n, tx_gasPrice = 10, tx_sha3 = 100 + n, tx_size = 110,
     tx_zeroSig = False, tx_type = MessageCall\<rparr>"

lemma sample_comparable [simp]: "comparable (sample_tx n)" "\<not> tx_zeroSig (sample_tx n)"
  by (simp_all add: sample_tx_def comparable_def isTransaction_def)

definition sample_queue :: queue where
  "sample_queue = TransactionQueue_new 1024 1024 12322916 24645833"

lemma sample_queue_wf [simp]: "queue_wf sample_queue"
  by (simp add: sample_queue_def new_correct)





text \<open>C15: After a successful import that is not marked as future, the current set is within the
  transaction limit and the byte counter within the byte limit, and what it holds is what it held
  before, the imported transaction, and the run of consecutive nonces released from the future map
  (some of which the limits may have evicted).\<close>

theorem tq_import_limits:
  assumes "emplace_total e" and "begin_member e" and "queue_wf q" and "tx_zeroSig t \<or> comparable t"
    and "import_tx e t ik False q = Some (Success, q')"
  shows "length (m_current q') \<le> unat (m_limit q') \<and> m_currentSizeBytes q' \<le> m_currentSizeBytesLimit q' \<and>
    m_currentSizeBytes q' = of_nat (\<Sum>x\<leftarrow>m_current q'. tx_size (vt_tx (snd x))) \<and>
    cur_map q' \<subseteq>\<^sub>m fst (abs_insert t (cur_map q, (fut_map q)((tx_from t, tx_nonce t) := None)))"
proof -
  obtain r where r: "import_tx e t ik False q = Some (import_verdict t ik q, r)" "queue_wf r"
    "import_verdict t ik q = Success \<longrightarrow> \<not> current_over r \<and>
      cur_map r \<subseteq>\<^sub>m fst (abs_insert t (cur_map q, (fut_map q)((tx_from t, tx_nonce t) := None)))"
    using import_spec [OF assms(1-4), of ik False] by auto
  have "r = q'" "import_verdict t ik q = Success" using r(1) assms(5) by auto
  with r show ?thesis
    by (auto simp: current_over_def queue_wf_def queue_core_def current_ok_def osum_def comp_def)
qed

lemma sample_verdict: "import_verdict (sample_tx n) ik sample_queue = Success"
  by (simp add: import_verdict_def sample_queue_def TransactionQueue_new_def cur_map_def lru_abs_def lru_new_def
      Let_def)

lemma sample_import:
  "\<exists>q'. import_tx linear_env (sample_tx n) Ignore isFuture sample_queue = Some (Success, q') \<and> queue_wf q'"
  using import_spec [OF linear_env_total linear_env_begin sample_queue_wf, of "sample_tx n" Ignore isFuture]
  by (auto simp: sample_verdict)

theorem tq_import_limits_witness:
  "\<exists>q'. import_tx linear_env (sample_tx 0) Ignore False sample_queue = Some (Success, q') \<and>
    length (m_current q') \<le> unat (m_limit q')"
proof -
  obtain q' where q': "import_tx linear_env (sample_tx 0) Ignore False sample_queue = Some (Success, q')"
    using sample_import by blast
  with tq_import_limits [OF linear_env_total linear_env_begin sample_queue_wf _ q'] show ?thesis by auto
qed

text \<open>C16: \<open>makeCurrent\<close>, which import and dropGood call, moves from the future map to the current set
  exactly the maximal run of the sender's consecutive nonces after the given transaction's, and changes
  nothing else that is held.\<close>

theorem tq_makeCurrent_run:
  assumes "emplace_total e" and "queue_wf q"
  shows "\<exists>q'. makeCurrent_WITH_LOCK e t q = Some q' \<and> queue_wf q' \<and>
    cur_map q' = (\<lambda>s. if s \<in> run (fut_map q) (tx_from t) (tx_nonce t + 1) then fut_map q s else cur_map q s) \<and>
    fut_map q' = (\<lambda>s. if s \<in> run (fut_map q) (tx_from t) (tx_nonce t + 1) then None else fut_map q s)"
proof -
  have core: "queue_core q" using assms(2) by (simp add: queue_wf_def)
  obtain q' where q': "makeCurrent_WITH_LOCK e t q = Some q'" "queue_core q'"
    "queue_hashes q' = queue_hashes q" "frame q' = frame q"
    "abs_queue q' = abs_makeCurrent t (abs_queue q)"
    using makeCurrent_correct [OF assms(1) core] .
  moreover have "queue_wf q'" using q' assms(2) by (simp add: queue_wf_def frame_def dropped_ok_def)
  ultimately show ?thesis by (auto simp: abs_queue_def abs_makeCurrent_def Let_def)
qed

text \<open>A queue with the transaction of nonce 0 current and that of nonce 1 in the future map.\<close>

definition sample_queue2 :: queue where
  "sample_queue2 = (push_future (VerifiedTransaction (sample_tx 1))
     (push_current 0 (VerifiedTransaction (sample_tx 0)) sample_queue))\<lparr>m_known := {100, 101}\<rparr>"

lemma sample_queue2_wf [simp]: "queue_wf sample_queue2"
proof -
  let ?c = "VerifiedTransaction (sample_tx 0)" and ?f = "VerifiedTransaction (sample_tx 1)"
  have core: "queue_core sample_queue" using sample_queue_wf by (simp add: queue_wf_def)
  have e: "queue_hashes sample_queue = {}" "nlookup (m_currentByAddressAndNonce sample_queue) a n = None"
    "nlookup (m_future sample_queue) a n = None" for a n
    by (auto simp: sample_queue_def TransactionQueue_new_def queue_hashes_def future_hashes_def)
  have c: "queue_core (push_current 0 ?c sample_queue)" "queue_hashes (push_current 0 ?c sample_queue) = {100}"
    using core_push_current [OF core, of ?c 0] by (simp_all add: e) (simp add: sample_tx_def)
  have "nmap_ok (m_currentByAddressAndNonce sample_queue)" using queue_coreD(1) [OF core] .
  then have f: "nlookup (m_currentByAddressAndNonce (push_current 0 ?c sample_queue)) 7 1 = None"
    "nlookup (m_future (push_current 0 ?c sample_queue)) 7 1 = None"
    by (simp_all add: push_current_def e) (simp add: sample_tx_def)
  have s: "tx_from (sample_tx 1) = 7" "tx_nonce (sample_tx 1) = 1" "tx_sha3 (sample_tx 1) = 101"
    by (simp_all add: sample_tx_def tx_from_def)
  have "queue_core (push_future ?f (push_current 0 ?c sample_queue))"
    "queue_hashes (push_future ?f (push_current 0 ?c sample_queue)) = {100, 101}"
    using core_push_future [OF c(1), of ?f] c(2) f by (auto simp: s)
  moreover have "dropped_ok sample_queue" using sample_queue_wf by (simp add: queue_wf_def)
  ultimately show ?thesis
    by (simp add: sample_queue2_def queue_wf_def dropped_ok_def push_future_def push_current_def)
qed

lemma sample_queue2_slots:
  "map_of (m_currentByHash sample_queue2) 100 = Some 0" "fut_map sample_queue2 (7, 1) = Some (sample_tx 1)"
  by (simp_all add: sample_queue2_def push_future_def push_current_def sample_queue_def TransactionQueue_new_def
      fut_map_def sample_tx_def tx_from_def VerifiedTransaction_def nput_def nset_def nlookup_def ninner_def)

theorem tq_makeCurrent_run_witness:
  "\<exists>q'. makeCurrent_WITH_LOCK linear_env (sample_tx 0) sample_queue2 = Some q' \<and> queue_wf q' \<and>
    fut_map q' = (\<lambda>s. if s \<in> run (fut_map sample_queue2) (tx_from (sample_tx 0)) (tx_nonce (sample_tx 0) + 1)
      then None else fut_map sample_queue2 s)"
  using tq_makeCurrent_run [OF linear_env_total sample_queue2_wf, of "sample_tx 0"] by blast

text \<open>C17: \<open>setFuture\<close> on a transaction of the current set demotes it and all later nonces of its
  sender, keeps all other current transactions, and leaves the future map within its count and byte
  limits.  What the future map then holds was there before or was just demoted.\<close>

theorem tq_setFuture:
  assumes "begin_member e" and "queue_wf q" and "map_of (m_currentByHash q) h = Some i"
  shows "\<exists>t q'. setFuture_WITH_LOCK e h q = Some q' \<and> queue_wf q' \<and> tx_sha3 t = h \<and>
    cur_map q (tx_from t, tx_nonce t) = Some t \<and>
    cur_map q' = (\<lambda>s. if fst s = tx_from t \<and> tx_nonce t \<le> snd s then None else cur_map q s) \<and>
    fut_map q' \<subseteq>\<^sub>m (\<lambda>s. if fst s = tx_from t \<and> tx_nonce t \<le> snd s \<and> cur_map q s \<noteq> None then cur_map q s
                     else fut_map q s) \<and>
    m_futureSize q' \<le> m_futureLimit q' \<and> m_futureSizeBytes q' \<le> m_futureSizeBytesLimit q'"
proof -
  have k: "known_ok q" and d: "dropped_ok q" using assms(2) by (simp_all add: queue_wf_alt)
  obtain t q' where t: "tx_sha3 t = h" "cur_map q (tx_from t, tx_nonce t) = Some t"
    and q': "setFuture_WITH_LOCK e h q = Some q'" "known_ok q'" "config q' = config q" "\<not> future_over q'"
    and m: "cur_map q' = fst (abs_setFuture t (abs_queue q))" "fut_map q' \<subseteq>\<^sub>m snd (abs_setFuture t (abs_queue q))"
    using setFuture_correct [OF assms(1) k assms(3)] .
  have "queue_wf q'" using q'(2) dropped_ok_config [OF q'(3)] d by (simp add: queue_wf_alt)
  with t q' m show ?thesis
    by (intro exI [of _ t] exI [of _ q'])
      (auto simp: abs_setFuture_def abs_queue_def Let_def future_over_def fun_eq_iff)
qed

theorem tq_setFuture_witness:
  "\<exists>q'. setFuture_WITH_LOCK linear_env 100 sample_queue2 = Some q' \<and> queue_wf q'"
  using tq_setFuture [OF linear_env_begin sample_queue2_wf sample_queue2_slots(1)] by blast













text \<open>C21: Dropping a transaction that waits in the future map records its hash as dropped but leaves the
  transaction in the future map and in the known set.\<close>

theorem tq_drop_keeps_future:
  assumes "queue_wf q" and "fut_map q s = Some t"
  shows "\<exists>q'. drop_tx (tx_sha3 t) q = Some q' \<and> fut_map q' s = Some t \<and> tx_sha3 t \<in> m_known q' \<and>
    map_of (lru_abs (m_dropped q')) (tx_sha3 t) \<noteq> None"
proof -
  have core: "queue_core q" and k: "known_ok q" using assms(1) by (simp_all add: queue_wf_alt known_ok_def)
  obtain a n where s: "s = (a, n)" by fastforce
  obtain vt where v: "nlookup (m_future q) a n = Some vt" "t = vt_tx vt" using assms(2) by (auto simp: s fut_map_def)
  have h: "tx_sha3 t \<in> m_known q"
    using future_hashesI [OF v(1)] k v(2) by (simp add: known_ok_def queue_hashes_def)
  have b: "map_of (m_currentByHash q) (tx_sha3 t) = None" using core_future_entry(5) [OF core v(1)] v(2) by simp
  have l: "lru_ok (m_dropped q)" "lru_capacity (m_dropped q) \<noteq> 0"
    using assms(1) by (simp_all add: queue_wf_alt dropped_ok_def)
  obtain m d where d: "lru_insert (tx_sha3 t) True (m_dropped q) = Some (m, d)"
    "lru_abs d = mtf_insert (lru_capacity (m_dropped q)) (tx_sha3 t) True (lru_abs (m_dropped q))"
    using lru_insert_correct [OF l] .
  have "map_of (lru_abs d) (tx_sha3 t) \<noteq> None"
    by (auto simp: d(2) mtf_insert_def mtf_touch_def split: option.splits)
  with h b d(1) assms(2) show ?thesis
    by (intro exI [of _ "q\<lparr>m_dropped := d\<rparr>"]) (simp add: drop_tx_def remove_WITH_LOCK_def)
qed

theorem tq_drop_keeps_future_witness:
  "\<exists>q'. drop_tx 101 sample_queue2 = Some q' \<and> fut_map q' (7, 1) = Some (sample_tx 1)"
  using tq_drop_keeps_future [OF sample_queue2_wf sample_queue2_slots(2)] by (auto simp: sample_tx_def)

text \<open>The comparator's exception reaches the caller of the insertion when every comparison raises it.\<close>

definition emplace_throws :: "env \<Rightarrow> bool" where
  "emplace_throws e \<longleftrightarrow> (\<forall>cmp x l exn. l \<noteq> [] \<longrightarrow> (\<forall>y\<in>set l. cmp x y = Inl exn \<and> cmp y x = Inl exn) \<longrightarrow>
     emplace_pos e cmp x l = Inl exn)"

lemma linear_env_throws: "emplace_throws linear_env"
  unfolding emplace_throws_def
proof (intro allI impI)
  fix cmp :: "verified_transaction \<Rightarrow> verified_transaction \<Rightarrow> queue_exn + bool" and x l exn
  assume "l \<noteq> []" "\<forall>y\<in>set l. cmp x y = Inl exn \<and> cmp y x = Inl exn"
  then show "emplace_pos linear_env cmp x l = Inl exn" by (cases l) (auto simp: linear_env_def)
qed

text \<open>C22: Importing a transaction whose sender cannot be recovered into a non-empty queue is refused as
  malformed, but the insertion is not rolled back: the index by sender and nonce keeps an entry, under
  the zero address, whose iterator designates no element of the current set.\<close>

theorem tq_import_leaves_singular:
  assumes "emplace_throws e" and "queue_wf q" and "m_current q \<noteq> []" and "tx_sender t = None"
    and "isTransaction t" and "\<not> tx_zeroSig t" and "tx_sha3 t \<notin> m_known q"
    and "cur_map q (0, tx_nonce t) = None" and "fut_map q (0, tx_nonce t) = None"
  shows "\<exists>q' i. import_tx e t Retry isFuture q = Some (Malformed, q') \<and>
    nlookup (m_currentByAddressAndNonce q') 0 (tx_nonce t) = Some i \<and> map_of (m_current q') i = None"
proof -
  have core: "queue_core q" and k: "known_ok q" and d: "dropped_ok q"
    using assms(2) by (simp_all add: queue_wf_alt known_ok_def)
  have ok: "current_ok q" using core by (simp add: queue_core_def)
  have a: "tx_from t = 0" using assms(4) by (simp add: tx_from_def)
  have f: "nlookup (m_future q) 0 (tx_nonce t) = None" using assms(9) by (simp add: fut_map_None)
  have u: "import_unfuture t q = q" by (simp add: import_unfuture_def a f)
  obtain dd where ch: "check_WITH_LOCK (tx_sha3 t) Retry q = Some (Success, q\<lparr>m_dropped := dd\<rparr>)"
    using check_correct [OF k d, of "tx_sha3 t" Retry] assms(7) by auto
  let ?q = "q\<lparr>m_dropped := dd\<rparr>"
  let ?s = "slot_insert 0 (tx_nonce t) ?q"
  have c: "nlookup (m_currentByAddressAndNonce ?q) 0 (tx_nonce t) = None"
    using assms(8) cur_map_None [OF core] by simp
  have s: "?s = ?q\<lparr>m_currentByAddressAndNonce := nput 0 (tx_nonce t) (m_next q) (m_currentByAddressAndNonce q),
      m_next := Suc (m_next q)\<rparr>" by (simp add: slot_insert_free [OF c])
  have "PriorityCompare ?s (VerifiedTransaction t) y = Inl SenderThrows \<and>
      PriorityCompare ?s y (VerifiedTransaction t) = Inl SenderThrows" if y: "y \<in> set (map snd (m_current ?s))" for y
  proof -
    obtain i where "(i, y) \<in> set (m_current q)" using y by (auto simp: s)
    then have i: "map_of (m_current q) i = Some y" using current_okD(1) [OF ok] by simp
    note n = current_node [OF ok i]
    have "nlookup (m_currentByAddressAndNonce ?s) (tx_from (vt_tx y)) (tx_nonce (vt_tx y)) \<noteq> None"
      using n(2) current_okD(5) [OF ok] by (simp add: s)
    from comparable_height [OF n(3) this] obtain h where "height ?s (vt_tx y) = Inr h" by blast
    moreover have "height ?s t = Inl SenderThrows" using assms(4) by (simp add: height_def)
    ultimately show ?thesis
      using n(3) assms(5) by (simp add: PriorityCompare_def Let_def comparable_def)
  qed
  moreover have "map snd (m_current ?s) \<noteq> []" using assms(3) by (simp add: s)
  ultimately have "emplace_pos e (PriorityCompare ?s) (VerifiedTransaction t) (map snd (m_current ?s)) = Inl SenderThrows"
    using assms(1) unfolding emplace_throws_def by blast
  then have "emplace e (VerifiedTransaction t) ?s = Inl SenderThrows" by (simp add: emplace_def)
  moreover have "map_of (m_currentByHash q) (tx_sha3 t) = None"
    using assms(7) k by (auto simp: known_ok_def queue_hashes_def)
  ultimately have "insertCurrent_WITH_LOCK e (tx_sha3 t) t ?q = Some (False, ?s)"
    by (simp add: insertCurrent_WITH_LOCK_def a)
  then have "manageImport_WITH_LOCK e (tx_sha3 t) t ?q = Some (Malformed, ?s)"
    using c f by (simp add: manageImport_WITH_LOCK_def a)
  moreover have "\<not> isInvalid t" using assms(5) by (simp add: isTransaction_def isInvalid_def)
  moreover have "setFuture_WITH_LOCK e (tx_sha3 t) ?s = Some ?s"
    using \<open>map_of (m_currentByHash q) (tx_sha3 t) = None\<close> by (simp add: setFuture_WITH_LOCK_def s)
  ultimately have "import_tx e t Retry isFuture q = Some (Malformed, ?s)"
    using assms(6) ch by (simp add: import_tx_def u)
  moreover have "nlookup (m_currentByAddressAndNonce ?s) 0 (tx_nonce t) = Some (m_next q)"
    using current_okD(5) [OF ok] by (simp add: s)
  moreover have "map_of (m_current ?s) (m_next q) = None" using current_okD(4) [OF ok] by (simp add: s)
  ultimately show ?thesis by blast
qed

theorem tq_import_leaves_singular_witness:
  "\<exists>q' i. import_tx linear_env ((sample_tx 5)\<lparr>tx_sender := None\<rparr>) Retry False sample_queue2 = Some (Malformed, q') \<and>
    nlookup (m_currentByAddressAndNonce q') 0 5 = Some i \<and> map_of (m_current q') i = None"
proof -
  have *: "cur_map sample_queue2 (0, 5) = None" "fut_map sample_queue2 (0, 5) = None" "m_current sample_queue2 \<noteq> []"
    "m_known sample_queue2 = {100, 101}"
    by (auto simp: sample_queue2_def cur_map_def fut_map_def push_future_def push_current_def sample_queue_def
        TransactionQueue_new_def sample_tx_def tx_from_def VerifiedTransaction_def nput_def nset_def nlookup_def
        ninner_def)
  show ?thesis
    using tq_import_leaves_singular [OF linear_env_throws sample_queue2_wf *(3),
        of "(sample_tx 5)\<lparr>tx_sender := None\<rparr>" False]
    by (simp add: * sample_tx_def isTransaction_def)
qed

end
