(* ===== verification/FixedHash.thy ===== *)
theory FixedHash
  imports CommonData
begin

text \<open>
  \<open>libdevcore/FixedHash.h\<close>: hashes and addresses as fixed-width words, the \<open>asBytes\<close> of each and
  the constructors from byte strings.
\<close>

definition h256_bytes :: "u256 \<Rightarrow> bytes" where
  "h256_bytes x = toBigEndian 32 (unat x)"

definition h160_bytes :: "address \<Rightarrow> bytes" where
  "h160_bytes x = toBigEndian 20 (unat x)"

text \<open>The constructors from bytes with \<open>FailIfDifferent\<close>: zero when the length is wrong.\<close>

definition h256_ofBytes :: "bytes \<Rightarrow> h256" where
  "h256_ofBytes bs = (if length bs = 32 then of_nat (fromBigEndian bs) else 0)"

definition h160_ofBytes :: "bytes \<Rightarrow> address" where
  "h160_ofBytes bs = (if length bs = 20 then of_nat (fromBigEndian bs) else 0)"

text \<open>\<open>right160\<close>: the last 20 bytes of a hash.\<close>

definition right160 :: "h256 \<Rightarrow> address" where
  "right160 h = ucast h"

lemma length_h256_bytes [simp]: "length (h256_bytes x) = 32"
  by (simp add: h256_bytes_def)

lemma length_h160_bytes [simp]: "length (h160_bytes x) = 20"
  by (simp add: h160_bytes_def)

lemma unat_mod_bytes: "unat (x :: 'w::len word) mod 256 ^ n = unat x" if "LENGTH('w) = 8 * n"
proof -
  have "unat x < 2 ^ LENGTH('w)" by (rule unsigned_less)
  also have "(2::nat) ^ LENGTH('w) = 256 ^ n" by (simp add: that power_mult)
  finally show ?thesis by simp
qed

lemma h256_ofBytes_bytes [simp]: "h256_ofBytes (h256_bytes x) = x"
  using unat_mod_bytes [of 32 x]
  by (simp add: h256_ofBytes_def h256_bytes_def fromBigEndian_toBigEndian)

lemma h160_ofBytes_bytes [simp]: "h160_ofBytes (h160_bytes x) = x"
  using unat_mod_bytes [of 20 x]
  by (simp add: h160_ofBytes_def h160_bytes_def fromBigEndian_toBigEndian)

lemma h256_ofBytes_Nil [simp]: "h256_ofBytes [] = 0"
  by (simp add: h256_ofBytes_def)

lemma h256_bytes_inj [simp]: "h256_bytes x = h256_bytes y \<longleftrightarrow> x = y"
  by (metis h256_ofBytes_bytes)

lemma h160_bytes_inj [simp]: "h160_bytes x = h160_bytes y \<longleftrightarrow> x = y"
  by (metis h160_ofBytes_bytes)

end
