(* ===== verification/EVM_Instruction.thy ===== *)
theory EVM_Instruction
  imports Prelude
begin

text \<open>
  \<open>libevm/Instruction.h\<close> and \<open>Instruction.cpp\<close>: the opcodes of the virtual machine, the
  gas-price tiers and the table \<open>c_instructionInfo\<close>.  The enumeration keeps the names of
  the source; instructions the interpreter treats alike share a sub-enumeration, and the
  numbered families (\<open>PUSH1\<close> .. \<open>PUSH32\<close> and so on) carry their number.  \<open>decode\<close> is the
  cast \<open>Instruction( byte )\<close>: every byte is a value of the enumeration's underlying type,
  and the bytes with no enumerator are \<open>Undefined\<close>.
\<close>

subsection \<open>Opcodes\<close>

datatype bin_instr =
  ADD | MUL | SUB | DIV | SDIV | MOD | SMOD | SIGNEXTEND | LT | GT | SLT | SGT | EQ
  | AND | OR | XOR | BYTE | SHL | SHR | SAR

datatype env_instr =
  ADDRESS | ORIGIN | CALLER | CALLVALUE | CALLDATASIZE | CODESIZE | GASPRICE
  | RETURNDATASIZE | COINBASE | TIMESTAMP | NUMBER | DIFFICULTY | GASLIMIT | CHAINID
  | SELFBALANCE | PC | MSIZE | GAS

datatype query_instr = BALANCE | CALLDATALOAD | EXTCODESIZE | EXTCODEHASH | BLOCKHASH | SLOAD

datatype copy_instr = CALLDATACOPY | CODECOPY | RETURNDATACOPY | EXTCODECOPY

datatype mem_instr = MLOAD | MSTORE | MSTORE8

datatype halt_instr = STOP | RETURN | REVERT | SUICIDE

datatype call_instr = CREATE | CREATE2 | CALL | CALLCODE | DELEGATECALL | STATICCALL

datatype eip615_instr =
  JUMPTO | JUMPIF | JUMPSUB | JUMPV | JUMPSUBV | BEGINSUB | BEGINDATA | RETURNSUB
  | PUTLOCAL | GETLOCAL

datatype simd_instr =
  XADD | XMUL | XSUB | XDIV | XSDIV | XMOD | XSMOD | XLT | XGT | XSLT | XSGT | XEQ | XISZERO
  | XAND | XOOR | XXOR | XNOT | XSHL | XSHR | XSAR | XROL | XROR | XPUSH | XMLOAD | XMSTORE
  | XSLOAD | XSSTORE | XVTOWIDE | XWIDETOV | XGET | XPUT | XSWIZZLE | XSHUFFLE

datatype synthetic_instr = PUSHC | JUMPC | JUMPCI

datatype Instruction =
  Bin bin_instr | NOT | ISZERO | ADDMOD | MULMOD | EXP | SHA3
  | Env env_instr | Query query_instr | Copy copy_instr | Mem mem_instr | Halt halt_instr
  | Call call_instr | POP | SSTORE | JUMP | JUMPI | JUMPDEST
  | PUSH nat | DUP nat | SWAP nat | LOG nat
  | Synthetic synthetic_instr | Eip615 eip615_instr | Simd simd_instr
  | INVALID | Undefined

text \<open>The opcodes of a consecutive run of the enumeration; a byte past its end has no name.\<close>

definition nth_op :: "Instruction list \<Rightarrow> nat \<Rightarrow> Instruction" where
  "nth_op ops i = (if i < length ops then ops ! i else Undefined)"

definition decode_arith :: "nat \<Rightarrow> Instruction" where
  "decode_arith n = nth_op [Halt STOP, Bin ADD, Bin MUL, Bin SUB, Bin DIV, Bin SDIV, Bin MOD,
     Bin SMOD, ADDMOD, MULMOD, EXP, Bin SIGNEXTEND] n"

definition decode_logic :: "nat \<Rightarrow> Instruction" where
  "decode_logic n = nth_op [Bin LT, Bin GT, Bin SLT, Bin SGT, Bin EQ, ISZERO, Bin AND, Bin OR,
     Bin XOR, NOT, Bin BYTE, Bin SHL, Bin SHR, Bin SAR] n"

definition decode_env :: "nat \<Rightarrow> Instruction" where
  "decode_env n = nth_op [Env ADDRESS, Query BALANCE, Env ORIGIN, Env CALLER, Env CALLVALUE,
     Query CALLDATALOAD, Env CALLDATASIZE, Copy CALLDATACOPY, Env CODESIZE, Copy CODECOPY,
     Env GASPRICE, Query EXTCODESIZE, Copy EXTCODECOPY, Env RETURNDATASIZE,
     Copy RETURNDATACOPY, Query EXTCODEHASH] n"

definition decode_block :: "nat \<Rightarrow> Instruction" where
  "decode_block n = nth_op [Query BLOCKHASH, Env COINBASE, Env TIMESTAMP, Env NUMBER,
     Env DIFFICULTY, Env GASLIMIT, Env CHAINID, Env SELFBALANCE] n"

definition decode_flow :: "nat \<Rightarrow> Instruction" where
  "decode_flow n = nth_op [POP, Mem MLOAD, Mem MSTORE, Mem MSTORE8, Query SLOAD, SSTORE, JUMP,
     JUMPI, Env PC, Env MSIZE, Env GAS, JUMPDEST] n"

definition decode_eip615 :: "nat \<Rightarrow> Instruction" where
  "decode_eip615 n = nth_op (map Eip615 [JUMPTO, JUMPIF, JUMPSUB, JUMPV, JUMPSUBV, BEGINSUB,
     BEGINDATA, RETURNSUB, PUTLOCAL, GETLOCAL]) n"

definition decode_simd :: "nat \<Rightarrow> Instruction" where
  "decode_simd n =
    (if 0xc1 \<le> n \<and> n < 0xd0
     then nth_op (map Simd [XADD, XMUL, XSUB, XDIV, XSDIV, XMOD, XSMOD]) (n - 0xc1)
     else if 0xd0 \<le> n \<and> n < 0xdb
     then nth_op (map Simd [XLT, XGT, XSLT, XSGT, XEQ, XISZERO, XAND, XOOR, XXOR, XNOT]) (n - 0xd0)
     else if 0xdb \<le> n \<and> n < 0xe0
     then nth_op (map Simd [XSHL, XSHR, XSAR, XROL, XROR]) (n - 0xdb)
     else if 0xe0 \<le> n \<and> n < 0xe4
     then nth_op (map Simd [XPUSH, XMLOAD, XMSTORE]) (n - 0xe0)
     else if 0xe4 \<le> n
     then nth_op (map Simd [XSLOAD, XSSTORE, XVTOWIDE, XWIDETOV, XGET, XPUT, XSWIZZLE, XSHUFFLE])
            (n - 0xe4)
     else Undefined)"

definition decode_system :: "nat \<Rightarrow> Instruction" where
  "decode_system n = nth_op [Call CREATE, Call CALL, Call CALLCODE, Halt RETURN,
     Call DELEGATECALL, Call CREATE2, Undefined, Undefined, Undefined, Undefined,
     Call STATICCALL, Undefined, Undefined, Halt REVERT, INVALID, Halt SUICIDE] n"

definition decode :: "byte \<Rightarrow> Instruction" where
  "decode b = (let n = unat b in
    if n < 0x10 then decode_arith n
    else if n < 0x20 then decode_logic (n - 0x10)
    else if n = 0x20 then SHA3
    else if n < 0x30 then Undefined
    else if n < 0x40 then decode_env (n - 0x30)
    else if n < 0x50 then decode_block (n - 0x40)
    else if n < 0x5f then decode_flow (n - 0x50)
    else if n \<le> 0x7f then PUSH (n - 0x5f)
    else if n \<le> 0x8f then DUP (n - 0x7f)
    else if n \<le> 0x9f then SWAP (n - 0x8f)
    else if n \<le> 0xa4 then LOG (n - 0xa0)
    else if n < 0xac then Undefined
    else if n < 0xb0 then nth_op (map Synthetic [PUSHC, JUMPC, JUMPCI]) (n - 0xac)
    else if n < 0xc0 then decode_eip615 (n - 0xb0)
    else if n < 0xf0 then decode_simd n
    else decode_system (n - 0xf0))"

subsection \<open>Arguments, results and tiers\<close>

datatype Tier = Zero | Base | VeryLow | Low | Mid | High | Ext | Special | Invalid

definition tier_index :: "Tier \<Rightarrow> nat" where
  "tier_index t = (case t of Zero \<Rightarrow> 0 | Base \<Rightarrow> 1 | VeryLow \<Rightarrow> 2 | Low \<Rightarrow> 3 | Mid \<Rightarrow> 4 | High \<Rightarrow> 5
     | Ext \<Rightarrow> 6 | Special \<Rightarrow> 7 | Invalid \<Rightarrow> 8)"

record InstructionMetric =
  gasPriceTier :: Tier
  args :: nat
  ret :: nat

definition info :: "nat \<Rightarrow> nat \<Rightarrow> Tier \<Rightarrow> InstructionMetric" where
  "info a r t = \<lparr>gasPriceTier = t, args = a, ret = r\<rparr>"

definition bin_info :: "bin_instr \<Rightarrow> InstructionMetric" where
  "bin_info i = info 2 1 (if i \<in> {MUL, DIV, SDIV, MOD, SMOD, SIGNEXTEND} then Low else VeryLow)"

definition env_info :: "env_instr \<Rightarrow> InstructionMetric" where
  "env_info i = info 0 1 (if i = SELFBALANCE then Low else Base)"

definition query_info :: "query_instr \<Rightarrow> InstructionMetric" where
  "query_info i = info 1 1 (if i = CALLDATALOAD then VeryLow else Special)"

definition copy_info :: "copy_instr \<Rightarrow> InstructionMetric" where
  "copy_info i = (if i = EXTCODECOPY then info 4 0 Special else info 3 0 VeryLow)"

definition mem_info :: "mem_instr \<Rightarrow> InstructionMetric" where
  "mem_info i = (if i = MLOAD then info 1 1 VeryLow else info 2 0 VeryLow)"

definition halt_info :: "halt_instr \<Rightarrow> InstructionMetric" where
  "halt_info i = (case i of STOP \<Rightarrow> info 0 0 Zero | RETURN \<Rightarrow> info 2 0 Zero
     | REVERT \<Rightarrow> info 2 0 Special | SUICIDE \<Rightarrow> info 1 0 Special)"

definition call_info :: "call_instr \<Rightarrow> InstructionMetric" where
  "call_info i = (case i of CREATE \<Rightarrow> info 3 1 Special | CREATE2 \<Rightarrow> info 4 1 Special
     | CALL \<Rightarrow> info 7 1 Special | CALLCODE \<Rightarrow> info 7 1 Special
     | STATICCALL \<Rightarrow> info 6 1 Special | DELEGATECALL \<Rightarrow> info 6 1 Special)"

definition synthetic_info :: "synthetic_instr \<Rightarrow> InstructionMetric" where
  "synthetic_info i = (case i of PUSHC \<Rightarrow> info 0 1 VeryLow | JUMPC \<Rightarrow> info 1 0 Mid
     | JUMPCI \<Rightarrow> info 2 0 High)"

definition eip615_info :: "eip615_instr \<Rightarrow> InstructionMetric" where
  "eip615_info i = (case i of JUMPTO \<Rightarrow> info 1 0 VeryLow | JUMPIF \<Rightarrow> info 2 0 Low
     | JUMPV \<Rightarrow> info 1 0 Mid | JUMPSUB \<Rightarrow> info 1 0 Low | JUMPSUBV \<Rightarrow> info 1 0 Mid
     | BEGINSUB \<Rightarrow> info 0 0 Special | BEGINDATA \<Rightarrow> info 0 0 Special
     | RETURNSUB \<Rightarrow> info 1 0 Mid | PUTLOCAL \<Rightarrow> info 1 0 VeryLow | GETLOCAL \<Rightarrow> info 0 1 VeryLow)"

definition simd_info :: "simd_instr \<Rightarrow> InstructionMetric" where
  "simd_info i =
    (if i = XADD then info 0 0 Special
     else if i = XAND then info 1 1 Special
     else if i \<in> {XPUSH, XMLOAD, XVTOWIDE, XWIDETOV} then info 1 1 VeryLow
     else if i = XMSTORE then info 2 0 VeryLow
     else if i = XSLOAD then info 1 1 Special
     else if i = XSSTORE then info 2 0 Special
     else if i \<in> {XPUT, XSHUFFLE} then info 3 1 Special
     else info 2 1 Special)"

text \<open>\<open>PUSH 0\<close> is \<open>PUSH0\<close> (EIP-3855), of the \<open>Base\<close> tier.\<close>

definition instructionInfo :: "Instruction \<Rightarrow> InstructionMetric" where
  "instructionInfo op = (case op of
     Bin i \<Rightarrow> bin_info i
   | NOT \<Rightarrow> info 1 1 VeryLow | ISZERO \<Rightarrow> info 1 1 VeryLow
   | ADDMOD \<Rightarrow> info 3 1 Mid | MULMOD \<Rightarrow> info 3 1 Mid
   | EXP \<Rightarrow> info 2 1 Special | SHA3 \<Rightarrow> info 2 1 Special
   | Env i \<Rightarrow> env_info i | Query i \<Rightarrow> query_info i | Copy i \<Rightarrow> copy_info i
   | Mem i \<Rightarrow> mem_info i | Halt i \<Rightarrow> halt_info i | Call i \<Rightarrow> call_info i
   | POP \<Rightarrow> info 1 0 Base | SSTORE \<Rightarrow> info 2 0 Special
   | JUMP \<Rightarrow> info 1 0 Mid | JUMPI \<Rightarrow> info 2 0 High | JUMPDEST \<Rightarrow> info 0 0 Special
   | PUSH n \<Rightarrow> info 0 1 (if n = 0 then Base else VeryLow)
   | DUP n \<Rightarrow> info n (n + 1) VeryLow
   | SWAP n \<Rightarrow> info (n + 1) (n + 1) VeryLow
   | LOG n \<Rightarrow> info (n + 2) 0 Special
   | Synthetic i \<Rightarrow> synthetic_info i | Eip615 i \<Rightarrow> eip615_info i | Simd i \<Rightarrow> simd_info i
   | INVALID \<Rightarrow> info 0 0 Zero
   | Undefined \<Rightarrow> info 0 0 Invalid)"

lemma info_sel [simp]:
  "gasPriceTier (info a r t) = t" "args (info a r t) = a" "ret (info a r t) = r"
  by (simp_all add: info_def)

end
