(* ===== verification/EVMSchedule.thy ===== *)
theory EVMSchedule
  imports Prelude
begin

text \<open>
  \<open>libethcore/EVMSchedule.h\<close>: the gas schedule of the virtual machine and the schedules
  of the forks, each defined from its predecessor.  The \<open>unsigned\<close> members are 32-bit
  words, so the arithmetic the interpreter does on them before widening wraps as in the
  source.
\<close>

record EVMSchedule =
  accountVersion :: u32
  exceptionalFailedCodeDeposit :: bool
  haveDelegateCall :: bool
  eip150Mode :: bool
  eip158Mode :: bool
  eip1283Mode :: bool
  haveBitwiseShifting :: bool
  haveRevert :: bool
  haveReturnData :: bool
  haveStaticCall :: bool
  haveCreate2 :: bool
  haveExtcodehash :: bool
  haveChainID :: bool
  haveSelfbalance :: bool
  havePush0 :: bool
  tierStepGas :: "u32 list"
  expGas :: u32
  expByteGas :: u32
  sha3Gas :: u32
  sha3WordGas :: u32
  sloadGas :: u32
  sstoreSetGas :: u32
  sstoreResetGas :: u32
  sstoreUnchangedGas :: u32
  sstoreRefundGas :: u32
  sstoreRefundNonzeroGas :: u32
  jumpdestGas :: u32
  logGas :: u32
  logDataGas :: u32
  logTopicGas :: u32
  createGas :: u32
  callGas :: u32
  callStipend :: u32
  callValueTransferGas :: u32
  callNewAccountGas :: u32
  suicideRefundGas :: u32
  memoryGas :: u32
  quadCoeffDiv :: u32
  createDataGas :: u32
  txGas :: u32
  txCreateGas :: u32
  txDataZeroGas :: u32
  txDataNonZeroGas :: u32
  copyGas :: u32
  extcodesizeGas :: u32
  extcodecopyGas :: u32
  extcodehashGas :: u32
  balanceGas :: u32
  suicideGas :: u32
  blockhashGas :: u32
  maxCodeSize :: u32
  blockRewardOverwrite :: "u256 option"

definition DefaultSchedule :: EVMSchedule where
  "DefaultSchedule = \<lparr>
    accountVersion = 0, exceptionalFailedCodeDeposit = True, haveDelegateCall = True,
    eip150Mode = False, eip158Mode = False, eip1283Mode = False, haveBitwiseShifting = False,
    haveRevert = False, haveReturnData = False, haveStaticCall = False, haveCreate2 = False,
    haveExtcodehash = False, haveChainID = False, haveSelfbalance = False, havePush0 = False,
    tierStepGas = [0, 2, 3, 5, 8, 10, 20, 0],
    expGas = 10, expByteGas = 10, sha3Gas = 30, sha3WordGas = 6, sloadGas = 50,
    sstoreSetGas = 20000, sstoreResetGas = 5000, sstoreUnchangedGas = 200,
    sstoreRefundGas = 15000, sstoreRefundNonzeroGas = 4800, jumpdestGas = 1,
    logGas = 375, logDataGas = 8, logTopicGas = 375, createGas = 32000, callGas = 40,
    callStipend = 2300, callValueTransferGas = 9000, callNewAccountGas = 25000,
    suicideRefundGas = 24000, memoryGas = 3, quadCoeffDiv = 512, createDataGas = 200,
    txGas = 21000, txCreateGas = 53000, txDataZeroGas = 4, txDataNonZeroGas = 68, copyGas = 3,
    extcodesizeGas = 20, extcodecopyGas = 20, extcodehashGas = 400, balanceGas = 20,
    suicideGas = 0, blockhashGas = 20, maxCodeSize = - 1, blockRewardOverwrite = None\<rparr>"

text \<open>The three-argument constructor.\<close>

definition EVMSchedule_new :: "bool \<Rightarrow> bool \<Rightarrow> u32 \<Rightarrow> EVMSchedule" where
  "EVMSchedule_new efcd hdc txCreate = DefaultSchedule\<lparr>exceptionalFailedCodeDeposit := efcd,
     haveDelegateCall := hdc, txCreateGas := txCreate\<rparr>"

definition FrontierSchedule :: EVMSchedule where
  "FrontierSchedule = EVMSchedule_new False False 21000"

definition HomesteadSchedule :: EVMSchedule where
  "HomesteadSchedule = EVMSchedule_new True True 53000"

definition EIP150Schedule :: EVMSchedule where
  "EIP150Schedule = HomesteadSchedule\<lparr>eip150Mode := True, extcodesizeGas := 700,
     extcodecopyGas := 700, balanceGas := 400, sloadGas := 200, callGas := 700,
     suicideGas := 5000\<rparr>"

definition EIP158Schedule :: EVMSchedule where
  "EIP158Schedule = EIP150Schedule\<lparr>expByteGas := 50, eip158Mode := True,
     maxCodeSize := 1024 * 64\<rparr>"

definition ether :: u256 where
  "ether = 1000000000000000000"

definition ByzantiumSchedule :: EVMSchedule where
  "ByzantiumSchedule = EIP158Schedule\<lparr>haveRevert := True, haveReturnData := True,
     haveStaticCall := True, blockRewardOverwrite := Some (3 * ether)\<rparr>"

definition ConstantinopleSchedule :: EVMSchedule where
  "ConstantinopleSchedule = ByzantiumSchedule\<lparr>haveCreate2 := True, haveBitwiseShifting := True,
     haveExtcodehash := True, eip1283Mode := True, blockRewardOverwrite := Some (2 * ether)\<rparr>"

definition ConstantinopleFixSchedule :: EVMSchedule where
  "ConstantinopleFixSchedule = ConstantinopleSchedule\<lparr>eip1283Mode := False\<rparr>"

definition IstanbulSchedule :: EVMSchedule where
  "IstanbulSchedule = ConstantinopleFixSchedule\<lparr>txDataNonZeroGas := 16, sloadGas := 800,
     balanceGas := 700, extcodehashGas := 700, haveChainID := True, haveSelfbalance := True,
     sstoreUnchangedGas := 800\<rparr>"

definition BerlinSchedule :: EVMSchedule where
  "BerlinSchedule = IstanbulSchedule"

definition ExperimentalSchedule :: EVMSchedule where
  "ExperimentalSchedule = BerlinSchedule\<lparr>accountVersion := 1, blockhashGas := 800\<rparr>"

text \<open>\<open>None\<close> is the failed assertion: no account has another version.\<close>

definition latestScheduleForAccountVersion :: "u256 \<Rightarrow> EVMSchedule option" where
  "latestScheduleForAccountVersion version =
    (if version = 0 then Some IstanbulSchedule
     else if version = ucast (accountVersion ExperimentalSchedule) then Some ExperimentalSchedule
     else None)"

definition staticCallDepthLimit :: "EVMSchedule \<Rightarrow> bool" where
  "staticCallDepthLimit S = (\<not> eip150Mode S)"

definition zeroValueTransferChargesNewAccountGas :: "EVMSchedule \<Rightarrow> bool" where
  "zeroValueTransferChargesNewAccountGas S = (\<not> eip158Mode S)"

lemmas schedule_defs =
  DefaultSchedule_def EVMSchedule_new_def FrontierSchedule_def HomesteadSchedule_def
  EIP150Schedule_def EIP158Schedule_def ByzantiumSchedule_def ConstantinopleSchedule_def
  ConstantinopleFixSchedule_def IstanbulSchedule_def BerlinSchedule_def ExperimentalSchedule_def

end
