(* ===== verification/LegacyVM.thy ===== *)
theory LegacyVM
  imports FixedHash EVM_Instruction EVMSchedule "HOL-Library.Signed_Division"
begin

text \<open>
  \<open>libevm/LegacyVM.cpp\<close>, \<open>LegacyVMCalls.cpp\<close> and \<open>LegacyVMOpt.cpp\<close>: the interpreter, in
  the configuration the build uses (\<open>EIP_615\<close>, \<open>EIP_616\<close> and \<open>EVM_OPTIMIZE\<close> off).  The
  members of \<open>LegacyVM\<close> are a record; a C++ exception is \<open>Inl (e, v)\<close>, with the state at
  the \<open>throw\<close>, because \<open>exec\<close> writes the remaining gas back before rethrowing.

  \<^item> \<open>m_stack\<close> lists the live slots \<open>m_SP[0]\<close>, \<open>m_SP[1]\<close>, .. up to \<open>m_stackEnd\<close>; \<open>m_SPP\<close>
    is the stack that results.  Slots below \<open>m_SP\<close> are never read before they are written.
  \<^item> The members and virtual methods of \<open>ExtVMFace\<close> are the record \<open>ExtVMFace\<close>, over a type
    \<open>'s\<close> of the state behind it.
  \<^item> An access outside an object (undefined behaviour in C++) is the error \<open>UB\<close>.
  \<^item> The observer callbacks (\<open>ON_OP\<close>) do not change the machine and are left out.
\<close>

subsection \<open>State\<close>

datatype vm_error =
  OutOfGas | BadInstruction | BadJumpDestination | StackUnderflow | OutOfStack
  | DisallowedStateChange | BufferOverrun | StorageOverflow | RevertInstruction bytes | UB

record CallParameters =
  cp_senderAddress :: address
  cp_codeAddress :: address
  cp_receiveAddress :: address
  cp_valueTransfer :: u256
  cp_apparentValue :: u256
  cp_gas :: u256
  cp_data :: bytes
  cp_staticCall :: bool

definition CallParameters_new :: CallParameters where
  "CallParameters_new = \<lparr>cp_senderAddress = 0, cp_codeAddress = 0, cp_receiveAddress = 0,
     cp_valueTransfer = 0, cp_apparentValue = 0, cp_gas = 0, cp_data = [], cp_staticCall = False\<rparr>"

text \<open>\<open>status\<close> is \<open>status == EVMC_SUCCESS\<close>; the gas is the by-reference argument on return.\<close>

record CallResult =
  cr_status :: bool
  cr_output :: bytes
  cr_gas :: u256

record CreateResult =
  cre_output :: bytes
  cre_address :: address
  cre_gas :: u256

text \<open>
  \<open>x_refund\<close> adds to \<open>sub.refunds\<close>; \<open>x_setStore\<close> gives \<open>False\<close> when it throws
  \<open>StorageOverflow\<close>; \<open>x_sha3\<close> is \<open>dev::sha3\<close>; \<open>x_pastTier\<close> is whatever word lies behind
  the eight elements of \<open>tierStepGas\<close>.
\<close>

record 's ExtVMFace =
  x_myAddress :: address
  x_caller :: address
  x_origin :: address
  x_value :: u256
  x_gasPrice :: u256
  x_data :: bytes
  x_code :: bytes
  x_depth :: nat
  x_staticCall :: bool
  x_number :: u64
  x_author :: address
  x_timestamp :: u64
  x_difficulty :: u256
  x_gasLimit :: u256
  x_chainID :: u256
  x_evmSchedule :: EVMSchedule
  x_pastTier :: u32
  x_sha3 :: "bytes \<Rightarrow> h256"
  x_store :: "'s \<Rightarrow> u256 \<Rightarrow> u256"
  x_setStore :: "u256 \<Rightarrow> u256 \<Rightarrow> 's \<Rightarrow> bool \<times> 's"
  x_originalStorageValue :: "'s \<Rightarrow> u256 \<Rightarrow> u256"
  x_balance :: "'s \<Rightarrow> address \<Rightarrow> u256"
  x_codeAt :: "'s \<Rightarrow> address \<Rightarrow> bytes"
  x_codeSizeAt :: "'s \<Rightarrow> address \<Rightarrow> nat"
  x_codeHashAt :: "'s \<Rightarrow> address \<Rightarrow> h256"
  x_exists :: "'s \<Rightarrow> address \<Rightarrow> bool"
  x_suicide :: "address \<Rightarrow> 's \<Rightarrow> 's"
  x_create :: "u256 \<Rightarrow> u256 \<Rightarrow> bytes \<Rightarrow> call_instr \<Rightarrow> u256 \<Rightarrow> 's \<Rightarrow> CreateResult \<times> 's"
  x_call :: "CallParameters \<Rightarrow> 's \<Rightarrow> CallResult \<times> 's"
  x_log :: "u256 list \<Rightarrow> bytes \<Rightarrow> 's \<Rightarrow> 's"
  x_blockHash :: "'s \<Rightarrow> u256 \<Rightarrow> h256"
  x_refund :: "int \<Rightarrow> 's \<Rightarrow> 's"

record 's VM =
  m_io_gas :: u64
  m_mem :: bytes
  m_code :: bytes
  m_returnData :: bytes
  m_stack :: "u256 list"
  m_jumpDests :: "nat list"
  m_OP :: Instruction
  m_PC :: nat
  m_runGas :: u64
  m_newMemSize :: u64
  m_copyMemSize :: u64
  m_ext :: 's

type_synonym ('s, 'a) vm_res = "(vm_error \<times> 's VM) + 'a"

definition throw :: "vm_error \<Rightarrow> 's VM \<Rightarrow> ('s, 'a) vm_res" where
  "throw e v = Inl (e, v)"

text \<open>A helper that does not touch the machine throws in the current state.\<close>

definition at :: "'s VM \<Rightarrow> vm_error + 'a \<Rightarrow> ('s, 'a) vm_res" where
  "at v r = (case r of Inl e \<Rightarrow> throw e v | Inr x \<Rightarrow> Inr x)"

abbreviation SP :: "'s VM \<Rightarrow> nat \<Rightarrow> u256" where
  "SP v i \<equiv> m_stack v ! i"

abbreviation sched :: "'s ExtVMFace \<Rightarrow> EVMSchedule" where
  "sched X \<equiv> x_evmSchedule X"

text \<open>\<open>m_SPP[0] = x\<close> for an instruction that removes \<open>k\<close> items and adds one.\<close>

definition setSPP :: "nat \<Rightarrow> u256 \<Rightarrow> 's VM \<Rightarrow> 's VM" where
  "setSPP k x v = v\<lparr>m_stack := x # drop k (m_stack v)\<rparr>"

definition dropSP :: "nat \<Rightarrow> 's VM \<Rightarrow> 's VM" where
  "dropSP k v = v\<lparr>m_stack := drop k (m_stack v)\<rparr>"

datatype 's outcome = Running "'s VM" | Halted bytes "'s VM"

text \<open>The macro \<open>NEXT\<close>.\<close>

definition NEXT :: "'s VM \<Rightarrow> ('s, 's outcome) vm_res" where
  "NEXT v = Inr (Running (v\<lparr>m_PC := m_PC v + 1\<rparr>))"

subsection \<open>Gas and memory\<close>

definition toInt63 :: "nat \<Rightarrow> vm_error + u64" where
  "toInt63 n = (if n > 0x7FFFFFFFFFFFFFFF then Inl OutOfGas else Inr (of_nat n))"

definition memNeed :: "u256 \<Rightarrow> u256 \<Rightarrow> vm_error + u64" where
  "memNeed offset sz = toInt63 (if sz \<noteq> 0 then unat offset + unat sz else 0)"

definition gasForMem :: "EVMSchedule \<Rightarrow> nat \<Rightarrow> vm_error + u64" where
  "gasForMem S sz = (let s = sz div 32 in
     toInt63 (unat (memoryGas S) * s + s * s div unat (quadCoeffDiv S)))"

text \<open>\<open>depth\<close> is \<open>m_stackEnd - m_SPP\<close> at the time of the call.\<close>

definition throwBadStack :: "nat \<Rightarrow> int \<Rightarrow> vm_error" where
  "throwBadStack removed depth = (if depth < int removed then StackUnderflow else OutOfStack)"

definition adjustStack :: "nat \<Rightarrow> nat \<Rightarrow> 's VM \<Rightarrow> ('s, 's VM) vm_res" where
  "adjustStack removed added v =
    (let depth = int (length (m_stack v)) - int removed in
     if depth < 0 then throw (throwBadStack removed depth) v
     else let depth = depth + int added in
       if 1024 < depth then throw (throwBadStack removed depth) v else Inr v)"

definition updateIOGas :: "'s VM \<Rightarrow> ('s, 's VM) vm_res" where
  "updateIOGas v = (if m_io_gas v < m_runGas v then throw OutOfGas v
     else Inr (v\<lparr>m_io_gas := m_io_gas v - m_runGas v\<rparr>))"

definition addRunGas :: "u64 \<Rightarrow> 's VM \<Rightarrow> 's VM" where
  "addRunGas g v = v\<lparr>m_runGas := m_runGas v + g\<rparr>"

definition updateGas :: "EVMSchedule \<Rightarrow> 's VM \<Rightarrow> ('s, 's VM) vm_res" where
  "updateGas S v =
    bindE (if length (m_mem v) < unat (m_newMemSize v)
           then bindE (at v (gasForMem S (unat (m_newMemSize v)))) (\<lambda>g1.
                bindE (at v (gasForMem S (length (m_mem v)))) (\<lambda>g0.
                bindE (at v (toInt63 (unat (g1 - g0)))) (\<lambda>d. Inr (addRunGas d v))))
           else Inr v) (\<lambda>v.
    let v = addRunGas (ucast (copyGas S) * ((m_copyMemSize v + 31) div 32)) v in
    if m_io_gas v < m_runGas v then throw OutOfGas v else Inr v)"

definition resizeMem :: "nat \<Rightarrow> 's VM \<Rightarrow> 's VM" where
  "resizeMem n v = (if length (m_mem v) < n
     then v\<lparr>m_mem := m_mem v @ replicate (n - length (m_mem v)) 0\<rparr> else v)"

definition updateMem :: "EVMSchedule \<Rightarrow> u64 \<Rightarrow> 's VM \<Rightarrow> ('s, 's VM) vm_res" where
  "updateMem S newMem v =
    bindE (updateGas S (v\<lparr>m_newMemSize := (newMem + 31) div 32 * 32\<rparr>)) (\<lambda>v.
    Inr (resizeMem (unat (m_newMemSize v)) v))"

definition updateMemNeed :: "EVMSchedule \<Rightarrow> u256 \<Rightarrow> u256 \<Rightarrow> 's VM \<Rightarrow> ('s, 's VM) vm_res" where
  "updateMemNeed S offset sz v = bindE (at v (memNeed offset sz)) (\<lambda>n. updateMem S n v)"

text \<open>Reading and writing a range of \<open>m_mem\<close>; an empty range touches nothing.\<close>

definition memRead :: "nat \<Rightarrow> nat \<Rightarrow> 's VM \<Rightarrow> ('s, bytes) vm_res" where
  "memRead off n v = (if n = 0 then Inr []
     else if off + n \<le> length (m_mem v) then Inr (take n (drop off (m_mem v))) else throw UB v)"

definition memWrite :: "nat \<Rightarrow> bytes \<Rightarrow> 's VM \<Rightarrow> ('s, 's VM) vm_res" where
  "memWrite off bs v = (if bs = [] then Inr v
     else if off + length bs \<le> length (m_mem v)
     then Inr (v\<lparr>m_mem := take off (m_mem v) @ bs @ drop (off + length bs) (m_mem v)\<rparr>)
     else throw UB v)"

definition setRunGas :: "u64 \<Rightarrow> 's VM \<Rightarrow> 's VM" where
  "setRunGas g v = v\<lparr>m_runGas := g\<rparr>"

definition logGasMem :: "EVMSchedule \<Rightarrow> nat \<Rightarrow> 's VM \<Rightarrow> ('s, 's VM) vm_res" where
  "logGasMem S n v =
    bindE (at v (toInt63 (unat (logGas S + logTopicGas S * of_nat n) +
                          unat (logDataGas S) * unat (SP v 1)))) (\<lambda>g.
    updateMemNeed S (SP v 0) (SP v 1) (setRunGas g v))"

definition refund :: "'s ExtVMFace \<Rightarrow> int \<Rightarrow> 's VM \<Rightarrow> 's VM" where
  "refund X d v = v\<lparr>m_ext := x_refund X d (m_ext v)\<rparr>"

definition updateSSGasPreEIP1283 :: "'s ExtVMFace \<Rightarrow> u256 \<Rightarrow> u256 \<Rightarrow> 's VM \<Rightarrow> 's VM" where
  "updateSSGasPreEIP1283 X current new v = (let S = sched X in
    if current = 0 \<and> new \<noteq> 0 then setRunGas (ucast (sstoreSetGas S)) v
    else if current \<noteq> 0 \<and> new = 0
    then refund X (int (unat (sstoreRefundGas S))) (setRunGas (ucast (sstoreResetGas S)) v)
    else setRunGas (ucast (sstoreResetGas S)) v)"

definition updateSSGasEIP1283 :: "'s ExtVMFace \<Rightarrow> u256 \<Rightarrow> u256 \<Rightarrow> 's VM \<Rightarrow> 's VM" where
  "updateSSGasEIP1283 X current new v = (let S = sched X in
    if current = new then setRunGas (ucast (sstoreUnchangedGas S)) v
    else let original = x_originalStorageValue X (m_ext v) (SP v 0) in
      if original = current then
        if original = 0 then setRunGas (ucast (sstoreSetGas S)) v
        else (let v = setRunGas (ucast (sstoreResetGas S)) v in
          if new = 0 then refund X (int (unat (sstoreRefundGas S))) v else v)
      else
        let v = setRunGas (ucast (sstoreUnchangedGas S)) v;
            v = (if original \<noteq> 0 then
                   let v = (if current = 0 then refund X (- int (unat (sstoreRefundGas S))) v else v)
                   in if new = 0 then refund X (int (unat (sstoreRefundGas S))) v else v
                 else v)
        in if original = new then
             if original = 0
             then refund X (int (unat (sstoreRefundGas S + sstoreRefundNonzeroGas S))) v
             else refund X (int (unat (sstoreRefundNonzeroGas S))) v
           else v)"

definition updateSSGas :: "'s ExtVMFace \<Rightarrow> 's VM \<Rightarrow> 's VM" where
  "updateSSGas X v =
    (let current = x_store X (m_ext v) (SP v 0); new = SP v 1 in
     if eip1283Mode (sched X) then updateSSGasEIP1283 X current new v
     else updateSSGasPreEIP1283 X current new v)"

end
