(* ===== verification/LegacyVM_Cases.thy ===== *)
theory LegacyVM_Cases
  imports LegacyVM
begin

text \<open>
  The instructions of \<open>LegacyVM::interpretCases\<close>, one definition per group of labels of the
  switch, the helpers they use (\<open>exp256\<close>, \<open>copyDataToMemory\<close>, \<open>verifyJumpDest\<close>, the
  call-out cases of \<open>LegacyVMCalls.cpp\<close>) and the interpreter loop.
\<close>

subsection \<open>Arithmetic\<close>

definition u2s :: "u256 \<Rightarrow> int" where
  "u2s u = (if bit u 255 then - (2 ^ 256 - uint u) else uint u)"

definition s2u :: "int \<Rightarrow> u256" where
  "s2u i = (if i \<ge> 0 then of_int i else of_int (2 ^ 256 + i))"

text \<open>Signed division of \<open>s512\<close> truncates towards zero.\<close>

definition divWorkaround :: "int \<Rightarrow> int \<Rightarrow> int" where
  "divWorkaround a b = a sdiv b"

definition modWorkaround :: "int \<Rightarrow> int \<Rightarrow> int" where
  "modWorkaround a b = a smod b"

definition signextend :: "u256 \<Rightarrow> u256 \<Rightarrow> u256" where
  "signextend k number = (if k < 31 then
     let testBit = unat k * 8 + 7; mask = push_bit testBit 1 - 1 in
     if bit number testBit then or number (not mask) else and number mask
   else number)"

definition sar :: "u256 \<Rightarrow> u256 \<Rightarrow> u256" where
  "sar k shiftee =
    (let hibit = push_bit 255 1; allbits = 0xffffffffffffffffffffffffffffffffffffffffffffffffffffffffffffffff in
     if k \<ge> 256 then (if and shiftee hibit \<noteq> 0 then allbits else 0)
     else let amount = unat k; r = drop_bit amount shiftee in
       if and shiftee hibit \<noteq> 0 then or r (push_bit (256 - amount) allbits) else r)"

definition evalArith :: "bin_instr \<Rightarrow> u256 \<Rightarrow> u256 \<Rightarrow> u256" where
  "evalArith i a b = (case i of
     ADD \<Rightarrow> a + b | MUL \<Rightarrow> a * b | SUB \<Rightarrow> a - b
   | DIV \<Rightarrow> (if b \<noteq> 0 then of_int (divWorkaround (uint a) (uint b)) else 0)
   | SDIV \<Rightarrow> (if b \<noteq> 0 then s2u (divWorkaround (u2s a) (u2s b)) else 0)
   | MOD \<Rightarrow> (if b \<noteq> 0 then of_int (modWorkaround (uint a) (uint b)) else 0)
   | SMOD \<Rightarrow> (if b \<noteq> 0 then s2u (modWorkaround (u2s a) (u2s b)) else 0)
   | _ \<Rightarrow> 0)"

definition evalCompare :: "bin_instr \<Rightarrow> u256 \<Rightarrow> u256 \<Rightarrow> u256" where
  "evalCompare i a b = (if (case i of
     LT \<Rightarrow> a < b | GT \<Rightarrow> a > b | SLT \<Rightarrow> u2s a < u2s b | SGT \<Rightarrow> u2s a > u2s b
   | EQ \<Rightarrow> a = b | _ \<Rightarrow> False) then 1 else 0)"

definition evalBits :: "bin_instr \<Rightarrow> u256 \<Rightarrow> u256 \<Rightarrow> u256" where
  "evalBits i a b = (case i of
     AND \<Rightarrow> and a b | OR \<Rightarrow> or a b | XOR \<Rightarrow> xor a b
   | BYTE \<Rightarrow> (if a < 32 then and (drop_bit (unat (ucast (8 * (31 - a)) :: u32)) b) 0xff else 0)
   | SHL \<Rightarrow> (if a \<ge> 256 then 0 else push_bit (unat (ucast a :: u32)) b)
   | SHR \<Rightarrow> (if a \<ge> 256 then 0 else drop_bit (unat (ucast a :: u32)) b)
   | _ \<Rightarrow> 0)"

definition evalBin :: "bin_instr \<Rightarrow> u256 \<Rightarrow> u256 \<Rightarrow> u256" where
  "evalBin i a b =
    (if i \<in> {ADD, MUL, SUB, DIV, SDIV, MOD, SMOD} then evalArith i a b
     else if i \<in> {LT, GT, SLT, SGT, EQ} then evalCompare i a b
     else if i = SIGNEXTEND then signextend a b
     else if i = SAR then sar a b
     else evalBits i a b)"

text \<open>\<open>ON_OP(); updateIOGas(); m_SPP[0] = f\<close>.\<close>

definition simple :: "nat \<Rightarrow> ('s VM \<Rightarrow> u256) \<Rightarrow> 's VM \<Rightarrow> ('s, 's outcome) vm_res" where
  "simple k f v = bindE (updateIOGas v) (\<lambda>v. NEXT (setSPP k (f v) v))"

definition case_bin :: "'s ExtVMFace \<Rightarrow> bin_instr \<Rightarrow> 's VM \<Rightarrow> ('s, 's outcome) vm_res" where
  "case_bin X i v =
    (if i \<in> {SHL, SHR, SAR} \<and> \<not> haveBitwiseShifting (sched X) then throw BadInstruction v
     else simple 2 (\<lambda>v. evalBin i (SP v 0) (SP v 1)) v)"

definition addmod :: "u256 \<Rightarrow> u256 \<Rightarrow> u256 \<Rightarrow> u256" where
  "addmod a b m = (if m \<noteq> 0 then of_nat ((unat a + unat b) mod unat m) else 0)"

definition mulmod :: "u256 \<Rightarrow> u256 \<Rightarrow> u256 \<Rightarrow> u256" where
  "mulmod a b m = (if m \<noteq> 0 then of_nat ((unat a * unat b) mod unat m) else 0)"

text \<open>\<open>exp256\<close>: exponentiation by squaring, with \<open>u256\<close> multiplication.\<close>

function exp256_loop :: "u256 \<Rightarrow> u256 \<Rightarrow> u256 \<Rightarrow> u256" where
  "exp256_loop result base expon =
    (if expon = 0 then result
     else exp256_loop (if and expon 1 = 1 then result * base else result) (base * base)
            (drop_bit 1 expon))"
  by pat_completeness auto

lemma unat_drop_bit_less: "(w :: u256) \<noteq> 0 \<Longrightarrow> unat (drop_bit 1 w) < unat w"
  by (simp only: unat_drop_bit_eq) (simp add: drop_bit_Suc unat_gt_0)

termination exp256_loop
  by (relation "measure (\<lambda>(r, b, e). unat e)") (use unat_drop_bit_less in auto)

declare exp256_loop.simps [simp del]

definition exp256 :: "u256 \<Rightarrow> u256 \<Rightarrow> u256" where
  "exp256 base expon = exp256_loop 1 base expon"

text \<open>\<open>FixedHash::firstBitSet\<close>: the number of leading zero bits.\<close>

function leadingZeros :: "byte \<Rightarrow> nat" where
  "leadingZeros d = (if d = 0 \<or> bit d 7 then 0 else Suc (leadingZeros (push_bit 1 d)))"
  by pat_completeness auto

lemma unat_push_bit_1: "\<not> bit (d :: byte) 7 \<Longrightarrow> unat (push_bit 1 d) = 2 * unat d"
proof -
  assume b: "\<not> bit d 7"
  have "unat d < 128"
  proof (rule ccontr)
    assume "\<not> unat d < 128"
    then have "unat d div 128 = 1" using unat_byte_less [of d] by linarith
    then have "bit (unat d) 7" by (simp add: bit_iff_odd)
    with b show False by (simp add: bit_unsigned_iff)
  qed
  then show ?thesis
    by (simp add: push_bit_eq_mult unat_word_ariths take_bit_eq_mod flip: unat_of_nat)
qed

lemma push_bit_greater: "d \<noteq> 0 \<Longrightarrow> \<not> bit (d :: byte) 7 \<Longrightarrow> unat d < unat (push_bit 1 d)"
  by (subst unat_push_bit_1) (simp_all add: unat_gt_0)

termination leadingZeros
  by (relation "measure (\<lambda>d. 256 - unat d)")
    (auto simp: dest!: push_bit_greater intro!: diff_less_mono2 unat_byte_less)

declare leadingZeros.simps [simp del]

fun firstBitSet :: "bytes \<Rightarrow> nat" where
  "firstBitSet [] = 0"
| "firstBitSet (d # ds) = (if d \<noteq> 0 then leadingZeros d else 8 + firstBitSet ds)"

definition case_exp :: "'s ExtVMFace \<Rightarrow> 's VM \<Rightarrow> ('s, 's outcome) vm_res" where
  "case_exp X v =
    (let expon = SP v 1; S = sched X in
     bindE (at v (toInt63 (unat (expGas S +
       expByteGas S * (32 - of_nat (firstBitSet (h256_bytes expon) div 8)))))) (\<lambda>g.
     simple 2 (\<lambda>v. exp256 (SP v 0) expon) (setRunGas g v)))"

end
