(* ===== verification/LegacyVM_Interp.thy ===== *)
theory LegacyVM_Interp
  imports LegacyVM_Cases
begin

text \<open>
  The remaining instruction groups of \<open>interpretCases\<close>, the call-out cases \<open>caseCreate\<close>,
  \<open>caseCallSetup\<close> and \<open>caseCall\<close>, the code preparation of \<open>optimize\<close> and the interpreter
  loop \<open>exec\<close>.
\<close>

abbreviation as_u64 :: "u256 \<Rightarrow> nat" where
  "as_u64 x \<equiv> unat (ucast x :: u64)"

abbreviation as_unsigned :: "u256 \<Rightarrow> nat" where
  "as_unsigned x \<equiv> unat (ucast x :: u32)"

definition asAddress :: "u256 \<Rightarrow> address" where
  "asAddress x = ucast x"

definition fromAddress :: "address \<Rightarrow> u256" where
  "fromAddress a = ucast a"

definition setCopyMem :: "u64 \<Rightarrow> 's VM \<Rightarrow> 's VM" where
  "setCopyMem n v = v\<lparr>m_copyMemSize := n\<rparr>"

subsection \<open>Halting instructions\<close>

text \<open>\<open>RETURN\<close> and \<open>REVERT\<close>: pay for the memory and take the output from it.\<close>

definition haltOutput :: "'s ExtVMFace \<Rightarrow> 's VM \<Rightarrow> ('s, bytes \<times> 's VM) vm_res" where
  "haltOutput X v =
    bindE (updateMemNeed (sched X) (SP v 0) (SP v 1) (setCopyMem 0 v)) (\<lambda>v.
    bindE (updateIOGas v) (\<lambda>v.
    bindE (memRead (as_u64 (SP v 0)) (as_u64 (SP v 1)) v) (\<lambda>out. Inr (out, v))))"

definition case_suicide :: "'s ExtVMFace \<Rightarrow> 's VM \<Rightarrow> ('s, 's outcome) vm_res" where
  "case_suicide X v =
    (if x_staticCall X then throw DisallowedStateChange v
     else let S = sched X; v = setRunGas (ucast (suicideGas S)) v; dest = asAddress (SP v 0);
              v = (if eip150Mode S \<and> (\<not> eip158Mode S \<or> x_balance X (m_ext v) (x_myAddress X) > 0)
                      \<and> \<not> x_exists X (m_ext v) dest
                   then addRunGas (ucast (callNewAccountGas S)) v else v)
          in bindE (updateIOGas v) (\<lambda>v.
             Inr (Halted [] (dropSP 1 (v\<lparr>m_ext := x_suicide X dest (m_ext v)\<rparr>)))))"

definition case_halt :: "'s ExtVMFace \<Rightarrow> halt_instr \<Rightarrow> 's VM \<Rightarrow> ('s, 's outcome) vm_res" where
  "case_halt X i v = (case i of
     STOP \<Rightarrow> bindE (updateIOGas v) (\<lambda>v. Inr (Halted [] v))
   | RETURN \<Rightarrow> bindE (haltOutput X v) (\<lambda>(out, v). Inr (Halted out (dropSP 2 v)))
   | REVERT \<Rightarrow> (if \<not> haveRevert (sched X) then throw BadInstruction v
                else bindE (haltOutput X v) (\<lambda>(out, v). throw (RevertInstruction out) v))
   | SUICIDE \<Rightarrow> case_suicide X v)"

subsection \<open>Memory\<close>

text \<open>The access itself; the offset is cast to \<open>unsigned\<close>, which keeps its low 32 bits.\<close>

definition memAccess :: "mem_instr \<Rightarrow> 's VM \<Rightarrow> ('s, 's outcome) vm_res" where
  "memAccess i v = (case i of
     MLOAD \<Rightarrow> bindE (memRead (as_unsigned (SP v 0)) 32 v) (\<lambda>bs.
              NEXT (setSPP 1 (of_nat (fromBigEndian bs)) v))
   | MSTORE \<Rightarrow> bindE (memWrite (as_unsigned (SP v 0)) (h256_bytes (SP v 1)) v) (\<lambda>v.
               NEXT (dropSP 2 v))
   | MSTORE8 \<Rightarrow> bindE (memWrite (as_unsigned (SP v 0)) [ucast (and (SP v 1) 0xff)] v) (\<lambda>v.
                NEXT (dropSP 2 v)))"

definition case_mem :: "'s ExtVMFace \<Rightarrow> mem_instr \<Rightarrow> 's VM \<Rightarrow> ('s, 's outcome) vm_res" where
  "case_mem X i v =
    bindE (at v (toInt63 (unat (SP v 0)))) (\<lambda>off.
    bindE (updateMem (sched X) (off + (if i = MSTORE8 then 1 else 32)) v) (\<lambda>v.
    bindE (updateIOGas v) (memAccess i)))"

definition case_sha3 :: "'s ExtVMFace \<Rightarrow> 's VM \<Rightarrow> ('s, 's outcome) vm_res" where
  "case_sha3 X v = (let S = sched X in
    bindE (at v (toInt63 (unat (sha3Gas S) + (unat (SP v 1) + 31) div 32 * unat (sha3WordGas S)))) (\<lambda>g.
    bindE (updateMemNeed S (SP v 0) (SP v 1) (setRunGas g v)) (\<lambda>v.
    bindE (updateIOGas v) (\<lambda>v.
    bindE (memRead (as_u64 (SP v 0)) (as_u64 (SP v 1)) v) (\<lambda>bs.
    NEXT (setSPP 2 (x_sha3 X bs) v))))))"

definition case_log :: "'s ExtVMFace \<Rightarrow> nat \<Rightarrow> 's VM \<Rightarrow> ('s, 's outcome) vm_res" where
  "case_log X n v =
    (if x_staticCall X then throw DisallowedStateChange v
     else bindE (logGasMem (sched X) n v) (\<lambda>v.
          bindE (updateIOGas v) (\<lambda>v.
          bindE (memRead (as_u64 (SP v 0)) (as_u64 (SP v 1)) v) (\<lambda>bs.
          NEXT (dropSP (n + 2)
            (v\<lparr>m_ext := x_log X (take n (drop 2 (m_stack v))) bs (m_ext v)\<rparr>))))))"

text \<open>\<open>_sp[0]\<close>, \<open>_sp[1]\<close>, \<open>_sp[2]\<close> are the memory offset, the data index and the size.\<close>

definition copyDataToMemory :: "bytes \<Rightarrow> u256 \<Rightarrow> u256 \<Rightarrow> u256 \<Rightarrow> 's VM \<Rightarrow> ('s, 's VM) vm_res" where
  "copyDataToMemory data sp0 bigIndex sp2 v =
    (let offset = as_u64 sp0; index = as_u64 bigIndex; sz = as_u64 sp2;
         sizeToBeCopied =
           (if length data < unat bigIndex + sz
            then if length data < unat bigIndex then 0 else length data - index
            else sz)
     in bindE (if sizeToBeCopied > 0
               then if length data < index + sizeToBeCopied then throw UB v
                    else memWrite offset (take sizeToBeCopied (drop index data)) v
               else Inr v) (\<lambda>v.
        if sz > sizeToBeCopied
        then memWrite (offset + sizeToBeCopied) (replicate (sz - sizeToBeCopied) 0) v
        else Inr v))"

text \<open>
  The four copying instructions: the bounds check of \<open>RETURNDATACOPY\<close>, the price of the
  copied words and of the memory, then the copy.  \<open>k\<close> is the position of the first of
  the three arguments of \<open>copyDataToMemory\<close>.
\<close>

definition copyData :: "'s ExtVMFace \<Rightarrow> nat \<Rightarrow> ('s VM \<Rightarrow> bytes) \<Rightarrow> 's VM \<Rightarrow> ('s, 's outcome) vm_res" where
  "copyData X k src v =
    bindE (at v (toInt63 (unat (SP v (k + 2))))) (\<lambda>n.
    bindE (updateMemNeed (sched X) (SP v k) (SP v (k + 2)) (setCopyMem n v)) (\<lambda>v.
    bindE (updateIOGas v) (\<lambda>v.
    bindE (copyDataToMemory (src v) (SP v k) (SP v (k + 1)) (SP v (k + 2)) v) (\<lambda>v.
    NEXT (dropSP (k + 3) v)))))"

definition case_copy :: "'s ExtVMFace \<Rightarrow> copy_instr \<Rightarrow> 's VM \<Rightarrow> ('s, 's outcome) vm_res" where
  "case_copy X i v = (case i of
     CALLDATACOPY \<Rightarrow> copyData X 0 (\<lambda>v. x_data X) v
   | CODECOPY \<Rightarrow> copyData X 0 (\<lambda>v. x_code X) v
   | RETURNDATACOPY \<Rightarrow>
       (if \<not> haveReturnData (sched X) then throw BadInstruction v
        else if length (m_returnData v) < unat (SP v 1) + unat (SP v 2) then throw BufferOverrun v
        else copyData X 0 m_returnData v)
   | EXTCODECOPY \<Rightarrow>
       copyData X 1 (\<lambda>v. x_codeAt X (m_ext v) (asAddress (SP v 0)))
         (setRunGas (ucast (extcodecopyGas (sched X))) v))"

subsection \<open>Environment and storage\<close>

definition evalEnv :: "'s ExtVMFace \<Rightarrow> env_instr \<Rightarrow> 's VM \<Rightarrow> u256" where
  "evalEnv X i v = (case i of
     ADDRESS \<Rightarrow> fromAddress (x_myAddress X) | ORIGIN \<Rightarrow> fromAddress (x_origin X)
   | CALLER \<Rightarrow> fromAddress (x_caller X) | CALLVALUE \<Rightarrow> x_value X
   | CALLDATASIZE \<Rightarrow> of_nat (length (x_data X)) | CODESIZE \<Rightarrow> of_nat (length (x_code X))
   | RETURNDATASIZE \<Rightarrow> of_nat (length (m_returnData v))
   | GASPRICE \<Rightarrow> x_gasPrice X
   | COINBASE \<Rightarrow> fromAddress (x_author X) | TIMESTAMP \<Rightarrow> scast (x_timestamp X)
   | NUMBER \<Rightarrow> scast (x_number X) | DIFFICULTY \<Rightarrow> x_difficulty X | GASLIMIT \<Rightarrow> x_gasLimit X
   | CHAINID \<Rightarrow> x_chainID X | SELFBALANCE \<Rightarrow> x_balance X (m_ext v) (x_myAddress X)
   | PC \<Rightarrow> of_nat (m_PC v) | MSIZE \<Rightarrow> of_nat (length (m_mem v)) | GAS \<Rightarrow> ucast (m_io_gas v))"

definition case_env :: "'s ExtVMFace \<Rightarrow> env_instr \<Rightarrow> 's VM \<Rightarrow> ('s, 's outcome) vm_res" where
  "case_env X i v =
    (if i = RETURNDATASIZE \<and> \<not> haveReturnData (sched X) \<or> i = CHAINID \<and> \<not> haveChainID (sched X)
        \<or> i = SELFBALANCE \<and> \<not> haveSelfbalance (sched X)
     then throw BadInstruction v
     else simple 0 (evalEnv X i) v)"

text \<open>\<open>CALLDATALOAD\<close>: 32 bytes of the input, with zeros past its end.\<close>

definition calldataload :: "bytes \<Rightarrow> u256 \<Rightarrow> u256" where
  "calldataload data off =
    (if unat off + 31 < length data
     then of_nat (fromBigEndian (take 32 (drop (unat off) data)))
     else if unat off \<ge> length data then 0
     else of_nat (fromBigEndian (map (\<lambda>i. if i < length data then data ! i else 0)
                                  [unat off ..< unat off + 32])))"

definition evalQuery :: "'s ExtVMFace \<Rightarrow> query_instr \<Rightarrow> 's VM \<Rightarrow> u256" where
  "evalQuery X i v = (let a = SP v 0 in case i of
     BALANCE \<Rightarrow> x_balance X (m_ext v) (asAddress a)
   | CALLDATALOAD \<Rightarrow> calldataload (x_data X) a
   | EXTCODESIZE \<Rightarrow> of_nat (x_codeSizeAt X (m_ext v) (asAddress a))
   | EXTCODEHASH \<Rightarrow> x_codeHashAt X (m_ext v) (asAddress a)
   | BLOCKHASH \<Rightarrow> x_blockHash X (m_ext v) a
   | SLOAD \<Rightarrow> x_store X (m_ext v) a)"

definition queryGas :: "EVMSchedule \<Rightarrow> query_instr \<Rightarrow> 's VM \<Rightarrow> 's VM" where
  "queryGas S i v = (case i of
     BALANCE \<Rightarrow> setRunGas (ucast (balanceGas S)) v
   | CALLDATALOAD \<Rightarrow> v
   | EXTCODESIZE \<Rightarrow> setRunGas (ucast (extcodesizeGas S)) v
   | EXTCODEHASH \<Rightarrow> setRunGas (ucast (extcodehashGas S)) v
   | BLOCKHASH \<Rightarrow> setRunGas (ucast (blockhashGas S)) v
   | SLOAD \<Rightarrow> setRunGas (ucast (sloadGas S)) v)"

definition case_query :: "'s ExtVMFace \<Rightarrow> query_instr \<Rightarrow> 's VM \<Rightarrow> ('s, 's outcome) vm_res" where
  "case_query X i v =
    (if i = EXTCODEHASH \<and> \<not> haveExtcodehash (sched X) then throw BadInstruction v
     else simple 1 (evalQuery X i) (queryGas (sched X) i v))"

definition case_sstore :: "'s ExtVMFace \<Rightarrow> 's VM \<Rightarrow> ('s, 's outcome) vm_res" where
  "case_sstore X v =
    (if x_staticCall X then throw DisallowedStateChange v
     else bindE (updateIOGas (updateSSGas X v)) (\<lambda>v.
       let (stored, s) = x_setStore X (SP v 0) (SP v 1) (m_ext v); v = v\<lparr>m_ext := s\<rparr> in
       if stored then NEXT (dropSP 2 v) else throw StorageOverflow v))"

subsection \<open>Stack and control flow\<close>

definition case_push :: "'s ExtVMFace \<Rightarrow> nat \<Rightarrow> 's VM \<Rightarrow> ('s, 's outcome) vm_res" where
  "case_push X n v =
    (if n = 0 then
       if \<not> havePush0 (sched X) then throw BadInstruction v
       else bindE (updateIOGas v) (\<lambda>v. NEXT (setSPP 0 0 v))
     else bindE (updateIOGas v) (\<lambda>v.
       if length (m_code v) \<le> m_PC v + n then throw UB v
       else Inr (Running ((setSPP 0 (fromBigEndian_word (take n (drop (m_PC v + 1) (m_code v)))) v)
              \<lparr>m_PC := m_PC v + 1 + n\<rparr>))))"

definition case_dup :: "nat \<Rightarrow> 's VM \<Rightarrow> ('s, 's outcome) vm_res" where
  "case_dup n v = simple 0 (\<lambda>v. SP v (n - 1)) v"

definition case_swap :: "nat \<Rightarrow> 's VM \<Rightarrow> ('s, 's outcome) vm_res" where
  "case_swap n v = bindE (updateIOGas v) (\<lambda>v.
     NEXT (v\<lparr>m_stack := (m_stack v)[0 := SP v n, n := SP v 0]\<rparr>))"

text \<open>\<open>std::lower_bound\<close> and \<open>std::binary_search\<close> by halving the range.\<close>

function lower_bound :: "nat list \<Rightarrow> nat \<Rightarrow> nat \<Rightarrow> nat \<Rightarrow> nat" where
  "lower_bound xs x first len =
    (if len = 0 then first
     else let half = len div 2; middle = first + half in
       if xs ! middle < x then lower_bound xs x (middle + 1) (len - half - 1)
       else lower_bound xs x first half)"
  by pat_completeness auto

termination
  by (relation "measure (\<lambda>(xs, x, first, len). len)") auto

declare lower_bound.simps [simp del]

definition binary_search :: "nat list \<Rightarrow> nat \<Rightarrow> bool" where
  "binary_search xs x = (let i = lower_bound xs x 0 (length xs) in i < length xs \<and> \<not> x < xs ! i)"

definition verifyJumpDest :: "nat list \<Rightarrow> u256 \<Rightarrow> vm_error + nat" where
  "verifyJumpDest dests dest =
    (if dest \<le> 0x7FFFFFFFFFFFFFFF \<and> binary_search dests (as_u64 dest) then Inr (as_u64 dest)
     else Inl BadJumpDestination)"

definition case_jump :: "'s VM \<Rightarrow> ('s, 's outcome) vm_res" where
  "case_jump v = bindE (updateIOGas v) (\<lambda>v.
     bindE (at v (verifyJumpDest (m_jumpDests v) (SP v 0))) (\<lambda>pc.
     Inr (Running ((dropSP 1 v)\<lparr>m_PC := pc\<rparr>))))"

definition case_jumpi :: "'s VM \<Rightarrow> ('s, 's outcome) vm_res" where
  "case_jumpi v = bindE (updateIOGas v) (\<lambda>v.
     if SP v 1 \<noteq> 0 then
       bindE (at v (verifyJumpDest (m_jumpDests v) (SP v 0))) (\<lambda>pc.
       Inr (Running ((dropSP 2 v)\<lparr>m_PC := pc\<rparr>)))
     else NEXT (dropSP 2 v))"

end
