(* ===== verification/LegacyVM_Exec.thy ===== *)
theory LegacyVM_Exec
  imports LegacyVM_Interp
begin

text \<open>
  The cases that call out (\<open>caseCreate\<close>, \<open>caseCallSetup\<close>, \<open>caseCall\<close> of
  \<open>LegacyVMCalls.cpp\<close>), the preparation of the code (\<open>copyCode\<close>, \<open>optimize\<close> of
  \<open>LegacyVMOpt.cpp\<close>), \<open>fetchInstruction\<close>, the switch and the interpreter loop of
  \<open>LegacyVM::exec\<close>.  The loop carries fuel, one unit per instruction; \<open>None\<close> is an
  exhausted fuel.
\<close>

subsection \<open>Calling out\<close>

text \<open>\<open>max\<close> of the memory that the input and the output of a call need.\<close>

definition callMemNeed :: "u256 \<Rightarrow> u256 \<Rightarrow> u256 \<Rightarrow> u256 \<Rightarrow> vm_error + u64" where
  "callMemNeed inOff inSize outOff outSize =
    bindE (memNeed inOff inSize) (\<lambda>a. bindE (memNeed outOff outSize) (\<lambda>b. Inr (max a b)))"

text \<open>The gas a call may use: all of the argument, or all but one 64th of what is left.\<close>

definition callGasLimit :: "EVMSchedule \<Rightarrow> u256 \<Rightarrow> u64 \<Rightarrow> u256" where
  "callGasLimit S requested io_gas =
    (if staticCallDepthLimit S then requested
     else min requested (ucast (io_gas - io_gas div 64)))"

definition haveValueArg :: "call_instr \<Rightarrow> bool" where
  "haveValueArg i = (i = CALL \<or> i = CALLCODE)"

text \<open>The fixed price of a call, before memory and the forwarded gas.\<close>

definition callBaseGas :: "'s ExtVMFace \<Rightarrow> call_instr \<Rightarrow> 's VM \<Rightarrow> 's VM" where
  "callBaseGas X i v =
    (let S = sched X; v = setRunGas (ucast (callGas S)) v;
         v = (if i = CALL \<and> (SP v 2 > 0 \<or> zeroValueTransferChargesNewAccountGas S)
                 \<and> \<not> x_exists X (m_ext v) (asAddress (SP v 1))
              then addRunGas (ucast (callNewAccountGas S)) v else v)
     in if haveValueArg i \<and> SP v 2 > 0 then addRunGas (ucast (callValueTransferGas S)) v else v)"

text \<open>
  The second half of \<open>caseCallSetup\<close>, once the static costs are paid: the result is
  whether the call goes ahead, the parameters and the range of memory that receives the
  output.
\<close>

definition callForward ::
    "'s ExtVMFace \<Rightarrow> call_instr \<Rightarrow> address \<Rightarrow> u256 \<Rightarrow> u256 \<Rightarrow> u256 \<Rightarrow> u256 \<Rightarrow> 's VM \<Rightarrow>
     ('s, bool \<times> CallParameters \<times> nat \<times> nat \<times> 's VM) vm_res" where
  "callForward X i dest inOff inSize outOff outSize v =
    (let S = sched X; val = haveValueArg i; gas = callGasLimit S (SP v 0) (m_io_gas v) in
     bindE (at v (toInt63 (unat gas))) (\<lambda>g.
     bindE (updateIOGas (setRunGas g v)) (\<lambda>v.
     let gas = (if val \<and> SP v 2 > 0 then gas + ucast (callStipend S) else gas);
         transfer = (if val then SP v 2 else 0);
         apparent = (if val then SP v 2 else if i = DELEGATECALL then x_value X else 0);
         cp = CallParameters_new\<lparr>cp_staticCall := (i = STATICCALL \<or> x_staticCall X),
                cp_gas := gas, cp_codeAddress := dest, cp_valueTransfer := transfer,
                cp_apparentValue := apparent\<rparr> in
     if x_balance X (m_ext v) (x_myAddress X) \<ge> transfer \<and> x_depth X < 1024 then
       bindE (memRead (as_u64 inOff) (as_u64 inSize) v) (\<lambda>input.
       Inr (True, cp\<lparr>cp_senderAddress := (if i = DELEGATECALL then x_caller X else x_myAddress X),
                     cp_receiveAddress := (if i = CALL \<or> i = STATICCALL then dest else x_myAddress X),
                     cp_data := input\<rparr>, as_u64 outOff, as_u64 outSize, v))
     else Inr (False, cp, 0, 0, v))))"

definition caseCallSetup ::
    "'s ExtVMFace \<Rightarrow> call_instr \<Rightarrow> 's VM \<Rightarrow> ('s, bool \<times> CallParameters \<times> nat \<times> nat \<times> 's VM) vm_res" where
  "caseCallSetup X i v =
    (let k = (if haveValueArg i then 3 else 2);
         inOff = SP v k; inSize = SP v (k + 1); outOff = SP v (k + 2); outSize = SP v (k + 3);
         dest = asAddress (SP v 1); v = callBaseGas X i v in
     bindE (at v (callMemNeed inOff inSize outOff outSize)) (\<lambda>n.
     bindE (updateMem (sched X) n v) (\<lambda>v.
     bindE (updateIOGas v) (callForward X i dest inOff inSize outOff outSize))))"

definition addIOGas :: "u256 \<Rightarrow> 's VM \<Rightarrow> 's VM" where
  "addIOGas g v = v\<lparr>m_io_gas := m_io_gas v + ucast g\<rparr>"

definition caseCall :: "'s ExtVMFace \<Rightarrow> call_instr \<Rightarrow> 's VM \<Rightarrow> ('s, 's outcome) vm_res" where
  "caseCall X i v =
    bindE (caseCallSetup X i (v\<lparr>m_returnData := []\<rparr>)) (\<lambda>(ok, cp, outOff, outSize, v).
    let k = args (call_info i) in
    if ok then
      let (r, s) = x_call X cp (m_ext v) in
      bindE (memWrite outOff (take outSize (cr_output r)) (v\<lparr>m_ext := s\<rparr>)) (\<lambda>v.
      NEXT (addIOGas (cr_gas r) (setSPP k (if cr_status r then 1 else 0)
        (v\<lparr>m_returnData := cr_output r\<rparr>))))
    else NEXT (addIOGas (cp_gas cp) (setSPP k 0 v)))"

definition createBaseGas :: "EVMSchedule \<Rightarrow> call_instr \<Rightarrow> 's VM \<Rightarrow> ('s, 's VM) vm_res" where
  "createBaseGas S i v =
    (let v = setRunGas (ucast (createGas S)) v in
     if i = CREATE2
     then bindE (at v (toInt63 ((unat (SP v 2) + 31) div 32 * unat (sha3WordGas S)))) (\<lambda>g.
          Inr (addRunGas g v))
     else Inr v)"

definition caseCreate :: "'s ExtVMFace \<Rightarrow> call_instr \<Rightarrow> 's VM \<Rightarrow> ('s, 's outcome) vm_res" where
  "caseCreate X i v =
    (let S = sched X; k = args (call_info i); endowment = SP v 0; initOff = SP v 1;
         initSize = SP v 2; salt = (if i = CREATE2 then SP v 3 else 0) in
     bindE (createBaseGas S i v) (\<lambda>v.
     bindE (updateMemNeed S initOff initSize v) (\<lambda>v.
     bindE (updateIOGas v) (\<lambda>v.
     let v = v\<lparr>m_returnData := []\<rparr> in
     if x_balance X (m_ext v) (x_myAddress X) \<ge> endowment \<and> x_depth X < 1024 then
       let io_gas = (ucast (m_io_gas v) :: u256);
           create_gas = (if staticCallDepthLimit S then io_gas else io_gas - io_gas div 64) in
       bindE (memRead (as_u64 initOff) (as_u64 initSize) v) (\<lambda>initCode.
       let (r, s) = x_create X endowment create_gas initCode i salt (m_ext v) in
       NEXT ((setSPP k (fromAddress (cre_address r)) v)
         \<lparr>m_ext := s, m_returnData := cre_output r,
          m_io_gas := ucast (io_gas - (create_gas - cre_gas r))\<rparr>))
     else NEXT (setSPP k 0 v)))))"

definition case_call :: "'s ExtVMFace \<Rightarrow> call_instr \<Rightarrow> 's VM \<Rightarrow> ('s, 's outcome) vm_res" where
  "case_call X i v = (let S = sched X in
    if i = CREATE2 \<and> \<not> haveCreate2 S then throw BadInstruction v
    else if i = CREATE2 \<or> i = CREATE then
      if x_staticCall X then throw DisallowedStateChange v else caseCreate X i v
    else if i = DELEGATECALL \<and> \<not> haveDelegateCall S then throw BadInstruction v
    else if i = STATICCALL \<and> \<not> haveStaticCall S then throw BadInstruction v
    else if i = CALL \<and> x_staticCall X \<and> SP v 2 \<noteq> 0 then throw DisallowedStateChange v
    else caseCall X i v)"

subsection \<open>Fetch and dispatch\<close>

definition tierGas :: "'s ExtVMFace \<Rightarrow> Tier \<Rightarrow> u32" where
  "tierGas X t = (if tier_index t < length (tierStepGas (sched X))
     then tierStepGas (sched X) ! tier_index t else x_pastTier X)"

definition fetchInstruction :: "'s ExtVMFace \<Rightarrow> 's VM \<Rightarrow> ('s, 's VM) vm_res" where
  "fetchInstruction X v =
    (if length (m_code v) \<le> m_PC v then throw UB v
     else let op = decode (m_code v ! m_PC v); metric = instructionInfo op;
              v = v\<lparr>m_OP := op\<rparr> in
       bindE (adjustStack (args metric) (ret metric) v) (\<lambda>v.
       Inr (v\<lparr>m_runGas := ucast (tierGas X (gasPriceTier metric)),
              m_newMemSize := of_nat (length (m_mem v)), m_copyMemSize := 0\<rparr>)))"

definition interpretCase :: "'s ExtVMFace \<Rightarrow> 's VM \<Rightarrow> ('s, 's outcome) vm_res" where
  "interpretCase X v = (case m_OP v of
     Bin i \<Rightarrow> case_bin X i v
   | NOT \<Rightarrow> simple 1 (\<lambda>v. not (SP v 0)) v
   | ISZERO \<Rightarrow> simple 1 (\<lambda>v. if SP v 0 \<noteq> 0 then 0 else 1) v
   | ADDMOD \<Rightarrow> simple 3 (\<lambda>v. addmod (SP v 0) (SP v 1) (SP v 2)) v
   | MULMOD \<Rightarrow> simple 3 (\<lambda>v. mulmod (SP v 0) (SP v 1) (SP v 2)) v
   | EXP \<Rightarrow> case_exp X v
   | SHA3 \<Rightarrow> case_sha3 X v
   | Env i \<Rightarrow> case_env X i v
   | Query i \<Rightarrow> case_query X i v
   | Copy i \<Rightarrow> case_copy X i v
   | Mem i \<Rightarrow> case_mem X i v
   | Halt i \<Rightarrow> case_halt X i v
   | Call i \<Rightarrow> case_call X i v
   | POP \<Rightarrow> bindE (updateIOGas v) (\<lambda>v. NEXT (dropSP 1 v))
   | SSTORE \<Rightarrow> case_sstore X v
   | JUMP \<Rightarrow> case_jump v
   | JUMPI \<Rightarrow> case_jumpi v
   | JUMPDEST \<Rightarrow> bindE (updateIOGas (setRunGas 1 v)) NEXT
   | PUSH n \<Rightarrow> case_push X n v
   | DUP n \<Rightarrow> case_dup n v
   | SWAP n \<Rightarrow> case_swap n v
   | LOG n \<Rightarrow> case_log X n v
   | Synthetic i \<Rightarrow> throw BadInstruction v
   | Eip615 i \<Rightarrow> throw BadInstruction v
   | Simd i \<Rightarrow> throw BadInstruction v
   | INVALID \<Rightarrow> throw BadInstruction v
   | Undefined \<Rightarrow> throw BadInstruction v)"

definition step :: "'s ExtVMFace \<Rightarrow> 's VM \<Rightarrow> ('s, 's outcome) vm_res" where
  "step X v = bindE (fetchInstruction X v) (interpretCase X)"

fun interpretCases :: "'s ExtVMFace \<Rightarrow> nat \<Rightarrow> 's VM \<Rightarrow> ('s, bytes \<times> 's VM) vm_res option" where
  "interpretCases X 0 v = None"
| "interpretCases X (Suc fuel) v = (case step X v of
     Inl e \<Rightarrow> Some (Inl e)
   | Inr (Halted out v') \<Rightarrow> Some (Inr (out, v'))
   | Inr (Running v') \<Rightarrow> interpretCases X fuel v')"

subsection \<open>Entry\<close>

definition copyCode :: "bytes \<Rightarrow> nat \<Rightarrow> bytes" where
  "copyCode code extra = code @ replicate extra 0"

text \<open>
  The loop of \<open>optimize\<close> that replaces the synthetic opcodes and collects the jump
  destinations; \<open>n\<close> is \<open>nBytes\<close>.
\<close>

function optimize_loop :: "nat \<Rightarrow> nat \<Rightarrow> bytes \<times> nat list \<Rightarrow> bytes \<times> nat list" where
  "optimize_loop n pc (code, dests) =
    (if pc < n then
       let op = code ! pc;
           code' = (if op = 0xac \<or> op = 0xad \<or> op = 0xae then code[pc := 0xfe] else code) in
       if op = 0x5b then optimize_loop n (pc + 1) (code', dests @ [pc])
       else if 0x60 \<le> op \<and> op \<le> 0x7f
       then optimize_loop n (pc + unat (op - 0x60) + 1 + 1) (code', dests)
       else optimize_loop n (pc + 1) (code', dests)
     else (code, dests))"
  by pat_completeness auto

termination
  by (relation "measure (\<lambda>(n, pc, c). n - pc)") auto

declare optimize_loop.simps [simp del]

definition optimize :: "bytes \<Rightarrow> bytes \<times> nat list" where
  "optimize code = optimize_loop (length code) 0 (copyCode code 33, [])"

definition initEntry :: "'s ExtVMFace \<Rightarrow> u256 \<Rightarrow> 's \<Rightarrow> 's VM" where
  "initEntry X io_gas s = (let (code, dests) = optimize (x_code X) in
    \<lparr>m_io_gas = ucast io_gas, m_mem = [], m_code = code, m_returnData = [], m_stack = [],
     m_jumpDests = dests, m_OP = Halt STOP, m_PC = 0, m_runGas = 0, m_newMemSize = 0,
     m_copyMemSize = 0, m_ext = s\<rparr>)"

text \<open>
  \<open>exec\<close>: the result is the output or the exception, with the gas written back through
  \<open>_io_gas\<close> and the state behind \<open>_ext\<close>.
\<close>

definition exec :: "'s ExtVMFace \<Rightarrow> nat \<Rightarrow> u256 \<Rightarrow> 's \<Rightarrow> ((vm_error + bytes) \<times> u256 \<times> 's) option" where
  "exec X fuel io_gas s = (case interpretCases X fuel (initEntry X io_gas s) of
     None \<Rightarrow> None
   | Some (Inl (e, v)) \<Rightarrow> Some (Inl e, ucast (m_io_gas v), m_ext v)
   | Some (Inr (out, v)) \<Rightarrow> Some (Inr out, ucast (m_io_gas v), m_ext v))"

end
