(* ===== verification/LegacyVM_Gas.thy ===== *)
theory LegacyVM_Gas
  imports LegacyVM_Exec
begin

text \<open>
  Weakest preconditions for the interpreter's error monad, and the arithmetic of gas and
  memory: \<open>updateGas\<close> computes in 64 bits, and \<open>wp_updateMem\<close> shows that no addition in it
  wraps, so that what an instruction pays for memory is the difference of the prices
  \<open>memCost\<close> of the two sizes.
\<close>

named_theorems wp_simps

definition wp :: "('s, 'a) vm_res \<Rightarrow> (vm_error \<Rightarrow> 's VM \<Rightarrow> bool) \<Rightarrow> ('a \<Rightarrow> bool) \<Rightarrow> bool" where
  "wp m E Q = (case m of Inl (e, v) \<Rightarrow> E e v | Inr x \<Rightarrow> Q x)"

lemma wp_Inr [wp_simps]: "wp (Inr x) E Q = Q x"
  by (simp add: wp_def)

lemma wp_throw [wp_simps]: "wp (throw e v) E Q = E e v"
  by (simp add: wp_def throw_def)

lemma wp_bindE [wp_simps]: "wp (bindE m f) E Q = wp m E (\<lambda>x. wp (f x) E Q)"
  by (auto simp: wp_def bindE_def split: sum.splits)

lemma wp_if [wp_simps]: "wp (if c then a else b) E Q = (if c then wp a E Q else wp b E Q)"
  by simp

lemma wp_mono: "wp m E Q \<Longrightarrow> (\<And>e v. E e v \<Longrightarrow> E' e v) \<Longrightarrow> (\<And>x. Q x \<Longrightarrow> Q' x) \<Longrightarrow> wp m E' Q'"
  by (auto simp: wp_def split: sum.splits)

lemma wp_at:
  "wp (at v r) E Q = (case r of Inl e \<Rightarrow> E e v | Inr x \<Rightarrow> Q x)"
  by (auto simp: at_def wp_simps split: sum.splits)

lemma wp_at_bindE [wp_simps]:
  "wp (at v (bindE m f)) E Q = wp (at v m) E (\<lambda>x. wp (at v (f x)) E Q)"
  by (cases m) (simp_all add: wp_at)

lemma wp_at_Inr [wp_simps]: "wp (at v (Inr x)) E Q = Q x"
  by (simp add: wp_at)

lemma wp_toInt63 [wp_simps]:
  "wp (at v (toInt63 n)) E Q \<longleftrightarrow> (if n < 2 ^ 63 then Q (of_nat n) else E OutOfGas v)"
  by (auto simp: wp_at toInt63_def)

lemma wp_NEXT [wp_simps]: "wp (NEXT v) E Q = Q (Running (v\<lparr>m_PC := m_PC v + 1\<rparr>))"
  by (simp add: NEXT_def wp_simps)

abbreviation io :: "'s VM \<Rightarrow> nat" where
  "io v \<equiv> unat (m_io_gas v)"

abbreviation rg :: "'s VM \<Rightarrow> nat" where
  "rg v \<equiv> unat (m_runGas v)"

lemma wp_updateIOGas [wp_simps]:
  "wp (updateIOGas v) E Q \<longleftrightarrow>
    (if io v < rg v then E OutOfGas v else Q (v\<lparr>m_io_gas := m_io_gas v - m_runGas v\<rparr>))"
  by (simp add: updateIOGas_def wp_simps word_less_nat_alt)

lemma unat_io_minus: "g \<le> w \<Longrightarrow> unat (w - g) = unat w - unat (g :: u64)"
  by (simp add: unat_sub)

lemma unat_of_nat_u64: "n < 2 ^ 64 \<Longrightarrow> unat (of_nat n :: u64) = n"
  by (simp add: unat_of_nat take_bit_eq_mod)

lemma unat_u32_less: "unat (w :: u32) < 2 ^ 32"
  using unsigned_less [of w] by simp

lemma unat_u64_less: "unat (w :: u64) < 2 ^ 64"
  using unsigned_less [of w] by simp

lemma unat_u256_less: "unat (w :: u256) < 2 ^ 256"
  using unsigned_less [of w] by simp

lemma unat_ucast_u32 [simp]: "unat (ucast (w :: u32) :: u64) = unat w"
  using unat_u32_less [of w] by (simp add: unsigned_ucast_eq take_bit_nat_eq_self)

subsection \<open>The price of memory\<close>

definition memCost :: "EVMSchedule \<Rightarrow> nat \<Rightarrow> nat" where
  "memCost S n = (let s = n div 32 in unat (memoryGas S) * s + s * s div unat (quadCoeffDiv S))"

lemma memCost_mono: "m \<le> n \<Longrightarrow> memCost S m \<le> memCost S n"
  by (auto simp: memCost_def Let_def intro!: add_mono mult_le_mono div_le_mono)

lemma memCost_0 [simp]: "memCost S 0 = 0"
  by (simp add: memCost_def)

lemma gasForMem_alt: "gasForMem S n = toInt63 (memCost S n)"
  by (simp add: gasForMem_def memCost_def Let_def)

text \<open>Rounding up to whole words, as \<open>updateMem\<close> does.\<close>

definition words :: "nat \<Rightarrow> nat" where
  "words n = (n + 31) div 32 * 32"

lemma words_ge: "n \<le> words n" and words_dvd: "32 dvd words n" and words_le: "words n \<le> n + 31"
  unfolding words_def by presburger+

lemma unat_words: "unat n < 2 ^ 64 - 31 \<Longrightarrow> unat ((n + 31) div 32 * 32 :: u64) = words (unat n)"
proof -
  assume n: "unat n < 2 ^ 64 - 31"
  then have p: "unat (n + 31) = unat n + 31"
    by (subst unat_add_lem [THEN iffD1]) simp_all
  have "(unat n + 31) div 32 * 32 < 2 ^ 64" using n by simp
  then show ?thesis
    by (simp add: unat_word_ariths unat_div p words_def)
qed

text \<open>What an instruction pays for copying; \<open>m_copyMemSize\<close> is a number of bytes.\<close>

definition copyCost :: "EVMSchedule \<Rightarrow> u64 \<Rightarrow> nat" where
  "copyCost S n = unat (copyGas S) * ((unat n + 31) div 32)"

lemma unat_copyCost:
  "unat n < 2 ^ 63 \<Longrightarrow> copyCost S n < 2 ^ 64 \<Longrightarrow>
   unat (ucast (copyGas S) * ((n + 31) div 32) :: u64) = copyCost S n"
proof -
  assume n: "unat n < 2 ^ 63" and c: "copyCost S n < 2 ^ 64"
  show ?thesis
    using c n by (simp add: unat_word_ariths unat_div copyCost_def)
qed

lemma copyCost_0 [simp]: "copyCost S 0 = 0"
  by (simp add: copyCost_def)

subsection \<open>Memory expansion\<close>

text \<open>The memory consists of whole words and its price is a 63-bit number.\<close>

definition mem_ok :: "EVMSchedule \<Rightarrow> bytes \<Rightarrow> bool" where
  "mem_ok S M = (32 dvd length M \<and> memCost S (length M) < 2 ^ 63)"

definition grow :: "nat \<Rightarrow> bytes \<Rightarrow> bytes" where
  "grow n M = M @ replicate (n - length M) 0"

lemma length_grow [simp]: "length (grow n M) = max n (length M)"
  by (simp add: grow_def)

lemma take_grow [simp]: "take (length M) (grow n M) = M"
  by (simp add: grow_def)

lemma resizeMem_grow: "resizeMem n v = v\<lparr>m_mem := grow n (m_mem v)\<rparr>"
  by (cases v) (simp add: resizeMem_def grow_def)

lemma grow_words_dvd: "32 dvd length M \<Longrightarrow> 32 dvd length (grow (words n) M)"
  by (auto simp: max_def words_dvd)

lemma addRunGas_same [simp]: "m_runGas (addRunGas g v) = m_runGas v + g"
  "m_io_gas (addRunGas g v) = m_io_gas v" "m_mem (addRunGas g v) = m_mem v"
  "m_newMemSize (addRunGas g v) = m_newMemSize v" "m_copyMemSize (addRunGas g v) = m_copyMemSize v"
  by (simp_all add: addRunGas_def)

text \<open>The difference \<open>updateGas\<close> adds never wraps and never exceeds 63 bits.\<close>

lemma wp_expand:
  assumes "mem_ok S (m_mem v)"
    and "length (m_mem v) < unat (m_newMemSize v) \<Longrightarrow> 2 ^ 63 \<le> memCost S (unat (m_newMemSize v)) \<Longrightarrow>
         E OutOfGas v"
    and "\<And>d. memCost S (max (unat (m_newMemSize v)) (length (m_mem v))) < 2 ^ 63 \<Longrightarrow>
         unat d = memCost S (max (unat (m_newMemSize v)) (length (m_mem v))) - memCost S (length (m_mem v)) \<Longrightarrow>
         Q (addRunGas d v)"
  shows "wp (if length (m_mem v) < unat (m_newMemSize v)
             then bindE (at v (gasForMem S (unat (m_newMemSize v)))) (\<lambda>g1.
                  bindE (at v (gasForMem S (length (m_mem v)))) (\<lambda>g0.
                  bindE (at v (toInt63 (unat (g1 - g0)))) (\<lambda>d. Inr (addRunGas d v))))
             else Inr v) E Q"
proof (cases "length (m_mem v) < unat (m_newMemSize v)")
  case False
  moreover have "addRunGas 0 v = v" by (cases v) (simp add: addRunGas_def)
  ultimately show ?thesis
    using assms(1) assms(3) [of 0] by (simp add: wp_simps mem_ok_def max_def)
next
  case True
  let ?n = "memCost S (unat (m_newMemSize v))" and ?m = "memCost S (length (m_mem v))"
  have le: "?m \<le> ?n" using True by (intro memCost_mono) simp
  have "unat (of_nat ?n - of_nat ?m :: u64) = ?n - ?m" if "?n < 2 ^ 63"
    using le that by (subst unat_io_minus) (simp_all add: word_le_nat_alt unat_of_nat_u64)
  then show ?thesis
    using True assms le by (auto simp: wp_simps gasForMem_alt mem_ok_def unat_of_nat_u64 max_def)
qed

lemma wp_updateMem:
  assumes ok: "mem_ok S (m_mem v)"
    and n: "unat n < 2 ^ 64 - 31" and c: "unat (m_copyMemSize v) < 2 ^ 63"
    and r: "rg v + copyCost S (m_copyMemSize v) \<le> 2 ^ 63"
    and E: "\<And>g s. E OutOfGas (v\<lparr>m_newMemSize := s, m_runGas := g\<rparr>)"
    and Q: "\<And>g s M. M = grow (words (unat n)) (m_mem v) \<Longrightarrow> mem_ok S M \<Longrightarrow>
      unat g = rg v + copyCost S (m_copyMemSize v) + (memCost S (length M) - memCost S (length (m_mem v))) \<Longrightarrow>
      unat g \<le> io v \<Longrightarrow> Q (v\<lparr>m_newMemSize := s, m_runGas := g, m_mem := M\<rparr>)"
  shows "wp (updateMem S n v) E Q"
  unfolding updateMem_def updateGas_def wp_bindE wp_Inr resizeMem_grow
proof (rule wp_expand, goal_cases)
  case 1
  then show ?case using ok by simp
next
  case 2
  then show ?case using E [where g = "m_runGas v" and s = "(n + 31) div 32 * 32"] by (cases v) simp
next
  case (3 d)
  let ?v = "v\<lparr>m_newMemSize := (n + 31) div 32 * 32\<rparr>"
  let ?M = "grow (words (unat n)) (m_mem v)"
  let ?d = "memCost S (length ?M) - memCost S (length (m_mem v))"
  let ?k = "ucast (copyGas S) * ((m_copyMemSize v + 31) div 32) :: u64"
  have d: "unat d = ?d" and lt: "memCost S (length ?M) < 2 ^ 63"
    using 3 by (simp_all add: unat_words [OF n])
  have k: "unat ?k = copyCost S (m_copyMemSize v)"
    using c r by (intro unat_copyCost) auto
  have "unat (m_runGas v + d + ?k) = rg v + ?d + copyCost S (m_copyMemSize v)"
  proof -
    have s: "rg v + unat d + unat ?k < 2 ^ 64" using d k lt r by simp
    then have "unat (m_runGas v + d) = rg v + unat d"
      by (subst unat_add_lem [THEN iffD1]) simp_all
    then show ?thesis
      using s d k by (subst unat_add_lem [THEN iffD1]) simp_all
  qed
  moreover have "mem_ok S ?M"
    using ok lt grow_words_dvd by (auto simp: mem_ok_def)
  ultimately show ?case
    using E [where g = "m_runGas v + d + ?k" and s = "(n + 31) div 32 * 32"]
      Q [where M = ?M and g = "m_runGas v + d + ?k" and s = "(n + 31) div 32 * 32"]
    by (simp add: Let_def wp_simps addRunGas_def unat_words [OF n] word_less_nat_alt)
qed

end
