(* ===== verification/LegacyVM_Safety.thy ===== *)
theory LegacyVM_Safety
  imports LegacyVM_Gas
begin

text \<open>
  One instruction: which stack height, memory, gas and program counter it leaves, and that
  it never reads or writes outside an object.  The lemmas \<open>case_X_ok\<close>, one per group of
  the switch, combine into \<open>step_ok\<close>.
\<close>

subsection \<open>Contracts\<close>

text \<open>
  What the interpreter needs of a schedule: eight tiers, positive prices for every
  instruction that continues, sums that fit 32 bits and a stipend below the price of the
  transfer it comes with.
\<close>

definition sched_ok :: "EVMSchedule \<Rightarrow> bool" where
  "sched_ok S =
    (length (tierStepGas S) = 8 \<and> (\<forall>i\<in>set [1..<6]. 0 < tierStepGas S ! i)
     \<and> 0 < quadCoeffDiv S \<and> copyGas S < 16 \<and> sha3WordGas S < 16
     \<and> 0 < expGas S \<and> unat (expGas S) + 32 * unat (expByteGas S) < 2 ^ 32
     \<and> 0 < sha3Gas S \<and> 0 < sloadGas S
     \<and> 0 < sstoreSetGas S \<and> 0 < sstoreResetGas S \<and> 0 < sstoreUnchangedGas S
     \<and> 0 < logGas S \<and> unat (logGas S) + 4 * unat (logTopicGas S) < 2 ^ 32
     \<and> 0 < createGas S \<and> 0 < callGas S \<and> callStipend S \<le> callValueTransferGas S
     \<and> 0 < extcodesizeGas S \<and> 0 < extcodecopyGas S \<and> 0 < extcodehashGas S
     \<and> 0 < balanceGas S \<and> 0 < blockhashGas S)"

text \<open>The calls the interpreter makes.\<close>

definition asked :: "'s ExtVMFace \<Rightarrow> 's \<Rightarrow> CallParameters \<Rightarrow> bool" where
  "asked X s cp \<longleftrightarrow> x_depth X < 1024 \<and> length (cp_data cp) < 2 ^ 64 \<and>
    (cp_valueTransfer cp = 0 \<or>
      cp_senderAddress cp = x_myAddress X \<and> cp_valueTransfer cp \<le> x_balance X s (x_myAddress X)) \<and>
    (cp_receiveAddress cp = cp_codeAddress cp \<or> cp_receiveAddress cp = x_myAddress X) \<and>
    (x_staticCall X \<longrightarrow> cp_staticCall cp \<and>
      (cp_valueTransfer cp = 0 \<or> cp_receiveAddress cp = x_myAddress X))"

text \<open>
  In the state \<open>s\<close>, a nested call or creation returns at most the gas it was given, and no
  buffer is longer than a \<open>size_t\<close> can say.
\<close>

definition ext_at :: "'s ExtVMFace \<Rightarrow> 's \<Rightarrow> bool" where
  "ext_at X s =
    ((\<forall>cp. asked X s cp \<longrightarrow> cr_gas (fst (x_call X cp s)) \<le> cp_gas cp \<and>
            length (cr_output (fst (x_call X cp s))) < 2 ^ 64) \<and>
     (\<forall>e g c i salt. \<not> x_staticCall X \<longrightarrow> x_depth X < 1024 \<longrightarrow> length c < 2 ^ 64 \<longrightarrow>
            e \<le> x_balance X s (x_myAddress X) \<longrightarrow> cre_gas (fst (x_create X e g c i salt s)) \<le> g \<and>
            length (cre_output (fst (x_create X e g c i salt s))) < 2 ^ 64) \<and>
     length (x_data X) < 2 ^ 64 \<and> length (x_code X) < 2 ^ 64 \<and>
     (\<forall>a. length (x_codeAt X s a) < 2 ^ 64))"

definition ext_ok :: "'s ExtVMFace \<Rightarrow> bool" where
  "ext_ok X = (\<forall>s. ext_at X s)"

text \<open>The state when an exception leaves the interpreter.\<close>

definition err :: "'s VM \<Rightarrow> vm_error \<Rightarrow> 's VM \<Rightarrow> bool" where
  "err v e v' = (e \<noteq> UB \<and> io v' \<le> io v)"

text \<open>What every instruction keeps; \<open>pot\<close> is the gas left and the gas the memory has cost.\<close>

definition pot :: "EVMSchedule \<Rightarrow> 's VM \<Rightarrow> nat" where
  "pot S v = io v + memCost S (length (m_mem v))"

definition keeps :: "EVMSchedule \<Rightarrow> 's VM \<Rightarrow> 's VM \<Rightarrow> bool" where
  "keeps S v v' = (m_code v' = m_code v \<and> m_jumpDests v' = m_jumpDests v \<and> mem_ok S (m_mem v')
     \<and> length (m_mem v) \<le> length (m_mem v') \<and> length (m_returnData v') < 2 ^ 64 \<and> io v' \<le> io v)"

definition pc_step :: "'s VM \<Rightarrow> 's VM \<Rightarrow> bool" where
  "pc_step v v' = (m_PC v' = m_PC v + 1
     \<or> m_PC v' < length (m_code v) \<and> (\<exists>n. m_OP v = PUSH n \<and> m_PC v' = m_PC v + 1 + n)
     \<or> m_PC v' \<in> set (m_jumpDests v))"

text \<open>\<open>k\<close> items removed and \<open>a\<close> added.\<close>

definition ok :: "EVMSchedule \<Rightarrow> nat \<Rightarrow> nat \<Rightarrow> 's VM \<Rightarrow> 's outcome \<Rightarrow> bool" where
  "ok S k a v r = (case r of
     Running v' \<Rightarrow> keeps S v v' \<and> pot S v' < pot S v \<and> pc_step v v'
                  \<and> length (m_stack v') = length (m_stack v) - k + a
   | Halted out v' \<Rightarrow> keeps S v v' \<and> pot S v' \<le> pot S v)"

lemmas ok_defs = ok_def keeps_def pot_def pc_step_def

text \<open>The machine between \<open>fetchInstruction\<close> and the case of the switch.\<close>

definition ready :: "EVMSchedule \<Rightarrow> nat \<Rightarrow> 's VM \<Rightarrow> bool" where
  "ready S k v = (mem_ok S (m_mem v) \<and> k \<le> length (m_stack v) \<and> m_copyMemSize v = 0
     \<and> length (m_returnData v) < 2 ^ 64)"

subsection \<open>Memory access\<close>

lemma wp_memRead:
  "(n \<noteq> 0 \<Longrightarrow> off + n \<le> length (m_mem v)) \<Longrightarrow> (\<And>bs. length bs = n \<Longrightarrow> Q bs) \<Longrightarrow>
   wp (memRead off n v) E Q"
  by (auto simp: memRead_def wp_simps)

lemma wp_memWrite:
  "(bs \<noteq> [] \<Longrightarrow> off + length bs \<le> length (m_mem v)) \<Longrightarrow>
   (\<And>M. length M = length (m_mem v) \<Longrightarrow> Q (v\<lparr>m_mem := M\<rparr>)) \<Longrightarrow> wp (memWrite off bs v) E Q"
proof (cases "bs = []")
  case True
  assume "\<And>M. length M = length (m_mem v) \<Longrightarrow> Q (v\<lparr>m_mem := M\<rparr>)"
  from this [of "m_mem v"] True show ?thesis by (simp add: memWrite_def wp_simps)
qed (simp add: memWrite_def wp_simps)

lemma as_u64_le: "as_u64 x \<le> unat x"
  by (simp add: unsigned_ucast_eq take_bit_eq_mod)

lemma as_unsigned_le: "as_unsigned x \<le> unat x"
  by (simp add: unsigned_ucast_eq take_bit_eq_mod)

lemma as_u64_id: "unat x < 2 ^ 64 \<Longrightarrow> as_u64 x = unat x"
  by (simp add: unsigned_ucast_eq take_bit_eq_mod)

text \<open>The range an instruction has paid for lies inside the memory.\<close>

definition in_mem :: "u256 \<Rightarrow> u256 \<Rightarrow> bytes \<Rightarrow> bool" where
  "in_mem off sz M = (sz \<noteq> 0 \<longrightarrow> unat off + unat sz \<le> length M \<and> unat off + unat sz < 2 ^ 63)"

lemma in_memD: "in_mem off sz M \<Longrightarrow> as_u64 sz \<noteq> 0 \<Longrightarrow> as_u64 off + as_u64 sz \<le> length M"
  using as_u64_le [of off] as_u64_le [of sz] by (auto simp: in_mem_def)

lemma wp_updateMemNeed:
  assumes "mem_ok S (m_mem v)" "unat (m_copyMemSize v) < 2 ^ 63"
    "unat off + unat sz < 2 ^ 63 \<or> sz = 0 \<Longrightarrow> rg v + copyCost S (m_copyMemSize v) \<le> 2 ^ 63"
    and E: "\<And>v'. m_io_gas v' = m_io_gas v \<Longrightarrow> m_ext v' = m_ext v \<Longrightarrow> E OutOfGas v'"
    and Q: "\<And>g s M. in_mem off sz M \<Longrightarrow> mem_ok S M \<Longrightarrow> length (m_mem v) \<le> length M \<Longrightarrow>
      unat g = rg v + copyCost S (m_copyMemSize v) + (memCost S (length M) - memCost S (length (m_mem v))) \<Longrightarrow>
      unat g \<le> io v \<Longrightarrow> Q (v\<lparr>m_newMemSize := s, m_runGas := g, m_mem := M\<rparr>)"
  shows "wp (updateMemNeed S off sz v) E Q"
proof -
  let ?n = "if sz \<noteq> 0 then unat off + unat sz else 0"
  have "wp (updateMem S (of_nat ?n) v) E Q" if n: "?n < 2 ^ 63"
  proof (rule wp_updateMem, goal_cases)
    case (6 g s M)
    have "words ?n \<le> length M" using 6(1) n by (simp add: unat_of_nat_u64)
    with words_ge [of ?n] n have "in_mem off sz M" by (auto simp: in_mem_def)
    with 6 show ?case by (intro Q) simp_all
  qed (use assms n in \<open>auto simp: unat_of_nat_u64 split: if_splits\<close>)
  then show ?thesis
    by (simp add: updateMemNeed_def memNeed_def wp_simps E)
qed

subsection \<open>The instruction groups\<close>

lemma setters [simp]:
  "m_stack (setSPP k x v) = x # drop k (m_stack v)" "m_stack (dropSP k v) = drop k (m_stack v)"
  "m_io_gas (setSPP k x v) = m_io_gas v" "m_io_gas (dropSP k v) = m_io_gas v"
  "m_mem (setSPP k x v) = m_mem v" "m_mem (dropSP k v) = m_mem v"
  "m_code (setSPP k x v) = m_code v" "m_code (dropSP k v) = m_code v"
  "m_jumpDests (setSPP k x v) = m_jumpDests v" "m_jumpDests (dropSP k v) = m_jumpDests v"
  "m_PC (setSPP k x v) = m_PC v" "m_PC (dropSP k v) = m_PC v"
  "m_OP (setSPP k x v) = m_OP v" "m_OP (dropSP k v) = m_OP v"
  "m_ext (setSPP k x v) = m_ext v" "m_ext (dropSP k v) = m_ext v"
  "m_returnData (setSPP k x v) = m_returnData v" "m_returnData (dropSP k v) = m_returnData v"
  by (simp_all add: setSPP_def dropSP_def)

lemma gas_setters [simp]:
  "m_runGas (setRunGas g v) = g"
  "m_io_gas (setRunGas g v) = m_io_gas v" "m_io_gas (setCopyMem n v) = m_io_gas v"
  "m_mem (setRunGas g v) = m_mem v" "m_mem (setCopyMem n v) = m_mem v"
  "m_stack (setRunGas g v) = m_stack v" "m_stack (setCopyMem n v) = m_stack v"
  "m_code (setRunGas g v) = m_code v" "m_code (setCopyMem n v) = m_code v"
  "m_jumpDests (setRunGas g v) = m_jumpDests v" "m_jumpDests (setCopyMem n v) = m_jumpDests v"
  "m_PC (setRunGas g v) = m_PC v" "m_PC (setCopyMem n v) = m_PC v"
  "m_OP (setRunGas g v) = m_OP v" "m_OP (setCopyMem n v) = m_OP v"
  "m_copyMemSize (setRunGas g v) = m_copyMemSize v" "m_copyMemSize (setCopyMem n v) = n"
  "m_runGas (setCopyMem n v) = m_runGas v"
  "m_ext (setRunGas g v) = m_ext v" "m_ext (setCopyMem n v) = m_ext v"
  "m_returnData (setRunGas g v) = m_returnData v" "m_returnData (setCopyMem n v) = m_returnData v"
  by (simp_all add: setRunGas_def setCopyMem_def)

lemma addRunGas_fields [simp]:
  "m_stack (addRunGas g v) = m_stack v" "m_code (addRunGas g v) = m_code v"
  "m_jumpDests (addRunGas g v) = m_jumpDests v" "m_PC (addRunGas g v) = m_PC v"
  "m_OP (addRunGas g v) = m_OP v" "m_ext (addRunGas g v) = m_ext v"
  "m_returnData (addRunGas g v) = m_returnData v"
  by (simp_all add: addRunGas_def)

lemma contract_setRunGas [simp]:
  "err (setRunGas g v) = err v" "ok S k a (setRunGas g v) = ok S k a v"
  by (auto simp: fun_eq_iff err_def ok_defs split: outcome.splits)

lemma unat_le_minus: "\<not> unat w < unat (g :: u64) \<Longrightarrow> unat (w - g) = unat w - unat g"
  by (simp add: unat_io_minus word_le_nat_alt)

lemma simple_ok:
  "ready S k v \<Longrightarrow> 0 < rg v \<Longrightarrow> wp (simple k f v) (err v) (ok S k (Suc 0) v)"
  by (auto simp: simple_def wp_simps ok_defs err_def ready_def unat_le_minus)

lemma simple_ok':
  "ready S k v \<Longrightarrow> 0 < unat g \<Longrightarrow> wp (simple k f (setRunGas g v)) (err v) (ok S k (Suc 0) v)"
  by (auto simp: simple_def wp_simps ok_defs err_def ready_def unat_le_minus)

lemma case_bin_ok: "ready S 2 v \<Longrightarrow> 0 < rg v \<Longrightarrow> wp (case_bin X i v) (err v) (ok S 2 1 v)"
  by (auto simp: case_bin_def wp_simps err_def intro!: simple_ok)

lemma case_env_ok: "ready S 0 v \<Longrightarrow> 0 < rg v \<Longrightarrow> wp (case_env X i v) (err v) (ok S 0 1 v)"
  by (auto simp: case_env_def wp_simps err_def intro!: simple_ok)

lemma case_dup_ok: "ready S n v \<Longrightarrow> 0 < rg v \<Longrightarrow> wp (case_dup n v) (err v) (ok S n (n + 1) v)"
  by (auto simp: case_dup_def simple_def wp_simps ok_defs err_def ready_def unat_le_minus)

lemma case_swap_ok: "ready S (n + 1) v \<Longrightarrow> 0 < rg v \<Longrightarrow> wp (case_swap n v) (err v) (ok S (n + 1) (n + 1) v)"
  by (auto simp: case_swap_def wp_simps ok_defs err_def ready_def unat_le_minus)

lemma case_query_ok:
  assumes "sched_ok (sched X)" "ready S 1 v" "i = CALLDATALOAD \<Longrightarrow> 0 < rg v"
  shows "wp (case_query X i v) (err v) (ok S 1 1 v)"
  using assms
  by (cases i)
    (auto simp: case_query_def queryGas_def wp_simps err_def sched_ok_def unat_gt_0 word_neq_0_conv
      intro!: simple_ok simple_ok')

lemma case_push_ok:
  assumes "ready S 0 v" "0 < rg v" "m_OP v = PUSH n" "m_PC v + 1 + n < length (m_code v)"
  shows "wp (case_push X n v) (err v) (ok S 0 1 v)"
  using assms
  by (auto simp: case_push_def wp_simps ok_defs err_def ready_def unat_le_minus)

lemma case_jump_ok:
  assumes "ready S 1 v" "0 < rg v"
    and "\<And>d pc. verifyJumpDest (m_jumpDests v) d = Inr pc \<Longrightarrow> pc \<in> set (m_jumpDests v)"
    and "\<And>d. verifyJumpDest (m_jumpDests v) d \<noteq> Inl UB"
  shows "wp (case_jump v) (err v) (ok S 1 0 v)"
  using assms
  by (auto simp: case_jump_def wp_simps wp_at ok_defs err_def ready_def unat_le_minus split: sum.splits)

lemma case_jumpi_ok:
  assumes "ready S 2 v" "0 < rg v"
    and "\<And>d pc. verifyJumpDest (m_jumpDests v) d = Inr pc \<Longrightarrow> pc \<in> set (m_jumpDests v)"
    and "\<And>d. verifyJumpDest (m_jumpDests v) d \<noteq> Inl UB"
  shows "wp (case_jumpi v) (err v) (ok S 2 0 v)"
  using assms
  by (auto simp: case_jumpi_def wp_simps wp_at ok_defs err_def ready_def unat_le_minus split: sum.splits)

end
