(* ===== verification/LegacyVM_Steps.thy ===== *)
theory LegacyVM_Steps
  imports LegacyVM_Safety
begin

text \<open>
  The instruction groups that touch memory, storage and other contracts: \<open>case_X_ok\<close> for
  each, and \<open>step_ok\<close> for the whole switch.
\<close>

subsection \<open>Exponent length\<close>

lemma leadingZeros_bound: "d \<noteq> 0 \<Longrightarrow> 2 ^ leadingZeros d * unat d < 256"
proof (induction d rule: leadingZeros.induct)
  case (1 d)
  show ?case
  proof (cases "bit d 7")
    case True
    then show ?thesis using unat_byte_less [of d] by (simp add: leadingZeros.simps)
  next
    case False
    have two: "unat (push_bit 1 d) = 2 * unat d" using False by (rule unat_push_bit_1)
    have "unat d \<noteq> 0" using 1(2) by (simp add: unat_eq_zero)
    with two have "push_bit 1 d \<noteq> 0" by (metis mult_eq_0_iff unat_0 zero_neq_numeral)
    with 1 False have "2 ^ leadingZeros (push_bit 1 d) * unat (push_bit 1 d) < 256" by blast
    with two have "2 ^ Suc (leadingZeros (push_bit 1 d)) * unat d < 256"
      by (simp only: power_Suc mult.assoc mult.left_commute)
    then show ?thesis
      using 1(2) False by (subst leadingZeros.simps) (simp only: if_False simp_thms)
  qed
qed

lemma leadingZeros_less: "d \<noteq> 0 \<Longrightarrow> leadingZeros d < 8"
proof -
  assume d: "d \<noteq> 0"
  then have "(2::nat) ^ leadingZeros d * 1 \<le> 2 ^ leadingZeros d * unat d"
    by (intro mult_le_mono2) (simp add: unat_gt_0 Suc_leI)
  from le_less_trans [OF this leadingZeros_bound [OF d]]
  have "(2::nat) ^ leadingZeros d < 2 ^ 8" by simp
  then show ?thesis by (rule power_less_imp_less_exp [rotated]) simp
qed

lemma firstBitSet_div: "firstBitSet bs div 8 = length bs - bytesRequired (fromBigEndian bs)"
proof (induction bs)
  case (Cons d ds)
  have le: "bytesRequired (fromBigEndian ds) \<le> length ds"
    by (intro bytesRequired_le fromBigEndian_less)
  show ?case
  proof (cases "d = 0")
    case True
    with Cons le show ?thesis by (simp add: fromBigEndian_Cons Suc_diff_le)
  next
    case False
    have "256 ^ length ds \<le> fromBigEndian (d # ds)"
      using False by (simp add: fromBigEndian_Cons unat_gt_0 trans_le_add1 Suc_leI)
    then have "length ds < bytesRequired (fromBigEndian (d # ds))"
      using bytesRequired_upper [of "fromBigEndian (d # ds)"]
      by (metis le_less_trans one_less_numeral_iff power_less_imp_less_exp semiring_norm(76))
    with False show ?thesis using leadingZeros_less [OF False] by simp
  qed
qed simp

lemma exp_bytes: "firstBitSet (h256_bytes e) div 8 = 32 - bytesRequired (unat e)"
proof -
  have "unat e mod 256 ^ 32 = unat e" using unat_u256_less [of e] by simp
  then show ?thesis by (simp add: firstBitSet_div h256_bytes_def fromBigEndian_toBigEndian)
qed

lemma bytesRequired_u256: "bytesRequired (unat (e :: u256)) \<le> 32"
  using unat_u256_less [of e] by (intro bytesRequired_le) simp

text \<open>The price of \<open>EXP\<close>: \<open>expGas\<close> and \<open>expByteGas\<close> per byte of the exponent.\<close>

lemma exp_gas:
  assumes "sched_ok S"
  shows "unat (expGas S + expByteGas S * (32 - of_nat (firstBitSet (h256_bytes e) div 8))) =
    unat (expGas S) + unat (expByteGas S) * bytesRequired (unat e)"
proof -
  let ?b = "bytesRequired (unat e)"
  have b: "?b \<le> 32" by (rule bytesRequired_u256)
  then have w: "32 - of_nat (32 - ?b) = (of_nat ?b :: u32)" by (simp add: of_nat_diff)
  have "unat (expByteGas S) * ?b \<le> unat (expByteGas S) * 32" using b by simp
  then have "unat (expGas S) + unat (expByteGas S) * ?b \<le> unat (expGas S) + 32 * unat (expByteGas S)"
    by simp
  moreover have "unat (expGas S) + 32 * unat (expByteGas S) < 2 ^ 32"
    using assms by (simp add: sched_ok_def)
  ultimately have "unat (expGas S) + unat (expByteGas S) * ?b < 2 ^ 32" by (rule le_less_trans)
  moreover have "unat (of_nat ?b :: u32) = ?b" using b by (simp add: unat_of_nat take_bit_nat_eq_self)
  ultimately show ?thesis
    by (simp add: exp_bytes w unat_word_ariths)
qed

subsection \<open>Groups without a call\<close>

lemma case_exp_ok:
  assumes "sched_ok (sched X)" "ready S 2 v"
  shows "wp (case_exp X v) (err v) (ok S 2 1 v)"
proof -
  let ?g = "unat (expGas (sched X) +
    expByteGas (sched X) * (32 - of_nat (firstBitSet (h256_bytes (SP v 1)) div 8)))"
  have "0 < expGas (sched X)" using assms(1) by (simp add: sched_ok_def)
  then have "0 < ?g" by (subst exp_gas [OF assms(1)]) (simp add: unat_gt_0 word_neq_0_conv)
  moreover have "?g < 2 ^ 32" by (rule unat_u32_less)
  ultimately show ?thesis
    using simple_ok' [OF assms(2), of "of_nat ?g"]
    by (simp add: case_exp_def Let_def wp_simps unat_of_nat_u64)
qed

text \<open>Between paying for memory and \<open>updateIOGas\<close>: what the instruction will have paid.\<close>

lemma pay_memory:
  assumes "unat g = r + c + (memCost S (length M) - memCost S (length M0))" "unat g \<le> unat w"
    "length M0 \<le> length M"
  shows "unat (w - g :: u64) + memCost S (length M) + (r + c) = unat w + memCost S (length M0)"
    and "unat (w - g) \<le> unat w"
proof -
  have "memCost S (length M0) \<le> memCost S (length M)" by (rule memCost_mono) fact
  moreover have "unat (w - g) = unat w - unat g" using assms(2) by (intro unat_le_minus) simp
  ultimately show "unat (w - g) + memCost S (length M) + (r + c) = unat w + memCost S (length M0)"
    and "unat (w - g) \<le> unat w"
    using assms(1,2) by simp_all
qed

lemma haltOutput_ok:
  assumes "ready S 2 v" "rg v \<le> 2 ^ 63" "S = sched X"
  shows "wp (haltOutput X v) (err v) (\<lambda>(out, v'). keeps S v v' \<and> pot S v' \<le> pot S v)"
  unfolding haltOutput_def wp_bindE
proof (rule wp_updateMemNeed, goal_cases)
  case (5 g s M)
  then show ?case
    using pay_memory [of g "rg v" 0 S M "m_mem v" "m_io_gas v"] assms(1,3)
    by (auto simp: wp_simps keeps_def pot_def ready_def intro!: wp_memRead dest: in_memD)
qed (use assms in \<open>auto simp: ready_def err_def\<close>)

lemma case_halt_ok:
  assumes "ready (sched X) (args (halt_info i)) v" "rg v \<le> 2 ^ 63"
  shows "wp (case_halt X i v) (err v) (ok (sched X) k a v)"
proof (cases i)
  case STOP
  then show ?thesis
    using assms by (auto simp: case_halt_def wp_simps ok_defs err_def ready_def unat_le_minus)
next
  case RETURN
  then have "ready (sched X) 2 v" using assms by (simp add: halt_info_def)
  from haltOutput_ok [OF this assms(2) refl] RETURN show ?thesis
    by (auto simp: case_halt_def wp_simps ok_defs elim!: wp_mono)
next
  case REVERT
  then have "ready (sched X) 2 v" using assms by (simp add: halt_info_def)
  from haltOutput_ok [OF this assms(2) refl] REVERT show ?thesis
    by (auto simp: case_halt_def wp_simps keeps_def err_def elim!: wp_mono)
next
  case SUICIDE
  then show ?thesis
    using assms
    by (auto simp: case_halt_def case_suicide_def Let_def wp_simps ok_defs err_def ready_def unat_le_minus)
qed

text \<open>The word read or written by \<open>MLOAD\<close>, \<open>MSTORE\<close> and \<open>MSTORE8\<close> lies inside the memory.\<close>

lemma memAccess_ok:
  assumes "as_unsigned (SP v 0) + (if i = MSTORE8 then 1 else 32) \<le> length (m_mem v)"
    and "keeps S v0 v" "pot S v < pot S v0" "m_PC v = m_PC v0" "m_OP v = m_OP v0"
    "m_stack v = m_stack v0"
  shows "wp (memAccess i v) (err v0) (ok S (args (mem_info i)) (ret (mem_info i)) v0)"
  using assms
  by (cases i)
    (auto simp: memAccess_def wp_simps mem_info_def ok_defs mem_ok_def h256_bytes_def
      intro!: wp_memRead wp_memWrite)

lemma case_mem_ok:
  assumes "ready (sched X) k v" "0 < rg v" "rg v \<le> 2 ^ 32"
  shows "wp (case_mem X i v) (err v) (ok (sched X) (args (mem_info i)) (ret (mem_info i)) v)"
proof -
  let ?off = "unat (SP v 0)" and ?n = "if i = MSTORE8 then 1 else 32 :: nat"
  let ?m = "of_nat ?off + (if i = MSTORE8 then 1 else 32) :: u64"
  have n: "unat ?m = ?off + ?n" if "?off < 2 ^ 63"
    using that by (simp add: unat_word_ariths as_u64_id)
  show ?thesis
    unfolding case_mem_def wp_bindE wp_toInt63
  proof (split if_split, intro conjI impI)
    assume off: "?off < 2 ^ 63"
    show "wp (updateMem (sched X) ?m v) (err v) (\<lambda>v'. wp (updateIOGas v') (err v)
      (\<lambda>v'. wp (memAccess i v') (err v) (ok (sched X) (args (mem_info i)) (ret (mem_info i)) v)))"
    proof (rule wp_updateMem, goal_cases)
      case (6 g s M)
      have "?off + ?n \<le> length M"
        using words_ge [of "?off + ?n"] n [OF off] 6(1) by simp
      then have acc: "as_unsigned (SP v 0) + ?n \<le> length M"
        using as_unsigned_le [of "SP v 0"] by (rule le_trans [OF add_right_mono, rotated])
      have le: "length (m_mem v) \<le> length M" using 6(1) by simp
      have g: "unat g = rg v + 0 + (memCost (sched X) (length M) - memCost (sched X) (length (m_mem v)))"
        using 6(3) assms(1) by (simp add: ready_def)
      note pay = pay_memory [OF g 6(4) le]
      let ?v = "v\<lparr>m_newMemSize := s, m_runGas := g, m_mem := M, m_io_gas := m_io_gas v - g\<rparr>"
      have "keeps (sched X) v ?v" "pot (sched X) ?v < pot (sched X) v"
        using pay le 6(2) assms(1,2) by (simp_all add: keeps_def pot_def ready_def)
      then have "wp (memAccess i ?v) (err v) (ok (sched X) (args (mem_info i)) (ret (mem_info i)) v)"
        using acc by (intro memAccess_ok) simp_all
      then show ?case
        using 6(4) by (simp add: wp_updateIOGas)
    qed (use assms n [OF off] off in \<open>auto simp: ready_def err_def\<close>)
  qed (simp add: err_def)
qed

text \<open>A price computed with \<open>toInt63\<close>, as a word of its own.\<close>

lemma wp_toInt63I:
  assumes "\<And>w. n < 2 ^ 63 \<Longrightarrow> unat w = n \<Longrightarrow> Q w" "E OutOfGas v"
  shows "wp (at v (toInt63 n)) E Q"
  using assms(1) [OF _ unat_of_nat_u64] assms(2) by (simp add: wp_toInt63)

lemma wp_price:
  "(\<And>w. n < 2 ^ 63 \<Longrightarrow> unat w = n \<Longrightarrow> wp (f w) E Q) \<Longrightarrow> E OutOfGas v \<Longrightarrow>
   wp (bindE (at v (toInt63 n)) f) E Q"
  unfolding wp_bindE by (rule wp_toInt63I)

lemma case_sha3_ok:
  assumes "sched_ok (sched X)" "ready (sched X) 2 v"
  shows "wp (case_sha3 X v) (err v) (ok (sched X) 2 1 v)"
  unfolding case_sha3_def Let_def
proof (rule wp_price, unfold wp_bindE, rule wp_updateMemNeed, goal_cases)
  case (5 w g s M)
  have "0 < unat w" using assms(1) 5(2) by (auto simp: sched_ok_def unat_gt_0 word_neq_0_conv)
  then show ?case
    using 5(3-) pay_memory [of g "unat w" 0 "sched X" M "m_mem v" "m_io_gas v"] assms(2)
    by (auto simp: wp_simps ok_defs ready_def intro!: wp_memRead dest: in_memD)
qed (use assms in \<open>auto simp: ready_def err_def\<close>)

lemma log_base:
  assumes "sched_ok S" "n \<le> 4"
  shows "0 < unat (logGas S + logTopicGas S * of_nat n)"
proof -
  have "unat (logTopicGas S) * n \<le> unat (logTopicGas S) * 4"
    using assms(2) by (rule mult_le_mono2)
  moreover have "unat (logGas S) + 4 * unat (logTopicGas S) < 2 ^ 32" and l: "0 < unat (logGas S)"
    using assms(1) by (simp_all add: sched_ok_def unat_gt_0 word_neq_0_conv)
  ultimately have "unat (logGas S) + unat (logTopicGas S) * n < 2 ^ 32" by linarith
  moreover have "unat (of_nat n :: u32) = n"
    using assms(2) by (simp add: unat_of_nat take_bit_nat_eq_self)
  ultimately have "unat (logGas S + logTopicGas S * of_nat n) = unat (logGas S) + unat (logTopicGas S) * n"
    by (simp add: unat_word_ariths)
  with l show ?thesis by simp
qed

lemma case_log_ok:
  assumes "sched_ok (sched X)" "ready (sched X) (n + 2) v" "n \<le> 4"
  shows "wp (case_log X n v) (err v) (ok (sched X) (n + 2) 0 v)"
  unfolding case_log_def logGasMem_def wp_if wp_throw wp_bindE bindE_assoc
proof (split if_split, intro conjI impI, goal_cases)
  case 2
  show ?case
  proof (rule wp_toInt63I, rule wp_updateMemNeed, goal_cases)
    case (5 w g s M)
    have "0 < unat w" using log_base [OF assms(1,3)] 5(2) by simp
    then show ?case
      using 5(3-) pay_memory [of g "unat w" 0 "sched X" M "m_mem v" "m_io_gas v"] assms(2)
      by (auto simp: wp_simps ok_defs ready_def intro!: wp_memRead dest: in_memD)
  qed (use assms in \<open>auto simp: ready_def err_def\<close>)
qed (simp add: err_def)

end
