(* ===== verification/LegacyVM_CallSteps.thy ===== *)
theory LegacyVM_CallSteps
  imports LegacyVM_Steps
begin

text \<open>
  The copying instructions, \<open>SSTORE\<close>, calls and creations, and the lemma \<open>step_ok\<close> about
  the whole switch.
\<close>

subsection \<open>Copying\<close>

lemma copyCost_le: "copyGas S < 16 \<Longrightarrow> unat n < 2 ^ 63 \<Longrightarrow> copyCost S n \<le> 15 * 2 ^ 58"
proof -
  assume "copyGas S < 16" and n: "unat n < 2 ^ 63"
  then have "unat (copyGas S) \<le> 15" by (simp add: word_less_nat_alt)
  moreover have "(unat n + 31) div 32 \<le> 2 ^ 58" using n by simp
  ultimately show ?thesis unfolding copyCost_def by (rule mult_le_mono)
qed

lemma wp_copyDataToMemory:
  assumes mem: "in_mem sp0 sp2 (m_mem v)" and len: "length data < 2 ^ 64"
    and Q: "\<And>M. length M = length (m_mem v) \<Longrightarrow> Q (v\<lparr>m_mem := M\<rparr>)"
  shows "wp (copyDataToMemory data sp0 big sp2 v) E Q"
proof -
  let ?sz = "as_u64 sp2" and ?idx = "as_u64 big" and ?off = "as_u64 sp0"
  let ?n = "if length data < unat big + ?sz
            then if length data < unat big then 0 else length data - ?idx else ?sz"
  have idx: "?idx = unat big" if "unat big \<le> length data"
    using that len by (intro as_u64_id) simp
  have n: "?n \<le> ?sz" and i: "?n \<noteq> 0 \<Longrightarrow> ?idx + ?n \<le> length data"
    using idx by auto
  have o: "?sz \<noteq> 0 \<Longrightarrow> ?off + ?sz \<le> length (m_mem v)"
    using mem by (rule in_memD)
  show ?thesis
    unfolding copyDataToMemory_def Let_def wp_bindE wp_if wp_throw
  proof (split if_split, intro conjI impI, goal_cases)
    case 1
    have "\<not> length data < ?idx + ?n" using i 1 by simp
    moreover have "wp (memWrite ?off (take ?n (drop ?idx data)) v) E
      (\<lambda>v. if ?n < ?sz then wp (memWrite (?off + ?n) (replicate (?sz - ?n) 0) v) E Q else wp (Inr v) E Q)"
      using n i o 1 Q by (intro wp_memWrite) (auto simp: wp_Inr intro!: wp_memWrite)
    ultimately show ?case by simp
  next
    case 2
    then show ?case
      using o n Q [of "m_mem v"] Q by (auto simp: wp_simps intro!: wp_memWrite)
  qed
qed

lemma copyData_ok:
  assumes S: "sched_ok (sched X)" and r: "ready (sched X) (k + 3) v" "0 < rg v" "rg v \<le> 2 ^ 32"
    and src: "\<And>v'. m_ext v' = m_ext v \<Longrightarrow> m_returnData v' = m_returnData v \<Longrightarrow>
      length (src v') < 2 ^ 64"
  shows "wp (copyData X k src v) (err v) (ok (sched X) (k + 3) 0 v)"
  unfolding copyData_def
proof (rule wp_price, unfold wp_bindE, rule wp_updateMemNeed, goal_cases)
  case (3 w)
  have "copyCost (sched X) w \<le> 15 * 2 ^ 58"
    using S 3 by (intro copyCost_le) (simp_all add: sched_ok_def)
  then show ?case using r(3) by simp
next
  case (5 w g s M)
  have g: "unat g = rg v + copyCost (sched X) w
      + (memCost (sched X) (length M) - memCost (sched X) (length (m_mem v)))" and le: "unat g \<le> io v"
    using 5 by simp_all
  note pay = pay_memory [OF g le] 
  show ?case
    using 5(3-5) pay r le
    by (auto simp: wp_simps ok_defs ready_def mem_ok_def src [simplified] intro!: wp_copyDataToMemory)
qed (use r in \<open>auto simp: ready_def err_def\<close>)

lemma case_copy_ok:
  assumes "sched_ok (sched X)" "ext_at X (m_ext v)" "ready (sched X) (args (copy_info i)) v"
    and "i \<noteq> EXTCODECOPY \<Longrightarrow> 0 < rg v \<and> rg v \<le> 2 ^ 32"
  shows "wp (case_copy X i v) (err v) (ok (sched X) (args (copy_info i)) 0 v)"
proof (cases "i = EXTCODECOPY")
  case True
  let ?v = "setRunGas (ucast (extcodecopyGas (sched X))) v"
  have "wp (copyData X 1 (\<lambda>v. x_codeAt X (m_ext v) (asAddress (SP v 0))) ?v) (err ?v)
      (ok (sched X) (1 + 3) 0 ?v)"
    using assms True unat_u32_less [of "extcodecopyGas (sched X)"]
    by (intro copyData_ok)
      (auto simp: ready_def copy_info_def ext_at_def sched_ok_def unat_gt_0 word_neq_0_conv)
  then show ?thesis
    using True by (simp add: case_copy_def copy_info_def)
next
  case False
  have "wp (copyData X 0 src v) (err v) (ok (sched X) (0 + 3) 0 v)"
    if "\<And>v'. m_ext v' = m_ext v \<Longrightarrow> m_returnData v' = m_returnData v \<Longrightarrow> length (src v') < 2 ^ 64" for src
    using assms False that by (intro copyData_ok) (auto simp: copy_info_def)
  then show ?thesis
    using assms(2,3) False
    by (cases i) (auto simp: case_copy_def copy_info_def wp_simps err_def ext_at_def ready_def)
qed

subsection \<open>Storage\<close>

lemma updateSSGas_fields [simp]:
  "m_stack (updateSSGas X v) = m_stack v" "m_io_gas (updateSSGas X v) = m_io_gas v"
  "m_mem (updateSSGas X v) = m_mem v" "m_code (updateSSGas X v) = m_code v"
  "m_jumpDests (updateSSGas X v) = m_jumpDests v" "m_PC (updateSSGas X v) = m_PC v"
  "m_OP (updateSSGas X v) = m_OP v" "m_returnData (updateSSGas X v) = m_returnData v"
  by (simp_all add: updateSSGas_def updateSSGasEIP1283_def updateSSGasPreEIP1283_def Let_def
      setRunGas_def refund_def)

lemma updateSSGas_price:
  "m_runGas (updateSSGas X v) \<in> ucast ` {sstoreSetGas (sched X), sstoreResetGas (sched X),
     sstoreUnchangedGas (sched X)}"
  by (simp add: updateSSGas_def updateSSGasEIP1283_def updateSSGasPreEIP1283_def Let_def
      setRunGas_def refund_def)

lemma case_sstore_ok:
  assumes "sched_ok (sched X)" "ready (sched X) 2 v"
  shows "wp (case_sstore X v) (err v) (ok (sched X) 2 0 v)"
proof -
  have "0 < rg (updateSSGas X v)"
    using updateSSGas_price [of X v] assms(1) by (auto simp: sched_ok_def word_less_nat_alt)
  then show ?thesis
    using assms(2)
    by (auto simp: case_sstore_def Let_def wp_simps ok_defs err_def ready_def unat_le_minus
        split: prod.splits)
qed

subsection \<open>Calls\<close>

lemma unat_add_u64: "unat a + unat b < 2 ^ 64 \<Longrightarrow> unat (a + b :: u64) = unat a + unat b"
  by (subst unat_add_lem [THEN iffD1]) simp_all

text \<open>The value argument of \<open>CALL\<close> and \<open>CALLCODE\<close> is positive.\<close>

abbreviation transfers :: "call_instr \<Rightarrow> 's VM \<Rightarrow> bool" where
  "transfers i v \<equiv> haveValueArg i \<and> SP v 2 > 0"

lemma callBaseGas_fields [simp]:
  "m_stack (callBaseGas X i v) = m_stack v" "m_io_gas (callBaseGas X i v) = m_io_gas v"
  "m_mem (callBaseGas X i v) = m_mem v" "m_code (callBaseGas X i v) = m_code v"
  "m_jumpDests (callBaseGas X i v) = m_jumpDests v" "m_PC (callBaseGas X i v) = m_PC v"
  "m_OP (callBaseGas X i v) = m_OP v" "m_returnData (callBaseGas X i v) = m_returnData v"
  "m_copyMemSize (callBaseGas X i v) = m_copyMemSize v" "m_ext (callBaseGas X i v) = m_ext v"
  by (simp_all add: callBaseGas_def Let_def)

lemma callBaseGas_price:
  "unat (callGas (sched X)) + (if transfers i v then unat (callValueTransferGas (sched X)) else 0)
     \<le> rg (callBaseGas X i v)"
  "rg (callBaseGas X i v) \<le> 3 * 2 ^ 32"
proof -
  note lt = unat_u32_less [of "callGas (sched X)"] unat_u32_less [of "callNewAccountGas (sched X)"]
    unat_u32_less [of "callValueTransferGas (sched X)"]
  show "unat (callGas (sched X)) + (if transfers i v then unat (callValueTransferGas (sched X)) else 0)
     \<le> rg (callBaseGas X i v)" "rg (callBaseGas X i v) \<le> 3 * 2 ^ 32"
    using lt by (simp_all add: callBaseGas_def Let_def unat_add_u64)
qed

lemma unat_ucast_256: "unat (w :: u256) < 2 ^ 64 \<Longrightarrow> unat (ucast w :: u64) = unat w"
  by (rule as_u64_id)

lemma unat_ucast_64 [simp]: "unat (ucast (w :: u64) :: u256) = unat w"
  using unat_u64_less [of w] by (simp add: unsigned_ucast_eq take_bit_nat_eq_self)

lemma unat_ucast_32_256 [simp]: "unat (ucast (w :: u32) :: u256) = unat w"
  using unat_u32_less [of w] by (simp add: unsigned_ucast_eq take_bit_nat_eq_self)

text \<open>The gas handed to the callee, with the stipend.\<close>

lemma forwarded_gas:
  "unat (g :: u256) < 2 ^ 63 \<Longrightarrow>
   unat (if c then g + ucast (callStipend S) else g) = unat g + (if c then unat (callStipend S) else 0)"
  using unat_u32_less [of "callStipend S"]
  by (simp add: unat_word_ariths)

lemma wp_callMemNeed:
  assumes "E OutOfGas v"
    and Q: "\<And>n. unat n < 2 ^ 63 \<Longrightarrow> (\<And>M. unat n \<le> length M \<Longrightarrow> in_mem ioff isz M \<and> in_mem ooff osz M) \<Longrightarrow> Q n"
  shows "wp (at v (callMemNeed ioff isz ooff osz)) E Q"
  unfolding callMemNeed_def memNeed_def wp_at_bindE
proof (rule wp_toInt63I, rule wp_toInt63I, goal_cases)
  case (1 x y)
  then have "unat (max x y) = max (unat x) (unat y)" by (simp add: max_def word_le_nat_alt)
  with 1 show ?case by (auto simp: wp_simps in_mem_def intro!: Q split: if_splits)
qed (use assms in auto)

lemma wp_charge:
  "(unat w \<le> io v \<Longrightarrow> Q (v\<lparr>m_runGas := w, m_io_gas := m_io_gas v - w\<rparr>)) \<Longrightarrow>
   wp (updateIOGas (setRunGas w v)) (err v) Q"
  by (auto simp: wp_simps err_def setRunGas_def)

lemma callForward_ok:
  assumes "in_mem inOff inSize (m_mem v)" "in_mem outOff outSize (m_mem v)"
  shows "wp (callForward X i dest inOff inSize outOff outSize v) (err v) (\<lambda>(go, cp, oo, os, v').
     (\<exists>g w. v' = v\<lparr>m_runGas := g, m_io_gas := w\<rparr>) \<and> io v' \<le> io v \<and>
     (os \<noteq> 0 \<longrightarrow> oo + os \<le> length (m_mem v)) \<and> length (cp_data cp) < 2 ^ 64 \<and>
     io v' + unat (cp_gas cp) = io v + (if transfers i v then unat (callStipend (sched X)) else 0))"
  unfolding callForward_def Let_def
proof (rule wp_price, unfold wp_bindE, rule wp_charge, goal_cases)
  case (1 w)
  then have w: "unat (callGasLimit (sched X) (SP v 0) (m_io_gas v)) < 2 ^ 63" by simp
  have "unat (m_io_gas v - w) + unat w = io v" using 1(3) by (simp add: unat_le_minus)
  then show ?case
    using forwarded_gas [OF w, of "transfers i v" "sched X"] 1(2) assms unat_u64_less [of "ucast inSize"]
    by (auto simp: wp_simps CallParameters_new_def intro!: wp_memRead dest: in_memD)
qed (simp add: err_def)

lemma caseCallSetup_ok:
  assumes S: "sched_ok (sched X)" and r: "ready (sched X) k v"
  shows "wp (caseCallSetup X i v) (err v) (\<lambda>(go, cp, outOff, outSize, v').
     keeps (sched X) v v' \<and> m_PC v' = m_PC v \<and> m_stack v' = m_stack v \<and>
     (outSize \<noteq> 0 \<longrightarrow> outOff + outSize \<le> length (m_mem v')) \<and> length (cp_data cp) < 2 ^ 64 \<and>
     m_ext v' = m_ext v \<and> pot (sched X) v' + unat (cp_gas cp) < pot (sched X) v)"
  unfolding caseCallSetup_def Let_def wp_bindE
proof (rule wp_callMemNeed, goal_cases)
  case (2 n)
  let ?v = "callBaseGas X i v"
  have base: "rg ?v \<le> 3 * 2 ^ 32" by (rule callBaseGas_price)
  show ?case
  proof (rule wp_updateMem, goal_cases)
    case (6 g s M)
    have le: "length (m_mem v) \<le> length M" and n: "unat n \<le> length M"
      using 6(1) words_ge [of "unat n"] by simp_all
    have g: "unat g = rg ?v + 0 + (memCost (sched X) (length M) - memCost (sched X) (length (m_mem v)))"
      using 6(3) r by (simp add: ready_def)
    have gle: "unat g \<le> io v" using 6(4) by simp
    note pay = pay_memory [OF g gle le]
    let ?w = "?v\<lparr>m_newMemSize := s, m_runGas := g, m_mem := M, m_io_gas := m_io_gas v - g\<rparr>"
    have charge: "(if transfers i v then unat (callStipend (sched X)) else 0) < rg ?v"
      using callBaseGas_price(1) [of X i v] S
      by (auto simp: sched_ok_def word_less_nat_alt word_le_nat_alt split: if_splits)
    have "wp (callForward X i (asAddress (SP v 1)) (SP v (if haveValueArg i then 3 else 2))
        (SP v ((if haveValueArg i then 3 else 2) + 1)) (SP v ((if haveValueArg i then 3 else 2) + 2))
        (SP v ((if haveValueArg i then 3 else 2) + 3)) ?w) (err v)
      (\<lambda>(go, cp, outOff, outSize, v').
       keeps (sched X) v v' \<and> m_PC v' = m_PC v \<and> m_stack v' = m_stack v \<and>
       (outSize \<noteq> 0 \<longrightarrow> outOff + outSize \<le> length (m_mem v')) \<and> length (cp_data cp) < 2 ^ 64 \<and>
       m_ext v' = m_ext v \<and> pot (sched X) v' + unat (cp_gas cp) < pot (sched X) v)"
    proof (rule wp_mono [OF callForward_ok], goal_cases)
      case (4 x)
      then show ?case
        using pay charge le 6(2) r by (cases x) (auto simp: keeps_def pot_def ready_def)
    qed (use 2(2) n pay(2) in \<open>auto simp: err_def\<close>)
    then show ?case
      using gle by (simp add: wp_updateIOGas)
  qed (use r base 2 in \<open>auto simp: ready_def err_def\<close>)
qed (simp add: err_def)

text \<open>A call that goes ahead is one that the interface is asked to make.\<close>

abbreviation plainCall :: "'s ExtVMFace \<Rightarrow> call_instr \<Rightarrow> 's VM \<Rightarrow> bool" where
  "plainCall X i v \<equiv> i \<noteq> CREATE \<and> i \<noteq> CREATE2 \<and> (i = CALL \<and> x_staticCall X \<longrightarrow> SP v 2 = 0)"

lemma memRead_length: "memRead off (as_u64 n) v = Inr bs \<Longrightarrow> length bs < 2 ^ 64"
  using unat_u64_less [of "ucast n"] by (auto simp: memRead_def throw_def split: if_splits)

lemma callForward_asked:
  assumes "plainCall X i v"
  shows "wp (callForward X i dest inOff inSize outOff outSize v) (\<lambda>e v'. m_ext v' = m_ext v)
    (\<lambda>(go, cp, oo, os, v'). m_ext v' = m_ext v \<and> (go \<longrightarrow> asked X (m_ext v) cp))"
proof -
  have read: "wp (memRead off (as_u64 n) w) (\<lambda>e v'. m_ext v' = m_ext v) Q"
    if "m_ext w = m_ext v" "\<And>bs. length bs < 2 ^ 64 \<Longrightarrow> Q bs" for off n w Q
    using that unat_u64_less [of "ucast n"] by (auto simp: memRead_def wp_simps)
  show ?thesis
    unfolding callForward_def Let_def wp_bindE
    using assms
    by (cases i) (auto simp: wp_simps asked_def CallParameters_new_def haveValueArg_def intro!: read)
qed

lemma caseCallSetup_asked:
  assumes "plainCall X i v"
  shows "wp (caseCallSetup X i v) (\<lambda>e v'. m_ext v' = m_ext v)
    (\<lambda>(go, cp, oo, os, v'). m_ext v' = m_ext v \<and> (go \<longrightarrow> asked X (m_ext v) cp))"
proof -
  let ?E = "\<lambda>e v'. m_ext v' = m_ext v"
  have upd: "wp (updateMem (sched X) n (callBaseGas X i v)) ?E (\<lambda>w. m_ext w = m_ext v \<and> m_stack w = m_stack v)" for n
    by (auto simp: updateMem_def updateGas_def Let_def wp_simps wp_at addRunGas_def resizeMem_def split: sum.splits)
  have fwd: "wp (callForward X i dest a b c d w) ?E
      (\<lambda>(go, cp, oo, os, v'). m_ext v' = m_ext v \<and> (go \<longrightarrow> asked X (m_ext v) cp))"
    if "m_ext w = m_ext v" "m_stack w = m_stack v" for dest a b c d w
    using callForward_asked [where X = X and i = i and v = w] assms that by simp
  have need: "wp (at w (callMemNeed a b c d)) ?E Q" if "m_ext w = m_ext v" "\<And>n. Q n" for w a b c d Q
    using that by (simp add: wp_at split: sum.split)
  show ?thesis
    unfolding caseCallSetup_def Let_def wp_bindE
  proof (rule need, simp, rule wp_mono [OF upd], assumption, goal_cases)
    case (1 n w)
    then show ?case using fwd by (simp add: wp_updateIOGas)
  qed
qed

lemma wp_conj: "wp r E Q \<Longrightarrow> wp r E' Q' \<Longrightarrow> wp r (\<lambda>e v. E e v \<and> E' e v) (\<lambda>x. Q x \<and> Q' x)"
  by (auto simp: wp_def split: sum.splits)

lemma caseCall_ok:
  assumes "sched_ok (sched X)" "ext_at X (m_ext v)" "ready (sched X) (args (call_info i)) v" "plainCall X i v"
  shows "wp (caseCall X i v) (err v) (ok (sched X) (args (call_info i)) 1 v)"
  unfolding caseCall_def wp_bindE
proof (rule wp_mono [OF wp_conj [OF caseCallSetup_ok [where k = 0] caseCallSetup_asked]], goal_cases)
  case (5 x)
  obtain go cp oo os v' where x: "x = (go, cp, oo, os, v')" by (cases x)
  let ?v = "v\<lparr>m_returnData := []\<rparr>"
  obtain res s where call: "x_call X cp (m_ext v') = (res, s)" by fastforce
  have "m_ext v' = m_ext v" "go \<longrightarrow> asked X (m_ext v) cp" using 5 x by simp_all
  then have res: "go \<longrightarrow> unat (cr_gas res) \<le> unat (cp_gas cp)" "go \<longrightarrow> length (cr_output res) < 2 ^ 64"
    using assms(2) call unfolding ext_at_def word_le_nat_alt by (metis fst_conv)+
  have k: "keeps (sched X) ?v v'" and p: "pot (sched X) v' + unat (cp_gas cp) < pot (sched X) v"
    and m: "os \<noteq> 0 \<longrightarrow> oo + os \<le> length (m_mem v')"
    and same: "m_PC v' = m_PC v" "m_stack v' = m_stack v"
    using 5 x by (simp_all add: pot_def)
  have lt: "io v' + unat (cp_gas cp) < io v"
    using p k memCost_mono [of "length (m_mem v)" "length (m_mem v')" "sched X"]
    by (simp add: pot_def keeps_def)
  have add: "unat (m_io_gas v' + ucast g) = io v' + unat g"
    if "unat g \<le> unat (cp_gas cp)" for g :: u256
  proof -
    have "io v' + unat g < 2 ^ 64" using that lt unat_u64_less [of "m_io_gas v"] by simp
    then show ?thesis by (subst unat_add_u64) (simp_all add: as_u64_id)
  qed
  have len: "length (take os (cr_output res)) \<le> os" by simp
  have n: "length (m_stack v) \<ge> args (call_info i)" using assms(3) by (simp add: ready_def)
  show ?case
    using k p m same res lt add [of "cr_gas res"] add [of "cp_gas cp"] len n
    by (cases go)
      (auto simp: x call wp_simps Let_def addIOGas_def ok_defs mem_ok_def intro!: wp_memWrite)
qed (use assms in \<open>auto simp: ready_def err_def\<close>)

subsection \<open>Creations\<close>

lemma wp_createBaseGas:
  assumes S: "sched_ok S"
    and Q: "\<And>g. 0 < unat g \<Longrightarrow> (unat (SP v 2) < 2 ^ 63 \<Longrightarrow> unat g \<le> 2 ^ 63) \<Longrightarrow> Q (setRunGas g v)"
  shows "wp (createBaseGas S i v) (err v) Q"
proof -
  let ?p = "(unat (SP v 2) + 31) div 32 * unat (sha3WordGas S)"
  have pos: "0 < unat (createGas S)" and w: "unat (sha3WordGas S) \<le> 15"
    using S by (simp_all add: sched_ok_def word_less_nat_alt)
  have small: "?p \<le> 2 ^ 58 * 15" if "unat (SP v 2) < 2 ^ 63"
    using that w by (intro mult_le_mono) simp_all
  show ?thesis
  proof (cases "i = CREATE2")
    case True
    have "wp (at (setRunGas (ucast (createGas S)) v) (toInt63 ?p)) (err v)
        (\<lambda>g. Q (addRunGas g (setRunGas (ucast (createGas S)) v)))"
    proof (rule wp_toInt63I, goal_cases)
      case (1 g)
      then have g: "unat (ucast (createGas S) + g) = unat (createGas S) + ?p"
        using unat_u32_less [of "createGas S"] by (subst unat_add_u64) simp_all
      have "Q (setRunGas (ucast (createGas S) + g) v)"
        using g pos small unat_u32_less [of "createGas S"] by (intro Q) auto
      then show ?case by (simp add: setRunGas_def addRunGas_def)
    qed (simp add: err_def)
    with True show ?thesis by (simp add: createBaseGas_def Let_def wp_simps)
  next
    case False
    have "Q (setRunGas (ucast (createGas S)) v)"
      using pos unat_u32_less [of "createGas S"] by (intro Q) auto
    with False show ?thesis by (simp add: createBaseGas_def Let_def wp_simps)
  qed
qed

text \<open>The creation is offered at most what is left, and the rest of it comes back.\<close>

lemma create_gas_back:
  fixes w :: u64
  defines "io_gas \<equiv> ucast w :: u256"
  assumes "cg = (if c then io_gas else io_gas - io_gas div 64)" "r \<le> cg"
  shows "unat (ucast (io_gas - (cg - r)) :: u64) + unat cg \<le> unat w + unat r" "unat cg \<le> unat w"
proof -
  have io: "unat io_gas = unat w" by (simp add: io_gas_def)
  have "io_gas div 64 \<le> io_gas" by (simp add: word_le_nat_alt unat_div)
  then have cg: "cg \<le> io_gas" using assms(2) by (auto simp: word_le_nat_alt unat_sub)
  then show le: "unat cg \<le> unat w" using io by (simp add: word_le_nat_alt)
  have "unat (io_gas - (cg - r)) = unat io_gas - (unat cg - unat r)"
    using assms(3) cg by (subst unat_sub) (auto simp: word_le_nat_alt unat_sub)
  then have "unat (io_gas - (cg - r)) + unat cg = unat w + unat r"
    using io le assms(3) by (simp add: word_le_nat_alt)
  then show "unat (ucast (io_gas - (cg - r)) :: u64) + unat cg \<le> unat w + unat r"
    using as_u64_le [of "io_gas - (cg - r)"] by linarith
qed

lemma caseCreate_ok:
  assumes "sched_ok (sched X)" "ext_at X (m_ext v)" "ready (sched X) (args (call_info i)) v" "\<not> x_staticCall X"
  shows "wp (caseCreate X i v) (err v) (ok (sched X) (args (call_info i)) 1 v)"
  unfolding caseCreate_def Let_def wp_bindE
proof (rule wp_createBaseGas [OF assms(1)], rule wp_updateMemNeed, goal_cases)
  case (5 g0 g s M)
  have pay: "unat (m_io_gas v - g) + memCost (sched X) (length M) + unat g0 = io v + memCost (sched X) (length (m_mem v))"
    "unat (m_io_gas v - g) \<le> io v" and le: "unat g \<le> io v" "length (m_mem v) \<le> length M"
    using 5 pay_memory [of g "unat g0" 0 "sched X" M "m_mem v" "m_io_gas v"] assms(3)
    by (simp_all add: ready_def)
  let ?v = "setRunGas g0 v\<lparr>m_newMemSize := s, m_runGas := g, m_mem := M, m_io_gas := m_io_gas v - g, m_returnData := []\<rparr>"
  let ?io = "ucast (m_io_gas v - g) :: u256"
  let ?cg = "if staticCallDepthLimit (sched X) then ?io else ?io - ?io div 64"
  let ?r = "\<lambda>e c salt. fst (x_create X e ?cg c i salt (m_ext v))"
  let ?ok = "\<lambda>e c. length c < 2 ^ 64 \<and> x_depth X < 1024 \<and> e \<le> x_balance X (m_ext v) (x_myAddress X)"
  have left: "unat (ucast (?io - (?cg - cre_gas (?r e c salt))) :: u64) \<le> unat (m_io_gas v - g)"
    if "?ok e c" for e c salt
  proof -
    have "cre_gas (?r e c salt) \<le> ?cg" using assms(2,4) that by (simp add: ext_at_def)
    from create_gas_back(1) [OF refl this] this show ?thesis unfolding word_le_nat_alt by linarith
  qed
  have len: "length (cre_output (?r e c salt)) < 2 ^ 64" if "?ok e c" for e c salt
    using assms(2,4) that by (simp add: ext_at_def)
  have acc: "as_u64 (SP v 2) \<noteq> 0 \<Longrightarrow> as_u64 (SP v 1) + as_u64 (SP v 2) \<le> length M"
    using 5(3) by (rule in_memD)
  have left': "unat (ucast (?io - (?cg - cre_gas (?r e c salt))) :: u64) \<le> io v"
    "unat (ucast (?io - (?cg - cre_gas (?r e c salt))) :: u64) + memCost (sched X) (length M)
     < io v + memCost (sched X) (length (m_mem v))" if "?ok e c" for e c salt
    using left [OF that, of salt] pay 5(1) by linarith+
  show ?case
    using left' len acc pay le 5(1,4) unat_u64_less [of "ucast (SP v 2)"]
    by (auto simp: wp_simps Let_def case_prod_unfold ok_defs err_def intro!: wp_memRead)
next
  case (3 g)
  then show ?case using assms(3) unat_u256_less [of "SP v 2"] by (auto simp: ready_def)
qed (use assms in \<open>auto simp: ready_def err_def\<close>)

end
