(* ===== verification/LegacyVM_Jumps.thy ===== *)
theory LegacyVM_Jumps
  imports LegacyVM_Exec
begin

text \<open>
  Jump destinations: \<open>verifyJumpDest\<close> decides membership in the table by halving it, and
  the table that \<open>optimize\<close> builds holds exactly the \<open>JUMPDEST\<close> bytes at which an
  instruction starts.  \<open>starts\<close> is the specification: the positions a decoder reaches from
  0 when it skips the data of each \<open>PUSH\<close>.
\<close>

subsection \<open>Binary search\<close>

lemma lower_bound_0 [simp]: "lower_bound xs x first 0 = first"
  by (subst lower_bound.simps) simp

lemma lower_bound_step:
  "len \<noteq> 0 \<Longrightarrow> lower_bound xs x first len =
    (if xs ! (first + len div 2) < x then lower_bound xs x (first + len div 2 + 1) (len - len div 2 - 1)
     else lower_bound xs x first (len div 2))"
  by (subst lower_bound.simps) (simp add: Let_def)

lemma lower_bound_splits:
  assumes "sorted xs" "first + len \<le> length xs" "\<forall>j<first. xs ! j < x"
    "\<forall>j<length xs. first + len \<le> j \<longrightarrow> x \<le> xs ! j"
  shows "lower_bound xs x first len \<le> length xs
    \<and> (\<forall>j<lower_bound xs x first len. xs ! j < x)
    \<and> (\<forall>j<length xs. lower_bound xs x first len \<le> j \<longrightarrow> x \<le> xs ! j)"
  using assms
proof (induction xs x first len rule: lower_bound.induct)
  case (1 xs x first len)
  show ?case
  proof (cases "len = 0")
    case True
    then show ?thesis using 1(4-) by simp
  next
    case False
    define half where "half = len div 2"
    define middle where "middle = first + half"
    have m: "middle < first + len" "half < len" "middle < length xs"
      using False 1(4) by (simp_all add: middle_def half_def)
    show ?thesis
    proof (cases "xs ! middle < x")
      case True
      have "\<forall>j<middle + 1. xs ! j < x"
        using True m(3) 1(3) by (auto simp: less_Suc_eq_le intro: le_less_trans [OF sorted_nth_mono])
      moreover have "middle + 1 + (len - half - 1) = first + len"
        using m by (simp add: middle_def)
      ultimately have "lower_bound xs x (middle + 1) (len - half - 1) \<le> length xs
        \<and> (\<forall>j<lower_bound xs x (middle + 1) (len - half - 1). xs ! j < x)
        \<and> (\<forall>j<length xs. lower_bound xs x (middle + 1) (len - half - 1) \<le> j \<longrightarrow> x \<le> xs ! j)"
        using 1(1) [OF False half_def middle_def True] 1(3-) by simp
      moreover have eq: "lower_bound xs x first len = lower_bound xs x (middle + 1) (len - half - 1)"
        using lower_bound_step [OF False, of xs x first] True by (simp add: half_def middle_def)
      ultimately show ?thesis unfolding eq by blast
    next
      case F: False
      have "\<forall>j<length xs. first + half \<le> j \<longrightarrow> x \<le> xs ! j"
        using F m(3) 1(3) by (auto simp: middle_def not_less intro: order_trans [OF _ sorted_nth_mono])
      then have "lower_bound xs x first half \<le> length xs
        \<and> (\<forall>j<lower_bound xs x first half. xs ! j < x)
        \<and> (\<forall>j<length xs. lower_bound xs x first half \<le> j \<longrightarrow> x \<le> xs ! j)"
        using 1(2) [OF False half_def middle_def F 1(3) _ 1(5)] m(3) by (simp add: middle_def)
      moreover have eq: "lower_bound xs x first len = lower_bound xs x first half"
        using lower_bound_step [OF False, of xs x first] F by (simp add: half_def middle_def)
      ultimately show ?thesis unfolding eq by blast
    qed
  qed
qed

lemma binary_search_iff: "sorted xs \<Longrightarrow> binary_search xs x \<longleftrightarrow> x \<in> set xs"
proof -
  assume s: "sorted xs"
  let ?i = "lower_bound xs x 0 (length xs)"
  have i: "?i \<le> length xs" "\<forall>j<?i. xs ! j < x" "\<forall>j<length xs. ?i \<le> j \<longrightarrow> x \<le> xs ! j"
    using lower_bound_splits [OF s, of 0 "length xs" x] by auto
  show ?thesis
  proof
    assume "binary_search xs x"
    then have "?i < length xs" "\<not> x < xs ! ?i" by (simp_all add: binary_search_def Let_def)
    with i(3) have "xs ! ?i = x" by (simp add: le_antisym)
    with \<open>?i < length xs\<close> show "x \<in> set xs" by (metis nth_mem)
  next
    assume "x \<in> set xs"
    then obtain j where j: "j < length xs" "xs ! j = x" by (metis in_set_conv_nth)
    with i(2) have "?i \<le> j" by (metis less_irrefl not_le)
    with j s have "?i < length xs" "xs ! ?i \<le> x" using sorted_nth_mono by fastforce+
    then show "binary_search xs x" by (simp add: binary_search_def Let_def)
  qed
qed

lemma verifyJumpDest_iff:
  assumes "sorted dests"
  shows "verifyJumpDest dests d = Inr pc \<longleftrightarrow> unat d < 2 ^ 63 \<and> unat d \<in> set dests \<and> pc = unat d"
proof (cases "unat d < 2 ^ 63")
  case True
  then have "d \<le> 0x7FFFFFFFFFFFFFFF" "as_u64 d = unat d"
    by (simp_all add: word_le_nat_alt unsigned_ucast_eq take_bit_eq_mod)
  then show ?thesis
    using binary_search_iff [OF assms, of "unat d"] True by (auto simp only: verifyJumpDest_def split: if_splits)
next
  case False
  then have "\<not> d \<le> 0x7FFFFFFFFFFFFFFF" by (simp add: word_le_nat_alt)
  with False show ?thesis by (simp add: verifyJumpDest_def)
qed

lemma verifyJumpDest_Inl: "verifyJumpDest dests d = Inl e \<Longrightarrow> e = BadJumpDestination"
  by (simp add: verifyJumpDest_def split: if_splits)

subsection \<open>Instruction starts\<close>

definition pushed :: "byte \<Rightarrow> nat" where
  "pushed b = (if 0x60 \<le> b \<and> b \<le> 0x7f then unat b - 0x5f else 0)"

inductive starts :: "bytes \<Rightarrow> nat \<Rightarrow> bool" for code where
  start_0: "starts code 0"
| start_next: "starts code pc \<Longrightarrow> pc < length code \<Longrightarrow> starts code (pc + 1 + pushed (code ! pc))"

lemma starts_apart:
  "starts code q \<Longrightarrow> starts code p \<Longrightarrow> p < q \<Longrightarrow> p < length code \<Longrightarrow> p + 1 + pushed (code ! p) \<le> q"
proof (induction q arbitrary: p rule: less_induct)
  case (less q)
  from less(2) show ?case
  proof cases
    case start_0
    then show ?thesis using less(4) by simp
  next
    case (start_next pc)
    consider "p = pc" | "p < pc" | "pc < p" by linarith
    then show ?thesis
    proof cases
      case 2
      then show ?thesis using less(1) [of pc p] start_next less(3,5) by simp
    next
      case 3
      then show ?thesis using less(1) [of p pc] start_next less(3,4) by simp
    qed (use start_next in simp)
  qed
qed

text \<open>The jump destinations below \<open>pc\<close>.\<close>

definition dests_below :: "bytes \<Rightarrow> nat \<Rightarrow> nat set" where
  "dests_below code pc = {q. starts code q \<and> q < pc \<and> q < length code \<and> code ! q = 0x5b}"

lemma dests_below_next:
  assumes "starts code pc" "pc < length code"
  shows "dests_below code (pc + 1 + pushed (code ! pc)) =
    dests_below code pc \<union> (if code ! pc = 0x5b then {pc} else {})"
proof (rule set_eqI)
  fix q
  have "q \<noteq> pc \<Longrightarrow> \<not> q < pc \<Longrightarrow> starts code q \<Longrightarrow> pc + 1 + pushed (code ! pc) \<le> q"
    using starts_apart [OF _ assms(1) _ assms(2), of q] by simp
  then show "q \<in> dests_below code (pc + 1 + pushed (code ! pc)) \<longleftrightarrow>
      q \<in> dests_below code pc \<union> (if code ! pc = 0x5b then {pc} else {})"
    using assms by (cases "q = pc"; cases "q < pc") (auto simp: dests_below_def not_less)
qed

lemma pushed_push: "0x60 \<le> b \<Longrightarrow> b \<le> 0x7f \<Longrightarrow> unat (b - 0x60) + 1 = pushed b"
  by (simp add: pushed_def word_le_nat_alt unat_sub)

text \<open>
  The bytes at instruction starts that \<open>optimize\<close> rewrites to \<open>INVALID\<close>; everything else
  is copied.
\<close>

definition rewritten :: "bytes \<Rightarrow> nat \<Rightarrow> byte" where
  "rewritten code j = (if starts code j \<and> code ! j \<in> {0xac, 0xad, 0xae} then 0xfe else code ! j)"

lemma optimize_loop_end: "\<not> pc < n \<Longrightarrow> optimize_loop n pc (code, dests) = (code, dests)"
  by (subst optimize_loop.simps) simp

lemma dests_below_all: "length code \<le> pc \<Longrightarrow> dests_below code pc = dests_below code (length code)"
  by (auto simp: dests_below_def)

lemma optimize_loop_correct:
  assumes "starts orig pc" "n = length orig" "length code = n + 33"
    "\<forall>j<n. code ! j = (if j < pc then rewritten orig j else orig ! j)"
    "\<forall>j. n \<le> j \<and> j < n + 33 \<longrightarrow> code ! j = 0"
    "sorted dests" "set dests = dests_below orig pc" "\<forall>q\<in>set dests. q < pc"
  shows "\<exists>code' dests'. optimize_loop n pc (code, dests) = (code', dests')
    \<and> length code' = n + 33 \<and> (\<forall>j<n. code' ! j = rewritten orig j)
    \<and> (\<forall>j. n \<le> j \<and> j < n + 33 \<longrightarrow> code' ! j = 0)
    \<and> sorted dests' \<and> set dests' = dests_below orig n"
  using assms
proof (induction n pc "(code, dests)" arbitrary: code dests rule: optimize_loop.induct)
  case (1 n pc code dests)
  show ?case
  proof (cases "pc < n")
    case False
    have "\<forall>j<n. code ! j = rewritten orig j" using 1(7) False by simp
    moreover have "set dests = dests_below orig n" using 1(5,10) False dests_below_all [of orig pc] by simp
    ultimately show ?thesis
      unfolding optimize_loop_end [OF False] using 1(6,8,9) by blast
  next
    case True
    let ?op = "code ! pc" and ?nx = "pc + 1 + pushed (orig ! pc)"
    let ?code = "if ?op = 0xac \<or> ?op = 0xad \<or> ?op = 0xae then code[pc := 0xfe] else code"
    have op: "?op = orig ! pc" using True 1(7) by simp
    have st: "starts orig ?nx" using 1(4,5) True by (intro start_next) simp_all
    have gap: "rewritten orig j = orig ! j" if "pc < j" "j < ?nx" "j < n" for j
      using that starts_apart [of orig j pc] 1(4,5) True by (auto simp: rewritten_def)
    have code: "\<forall>j<n. ?code ! j = (if j < ?nx then rewritten orig j else orig ! j)"
    proof (intro allI impI)
      fix j assume "j < n"
      then show "?code ! j = (if j < ?nx then rewritten orig j else orig ! j)"
        using 1(4,6,7) True op gap [of j]
        by (cases "j < pc"; cases "j = pc") (auto simp: rewritten_def)
    qed
    have rest: "length ?code = n + 33" "\<forall>j. n \<le> j \<and> j < n + 33 \<longrightarrow> ?code ! j = 0"
      using 1(6,8) True by auto
    note below = dests_below_next [OF 1(4), folded 1(5), OF True]
    note IH = 1(1-3) [OF True refl refl]
    consider (dest) "?op = 0x5b" | (push) "?op \<noteq> 0x5b" "0x60 \<le> ?op \<and> ?op \<le> 0x7f"
      | (other) "?op \<noteq> 0x5b" "\<not> (0x60 \<le> ?op \<and> ?op \<le> 0x7f)" by blast
    then show ?thesis
    proof cases
      case dest
      then have nx: "?nx = pc + 1" using op by (simp add: pushed_def)
      have "sorted (dests @ [pc])" "set (dests @ [pc]) = dests_below orig (pc + 1)"
        "\<forall>q\<in>set (dests @ [pc]). q < pc + 1"
        using 1(9-11) below dest op nx by (auto simp: sorted_append)
      note res = IH(1) [OF dest st [unfolded nx] 1(5) rest(1) code [unfolded nx] rest(2) this]
      have eq: "optimize_loop n pc (code, dests) = optimize_loop n (pc + 1) (?code, dests @ [pc])"
        using True dest by (subst optimize_loop.simps) (simp only: Let_def if_True if_False simp_thms)
      show ?thesis unfolding eq by (rule res)
    next
      case push
      then have nx: "?nx = pc + unat (?op - 0x60) + 1 + 1" using op pushed_push [of ?op] by simp
      have "sorted dests" "set dests = dests_below orig ?nx" "\<forall>q\<in>set dests. q < ?nx"
        using 1(9-11) below push op by auto
      note res = IH(2) [OF push st [unfolded nx] 1(5) rest(1) code [unfolded nx] rest(2) this [unfolded nx]]
      have eq: "optimize_loop n pc (code, dests) = optimize_loop n (pc + unat (?op - 0x60) + 1 + 1) (?code, dests)"
        using True push by (subst optimize_loop.simps) (simp only: Let_def if_True if_False simp_thms)
      show ?thesis unfolding eq by (rule res)
    next
      case other
      then have nx: "?nx = pc + 1" using op by (auto simp: pushed_def)
      have "sorted dests" "set dests = dests_below orig ?nx" "\<forall>q\<in>set dests. q < ?nx"
        using 1(9-11) below other op by auto
      note res = IH(3) [OF other st [unfolded nx] 1(5) rest(1) code [unfolded nx] rest(2) this [unfolded nx]]
      have eq: "optimize_loop n pc (code, dests) = optimize_loop n (pc + 1) (?code, dests)"
        using True other by (subst optimize_loop.simps) (simp only: Let_def if_True if_False simp_thms)
      show ?thesis unfolding eq by (rule res)
    qed
  qed
qed

lemma optimize_correct:
  assumes "optimize code = (code', dests)"
  shows "length code' = length code + 33"
    "\<And>j. j < length code \<Longrightarrow> code' ! j = rewritten code j"
    "\<And>j. length code \<le> j \<Longrightarrow> j < length code + 33 \<Longrightarrow> code' ! j = 0"
    "sorted dests" "set dests = dests_below code (length code)"
proof -
  have "\<exists>c d. optimize_loop (length code) 0 (copyCode code 33, []) = (c, d)
    \<and> length c = length code + 33 \<and> (\<forall>j<length code. c ! j = rewritten code j)
    \<and> (\<forall>j. length code \<le> j \<and> j < length code + 33 \<longrightarrow> c ! j = 0)
    \<and> sorted d \<and> set d = dests_below code (length code)"
    by (rule optimize_loop_correct) (auto simp: copyCode_def nth_append dests_below_def intro: start_0)
  then show "length code' = length code + 33"
    "\<And>j. j < length code \<Longrightarrow> code' ! j = rewritten code j"
    "\<And>j. length code \<le> j \<Longrightarrow> j < length code + 33 \<Longrightarrow> code' ! j = 0"
    "sorted dests" "set dests = dests_below code (length code)"
    using assms by (auto simp: optimize_def)
qed

end
