(* ===== verification/LegacyVM_Inv.thy ===== *)
theory LegacyVM_Inv
  imports LegacyVM_CallSteps LegacyVM_Jumps
begin

text \<open>
  The invariant of the interpreter and the whole run: every instruction keeps \<open>vm_inv\<close>,
  none reaches undefined behaviour, and each pays, so the loop ends.
\<close>

subsection \<open>The switch\<close>

lemma case_call_ok:
  assumes "sched_ok (sched X)" "ext_at X (m_ext v)" "ready (sched X) (args (call_info i)) v"
  shows "wp (case_call X i v) (err v) (ok (sched X) (args (call_info i)) 1 v)"
  using caseCall_ok [OF assms] caseCreate_ok [OF assms] assms(3)
  by (auto simp: case_call_def Let_def wp_simps err_def)

lemma tierGas_bound: "unat (ucast (tierGas X t) :: u64) \<le> 2 ^ 32"
  using unat_u32_less [of "tierGas X t"] by simp

lemma tierGas_pos:
  assumes "sched_ok (sched X)" "t \<in> {Base, VeryLow, Low, Mid, High}"
  shows "0 < unat (ucast (tierGas X t) :: u64)"
proof -
  have "tier_index t \<in> set [1..<6]" using assms(2) by (auto simp: tier_index_def)
  then have "0 < tierStepGas (sched X) ! tier_index t" "tier_index t < length (tierStepGas (sched X))"
    using assms(1) unfolding sched_ok_def by auto
  then show ?thesis by (simp add: tierGas_def word_less_nat_alt)
qed

text \<open>What \<open>fetchInstruction\<close> establishes for the instruction at \<open>m_PC\<close>.\<close>

definition fetched :: "'s ExtVMFace \<Rightarrow> 's VM \<Rightarrow> bool" where
  "fetched X v = (let m = instructionInfo (m_OP v) in
     ready (sched X) (args m) v \<and> m_runGas v = ucast (tierGas X (gasPriceTier m)) \<and>
     (\<forall>n. m_OP v = PUSH n \<longrightarrow> m_PC v + 1 + n < length (m_code v)) \<and>
     (\<forall>n. m_OP v = LOG n \<longrightarrow> n \<le> 4) \<and> sorted (m_jumpDests v))"

lemma interpretCase_ok:
  assumes S: "sched_ok (sched X)" and E: "ext_at X (m_ext v)" and f: "fetched X v"
  shows "wp (interpretCase X v) (err v)
    (ok (sched X) (args (instructionInfo (m_OP v))) (ret (instructionInfo (m_OP v))) v)"
proof -
  let ?m = "instructionInfo (m_OP v)"
  have r: "ready (sched X) (args ?m) v" and g: "m_runGas v = ucast (tierGas X (gasPriceTier ?m))"
    and s: "sorted (m_jumpDests v)"
    using f by (auto simp: fetched_def Let_def)
  have b: "rg v \<le> 2 ^ 32" using g tierGas_bound by metis
  then have b63: "rg v \<le> 2 ^ 63" by simp
  have pos: "gasPriceTier ?m \<in> {Base, VeryLow, Low, Mid, High} \<Longrightarrow> 0 < rg v"
    using g tierGas_pos [OF S] by metis
  note simps = interpretCase_def instructionInfo_def
  note jump = verifyJumpDest_iff [OF s] verifyJumpDest_Inl [of "m_jumpDests v"]
  show ?thesis
  proof (cases "m_OP v")
    case (Bin i)
    then show ?thesis
      using r pos case_bin_ok [of "sched X" v X i] by (simp add: simps bin_info_def split: if_splits)
  next
    case (Env i)
    then show ?thesis
      using r pos case_env_ok [of "sched X" v X i] by (simp add: simps env_info_def split: if_splits)
  next
    case (Query i)
    then show ?thesis
      using r pos case_query_ok [OF S, of "sched X" v i] by (simp add: simps query_info_def split: if_splits)
  next
    case (Copy i)
    then show ?thesis
      using r pos b case_copy_ok [OF S E, of i] by (simp add: simps copy_info_def split: if_splits)
  next
    case (Mem i)
    then show ?thesis
      using r pos b case_mem_ok [of X "args (mem_info i)" v i] by (simp add: simps mem_info_def split: if_splits)
  next
    case (Halt i)
    then show ?thesis
      using r case_halt_ok [of X i v, OF _ b63] by (simp add: simps)
  next
    case (Call i)
    then show ?thesis
      using r case_call_ok [OF S E, of i]
      by (cases i) (simp_all add: simps call_info_def)
  next
    case (PUSH n)
    then show ?thesis
      using r pos f case_push_ok [of "sched X" v n X] by (simp add: simps fetched_def Let_def split: if_splits)
  next
    case (DUP n)
    then show ?thesis
      using r pos case_dup_ok [of "sched X" n v] by (simp add: simps)
  next
    case (SWAP n)
    then show ?thesis
      using r pos case_swap_ok [of "sched X" n v] by (simp add: simps)
  next
    case (LOG n)
    then show ?thesis
      using r f case_log_ok [OF S, of n v] by (simp add: simps fetched_def Let_def)
  next
    case JUMP
    then show ?thesis
      using r pos case_jump_ok [of "sched X" v] jump by (auto simp: simps)
  next
    case JUMPI
    then show ?thesis
      using r pos case_jumpi_ok [of "sched X" v] jump by (auto simp: simps)
  next
    case SSTORE
    then show ?thesis using r case_sstore_ok [OF S, of v] by (simp add: simps)
  next
    case EXP
    then show ?thesis using r case_exp_ok [OF S, of "sched X" v] by (simp add: simps)
  next
    case SHA3
    then show ?thesis using r case_sha3_ok [OF S, of v] by (simp add: simps)
  next
    case POP
    then show ?thesis
      using r pos by (auto simp: simps wp_simps ok_defs err_def ready_def unat_le_minus)
  next
    case JUMPDEST
    then show ?thesis
      using r by (auto simp: simps wp_simps ok_defs err_def ready_def unat_le_minus)
  qed (use r pos in \<open>auto simp: simps wp_simps err_def intro!: simple_ok\<close>)
qed

subsection \<open>One instruction\<close>

definition vm_inv :: "'s ExtVMFace \<Rightarrow> 's VM \<Rightarrow> bool" where
  "vm_inv X v =
    (length (m_code v) = length (x_code X) + 33 \<and>
     (\<forall>j. length (x_code X) \<le> j \<and> j < length (m_code v) \<longrightarrow> m_code v ! j = 0) \<and>
     m_PC v < length (m_code v) \<and>
     sorted (m_jumpDests v) \<and> (\<forall>d\<in>set (m_jumpDests v). d < length (x_code X)) \<and>
     length (m_stack v) \<le> 1024 \<and> mem_ok (sched X) (m_mem v) \<and> length (m_returnData v) < 2 ^ 64)"

lemma decode_0: "decode 0 = Halt STOP"
  by (simp add: decode_def decode_arith_def nth_op_def)

lemma nth_op_cases: "nth_op ops i \<in> insert Undefined (set ops)"
  by (simp add: nth_op_def)

lemma nth_op_in: "nth_op ops i = x \<Longrightarrow> x \<in> insert Undefined (set ops)"
  using nth_op_cases by metis

text \<open>Numbered families carry the number of the enumerator's name.\<close>

lemma decode_PUSH: "decode b = PUSH n \<Longrightarrow> n \<le> 32"
  unfolding decode_def Let_def decode_arith_def decode_logic_def decode_env_def decode_block_def
    decode_flow_def decode_eip615_def decode_simd_def decode_system_def
  by (auto split: if_splits dest!: nth_op_in)

lemma decode_LOG: "decode b = LOG n \<Longrightarrow> n \<le> 4"
  unfolding decode_def Let_def decode_arith_def decode_logic_def decode_env_def decode_block_def
    decode_flow_def decode_eip615_def decode_simd_def decode_system_def
  by (auto split: if_splits dest!: nth_op_in)

lemma fetchInstruction_ok:
  assumes inv: "vm_inv X v"
  shows "wp (fetchInstruction X v) (\<lambda>e v'. e \<noteq> UB \<and> m_io_gas v' = m_io_gas v) (\<lambda>v'.
     fetched X v' \<and> m_OP v' = decode (m_code v ! m_PC v) \<and>
     length (m_stack v) - args (instructionInfo (m_OP v')) + ret (instructionInfo (m_OP v')) \<le> 1024 \<and>
     m_io_gas v' = m_io_gas v \<and> m_mem v' = m_mem v \<and> m_code v' = m_code v \<and> m_stack v' = m_stack v \<and>
     m_jumpDests v' = m_jumpDests v \<and> m_PC v' = m_PC v \<and> m_returnData v' = m_returnData v \<and>
     m_ext v' = m_ext v)"
proof -
  let ?op = "decode (m_code v ! m_PC v)"
  have "m_PC v + 1 + n < length (m_code v)" if "?op = PUSH n" for n
  proof -
    have "m_PC v < length (x_code X)"
      using inv that by (metis Instruction.distinct(1) decode_0 not_le Instruction.simps vm_inv_def)
    then show ?thesis using inv decode_PUSH [OF that] by (simp add: vm_inv_def)
  qed
  then show ?thesis
    using inv decode_LOG [of "m_code v ! m_PC v"]
    by (auto simp: fetchInstruction_def adjustStack_def throwBadStack_def Let_def wp_simps fetched_def
        ready_def vm_inv_def)
qed

lemma pc_step_bound:
  assumes "vm_inv X v0" "m_code v = m_code v0" "m_PC v = m_PC v0" "m_jumpDests v = m_jumpDests v0"
    "m_OP v = decode (m_code v0 ! m_PC v0)" "\<nexists>h. m_OP v = Halt h" "pc_step v v'"
  shows "m_PC v' < length (m_code v0)"
proof -
  have "m_PC v0 < length (x_code X)"
    using assms(1,5,6) decode_0 unfolding vm_inv_def by (metis not_le)
  then show ?thesis
    using assms(1-4,7) by (auto simp: pc_step_def vm_inv_def)
qed

text \<open>An instruction that halts never continues.\<close>

lemma interpretCase_Halt:
  "m_OP v = Halt h \<Longrightarrow> interpretCase X v = Inr r \<Longrightarrow> \<exists>out v'. r = Halted out v'"
  by (cases h)
    (auto simp: interpretCase_def case_halt_def case_suicide_def Let_def throw_def bindE_def
      split: sum.splits if_splits)

definition after :: "'s ExtVMFace \<Rightarrow> 's VM \<Rightarrow> 's outcome \<Rightarrow> bool" where
  "after X v r = (case r of
     Running v' \<Rightarrow> vm_inv X v' \<and> pot (sched X) v' < pot (sched X) v \<and> io v' \<le> io v
   | Halted out v' \<Rightarrow> mem_ok (sched X) (m_mem v') \<and> pot (sched X) v' \<le> pot (sched X) v \<and> io v' \<le> io v)"

lemma step_ok:
  assumes S: "sched_ok (sched X)" and E: "ext_at X (m_ext v)" and inv: "vm_inv X v"
  shows "wp (step X v) (err v) (after X v)"
  unfolding step_def wp_bindE
proof (rule wp_mono [OF fetchInstruction_ok [OF inv]], goal_cases)
  case (1 e v')
  then show ?case by (simp add: err_def)
next
  case (2 w)
  let ?m = "instructionInfo (m_OP w)"
  have "wp (interpretCase X w) (err w) (ok (sched X) (args ?m) (ret ?m) w)"
    using S E 2 by (intro interpretCase_ok) simp_all
  moreover have "after X v r" if r: "ok (sched X) (args ?m) (ret ?m) w r" and i: "interpretCase X w = Inr r" for r
  proof (cases r)
    case (Running v')
    then have "\<nexists>h. m_OP w = Halt h" using interpretCase_Halt i by fastforce
    then have "m_PC v' < length (m_code v)"
      using pc_step_bound [OF inv, of w v'] 2 r Running by (simp add: ok_def)
    then show ?thesis
      using r inv 2 Running by (auto simp: after_def ok_def keeps_def pot_def vm_inv_def)
  next
    case (Halted out v')
    then show ?thesis using r 2 by (simp add: after_def ok_def keeps_def pot_def)
  qed
  ultimately show ?case
    using 2 by (cases "interpretCase X w") (auto simp: wp_def err_def)
qed

subsection \<open>The whole run\<close>

lemma initEntry_inv: "vm_inv X (initEntry X gas s)"
proof -
  obtain code dests where o: "optimize (x_code X) = (code, dests)" by fastforce
  show ?thesis
    using optimize_correct [OF o]
    by (auto simp: vm_inv_def initEntry_def o mem_ok_def dests_below_def)
qed

text \<open>The states the interpreter loop passes through.\<close>

inductive reachable :: "'s ExtVMFace \<Rightarrow> u256 \<Rightarrow> 's \<Rightarrow> 's VM \<Rightarrow> bool" for X gas s where
  reach_init: "reachable X gas s (initEntry X gas s)"
| reach_step: "reachable X gas s v \<Longrightarrow> step X v = Inr (Running v') \<Longrightarrow> reachable X gas s v'"

lemma initEntry_pot: "pot S (initEntry X gas s) = as_u64 gas"
  by (simp add: pot_def initEntry_def split: prod.split)

lemma reachable_inv:
  assumes "sched_ok (sched X)" "ext_ok X" "reachable X gas s v"
  shows "vm_inv X v \<and> pot (sched X) v \<le> as_u64 gas"
  using assms(3)
proof induction
  case reach_init
  then show ?case using initEntry_inv [of X gas s] by (simp add: initEntry_pot)
next
  case (reach_step v v')
  then have "after X v (Running v')" using step_ok [OF assms(1), of v] assms(2) by (simp add: ext_ok_def wp_def)
  then show ?case using reach_step by (simp add: after_def)
qed

end
