(* ===== verification/LegacyVM_Static.thy ===== *)
theory LegacyVM_Static
  imports LegacyVM_Inv
begin

text \<open>
  Static calls: an interpreter started with \<open>staticCall\<close> set reaches the state behind
  \<open>ExtVMFace\<close> only through nested calls that are static themselves.  \<open>P\<close> is any predicate
  of that state which static nested calls keep.
\<close>

named_theorems ext_intros

abbreviation keepsE :: "('s \<Rightarrow> bool) \<Rightarrow> vm_error \<Rightarrow> 's VM \<Rightarrow> bool" where
  "keepsE P e v \<equiv> P (m_ext v)"

fun vm_of :: "'s outcome \<Rightarrow> 's VM" where
  "vm_of (Running v) = v"
| "vm_of (Halted out v) = v"

abbreviation keepsR :: "('s \<Rightarrow> bool) \<Rightarrow> 's outcome \<Rightarrow> bool" where
  "keepsR P r \<equiv> P (m_ext (vm_of r))"

lemma ext_at [ext_intros]: "P (m_ext v) \<Longrightarrow> (\<And>x. Q x) \<Longrightarrow> wp (at v r) (keepsE P) Q"
  by (simp add: wp_at split: sum.splits)

lemma ext_updateIOGas [ext_intros]:
  "P (m_ext v) \<Longrightarrow> (\<And>v'. m_ext v' = m_ext v \<Longrightarrow> Q v') \<Longrightarrow> wp (updateIOGas v) (keepsE P) Q"
  by (simp add: wp_updateIOGas)

lemma ext_updateMem [ext_intros]:
  assumes "P (m_ext v)" "\<And>v'. m_ext v' = m_ext v \<Longrightarrow> Q v'"
  shows "wp (updateMem S n v) (keepsE P) Q"
  using assms
  by (auto simp: updateMem_def updateGas_def Let_def wp_simps wp_at addRunGas_def resizeMem_def
      split: sum.splits)

lemma ext_updateMemNeed [ext_intros]:
  "P (m_ext v) \<Longrightarrow> (\<And>v'. m_ext v' = m_ext v \<Longrightarrow> Q v') \<Longrightarrow> wp (updateMemNeed S off sz v) (keepsE P) Q"
  unfolding updateMemNeed_def wp_bindE by (intro ext_at ext_updateMem) auto

lemma ext_memRead [ext_intros]: "P (m_ext v) \<Longrightarrow> (\<And>x. Q x) \<Longrightarrow> wp (memRead off n v) (keepsE P) Q"
  by (simp add: memRead_def wp_simps)

lemma ext_memWrite [ext_intros]:
  "P (m_ext v) \<Longrightarrow> (\<And>v'. m_ext v' = m_ext v \<Longrightarrow> Q v') \<Longrightarrow> wp (memWrite off bs v) (keepsE P) Q"
  by (simp add: memWrite_def wp_simps)

lemma ext_copyDataToMemory [ext_intros]:
  "P (m_ext v) \<Longrightarrow> (\<And>v'. m_ext v' = m_ext v \<Longrightarrow> Q v') \<Longrightarrow>
   wp (copyDataToMemory data a b c v) (keepsE P) Q"
  by (auto simp: copyDataToMemory_def Let_def wp_simps intro!: ext_memWrite)

lemma ext_simple: "P (m_ext v) \<Longrightarrow> wp (simple k f v) (keepsE P) (keepsR P)"
  by (simp add: simple_def wp_simps)

lemma ext_copyData: "P (m_ext v) \<Longrightarrow> wp (copyData X k src v) (keepsE P) (keepsR P)"
  unfolding copyData_def wp_bindE by (auto simp: wp_simps intro!: ext_intros)

lemma ext_haltOutput:
  "P (m_ext v) \<Longrightarrow> wp (haltOutput X v) (keepsE P) (\<lambda>(out, v'). m_ext v' = m_ext v)"
  unfolding haltOutput_def wp_bindE by (auto simp: wp_simps intro!: ext_intros)

text \<open>A call set up by a static interpreter is static.\<close>

lemma ext_callForward:
  assumes "x_staticCall X" "P (m_ext v)"
  shows "wp (callForward X i dest a b c d v) (keepsE P)
    (\<lambda>(go, cp, oo, os, v'). cp_staticCall cp \<and> m_ext v' = m_ext v)"
  unfolding callForward_def Let_def wp_bindE
  using assms by (auto simp: wp_simps CallParameters_new_def intro!: ext_intros)

lemma ext_caseCallSetup:
  assumes "x_staticCall X" "P (m_ext v)"
  shows "wp (caseCallSetup X i v) (keepsE P)
    (\<lambda>(go, cp, oo, os, v'). cp_staticCall cp \<and> m_ext v' = m_ext v)"
  unfolding caseCallSetup_def Let_def wp_bindE
  using assms
  by (auto intro!: ext_intros wp_mono [OF ext_callForward [where P = P]])

lemma ext_caseCall:
  assumes X: "x_staticCall X" "P (m_ext v)"
    and call: "\<And>cp s. cp_staticCall cp \<Longrightarrow> P s \<Longrightarrow> P (snd (x_call X cp s))"
  shows "wp (caseCall X i v) (keepsE P) (keepsR P)"
  unfolding caseCall_def wp_bindE
proof (rule wp_mono [OF ext_caseCallSetup [where P = P]], goal_cases)
  case (4 x)
  obtain go cp oo os v' where x: "x = (go, cp, oo, os, v')" by (cases x)
  obtain r s where c: "x_call X cp (m_ext v) = (r, s)" by fastforce
  have "P s" using call [of cp "m_ext v"] 4 x c X by simp
  then show ?case
    using 4 X by (auto simp: x c Let_def wp_simps addIOGas_def intro!: ext_intros)
qed (use X in auto)

text \<open>
  An instruction that does not call out changes the state through the methods that a static
  interpreter refuses to use.
\<close>

definition changesKeep :: "'s ExtVMFace \<Rightarrow> ('s \<Rightarrow> bool) \<Rightarrow> bool" where
  "changesKeep X P \<longleftrightarrow> (\<forall>s. P s \<longrightarrow> (\<forall>d. P (x_refund X d s)) \<and> (\<forall>t b. P (x_log X t b s)) \<and>
    (\<forall>k w. P (snd (x_setStore X k w s))) \<and> (\<forall>a. P (x_suicide X a s)))"

lemma ext_updateSSGas:
  assumes "P (m_ext v)" "changesKeep X P"
  shows "P (m_ext (updateSSGas X v))"
  using assms
  by (simp add: updateSSGas_def updateSSGasEIP1283_def updateSSGasPreEIP1283_def Let_def refund_def
      changesKeep_def)

lemma ext_case_sstore:
  assumes "P (m_ext v)" "\<not> x_staticCall X \<Longrightarrow> changesKeep X P"
  shows "wp (case_sstore X v) (keepsE P) (keepsR P)"
proof (cases "x_staticCall X")
  case False
  then have "P (m_ext (updateSSGas X v))" "changesKeep X P" using assms ext_updateSSGas by auto
  then show ?thesis
    using False by (auto simp: case_sstore_def Let_def wp_simps changesKeep_def split: prod.split)
      (metis snd_conv)+
qed (use assms in \<open>simp add: case_sstore_def wp_simps\<close>)

lemma ext_case_log:
  assumes "P (m_ext v)" "\<not> x_staticCall X \<Longrightarrow> changesKeep X P"
  shows "wp (case_log X n v) (keepsE P) (keepsR P)"
  using assms by (auto simp: case_log_def logGasMem_def Let_def wp_simps changesKeep_def intro!: ext_intros)

lemma ext_case_halt:
  assumes "P (m_ext v)" "\<not> x_staticCall X \<Longrightarrow> changesKeep X P"
  shows "wp (case_halt X i v) (keepsE P) (keepsR P)"
  using assms
  by (auto simp: case_halt_def case_suicide_def Let_def wp_simps changesKeep_def intro!: ext_intros
      wp_mono [OF ext_haltOutput [where P = P]] split: halt_instr.splits)

lemma interpretCase_quiet:
  assumes P: "P (m_ext v)" and nc: "\<And>i. m_OP v \<noteq> Call i"
    and host: "\<not> x_staticCall X \<Longrightarrow> changesKeep X P"
  shows "wp (interpretCase X v) (keepsE P) (keepsR P)"
proof -
  note defs = interpretCase_def case_bin_def case_env_def case_query_def queryGas_def case_exp_def
    case_sha3_def case_copy_def case_mem_def memAccess_def case_jump_def case_jumpi_def case_push_def
    case_dup_def case_swap_def
  show ?thesis
  proof (cases "m_OP v")
    case SSTORE
    then show ?thesis using ext_case_sstore [OF P host] by (simp add: interpretCase_def)
  next
    case (LOG n)
    then show ?thesis using ext_case_log [OF P host] by (simp add: interpretCase_def)
  next
    case (Halt i)
    then show ?thesis using ext_case_halt [OF P host] by (simp add: interpretCase_def)
  next
    case (Call i)
    then show ?thesis using nc by simp
  qed (use P in \<open>auto simp: defs Let_def wp_simps intro!: ext_intros ext_simple ext_copyData
        split: mem_instr.splits copy_instr.splits query_instr.splits\<close>)
qed

lemma interpretCase_static:
  assumes X: "x_staticCall X" "P (m_ext v)"
    and call: "\<And>cp s. cp_staticCall cp \<Longrightarrow> P s \<Longrightarrow> P (snd (x_call X cp s))"
  shows "wp (interpretCase X v) (keepsE P) (keepsR P)"
proof (cases "\<exists>i. m_OP v = Call i")
  case True
  then show ?thesis
    using X ext_caseCall [OF X call] by (auto simp: interpretCase_def case_call_def Let_def wp_simps)
next
  case False
  then show ?thesis using X by (intro interpretCase_quiet) auto
qed

lemma step_static:
  assumes X: "x_staticCall X" "P (m_ext v)"
    and call: "\<And>cp s. cp_staticCall cp \<Longrightarrow> P s \<Longrightarrow> P (snd (x_call X cp s))"
  shows "wp (step X v) (keepsE P) (keepsR P)"
proof -
  have "wp (fetchInstruction X v) (keepsE P) (\<lambda>w. m_ext w = m_ext v)"
    using X by (simp add: fetchInstruction_def adjustStack_def Let_def wp_simps)
  then have "wp (fetchInstruction X v) (keepsE P) (\<lambda>w. wp (interpretCase X w) (keepsE P) (keepsR P))"
    using X by (elim wp_mono) (auto intro!: interpretCase_static call)
  then show ?thesis by (simp add: step_def wp_bindE)
qed

lemma interpretCases_static:
  assumes X: "x_staticCall X"
    and call: "\<And>cp s. cp_staticCall cp \<Longrightarrow> P s \<Longrightarrow> P (snd (x_call X cp s))"
  shows "P (m_ext v) \<Longrightarrow> interpretCases X fuel v = Some r \<Longrightarrow> wp r (keepsE P) (\<lambda>(out, v'). P (m_ext v'))"
proof (induction fuel arbitrary: v)
  case (Suc fuel)
  have st: "wp (step X v) (keepsE P) (keepsR P)" using X Suc(2) call by (rule step_static)
  show ?case
  proof (cases "step X v")
    case (Inl ev)
    then show ?thesis using st Suc(3) by (cases ev) (auto simp: wp_def)
  next
    case (Inr o1)
    then show ?thesis using st Suc by (cases o1) (auto simp: wp_def)
  qed
qed simp

end
