(* ===== verification/LegacyVM_Frame.thy ===== *)
theory LegacyVM_Frame
  imports LegacyVM_Static
begin

text \<open>
  The interpreter over a host that keeps an invariant.  \<open>I s n\<close> is a predicate of the state \<open>s\<close>
  behind \<open>ExtVMFace\<close> when \<open>n\<close> units of gas are left; \<open>hosts X I\<close> says that every method of the
  interface keeps it, where a nested call or creation takes its gas out of \<open>n\<close> and gives the
  rest back.  \<open>exec_host\<close>: then the whole run keeps it, returns within the fuel, stays inside
  its buffers and leaves no more gas than it was given.
\<close>

definition hosts :: "'s ExtVMFace \<Rightarrow> ('s \<Rightarrow> nat \<Rightarrow> bool) \<Rightarrow> bool" where
  "hosts X I \<longleftrightarrow>
    (\<forall>s n m. I s n \<longrightarrow> m \<le> n \<longrightarrow> I s m) \<and> (\<forall>s n. I s n \<longrightarrow> ext_at X s) \<and>
    (\<not> x_staticCall X \<longrightarrow> (\<forall>s n. I s n \<longrightarrow>
      (\<forall>d. I (x_refund X d s) n) \<and> (\<forall>t d. I (x_log X t d s) n) \<and>
      (\<forall>k v. I (snd (x_setStore X k v s)) n) \<and> (\<forall>a. I (x_suicide X a s) n))) \<and>
    (\<forall>s n cp. asked X s cp \<longrightarrow> I s (n + unat (cp_gas cp)) \<longrightarrow>
      I (snd (x_call X cp s)) (n + unat (cr_gas (fst (x_call X cp s))))) \<and>
    (\<forall>s n e g c i salt. \<not> x_staticCall X \<longrightarrow> x_depth X < 1024 \<longrightarrow> length c < 2 ^ 64 \<longrightarrow>
      e \<le> x_balance X s (x_myAddress X) \<longrightarrow> I s (n + unat g + 1) \<longrightarrow>
      I (snd (x_create X e g c i salt s)) (n + unat (cre_gas (fst (x_create X e g c i salt s)))))"

lemma hosts_mono: "hosts X I \<Longrightarrow> I s n \<Longrightarrow> m \<le> n \<Longrightarrow> I s m"
  by (simp add: hosts_def)

lemma hosts_ext: "hosts X I \<Longrightarrow> I s n \<Longrightarrow> ext_at X s"
  unfolding hosts_def by (drule conjunct2, drule conjunct1) blast

lemma hosts_changes:
  assumes "hosts X I" "\<not> x_staticCall X"
  shows "changesKeep X (\<lambda>s. I s n)"
  using assms unfolding hosts_def changesKeep_def by simp

lemma hosts_call:
  assumes "hosts X I" "asked X s cp" "I s (n + unat (cp_gas cp))" "x_call X cp s = (r, t)"
  shows "I t (n + unat (cr_gas r))"
proof -
  have "I (snd (x_call X cp s)) (n + unat (cr_gas (fst (x_call X cp s))))"
    using assms(1-3) unfolding hosts_def by simp
  with assms(4) show ?thesis by simp
qed

lemma hosts_create:
  assumes "hosts X I" "\<not> x_staticCall X" "x_depth X < 1024" "length c < 2 ^ 64"
    "e \<le> x_balance X s (x_myAddress X)" "I s (n + unat g + 1)" "x_create X e g c i salt s = (r, t)"
  shows "I t (n + unat (cre_gas r))"
proof -
  have "I (snd (x_create X e g c i salt s)) (n + unat (cre_gas (fst (x_create X e g c i salt s))))"
    using assms(1-6) unfolding hosts_def by simp
  with assms(7) show ?thesis by simp
qed

subsection \<open>Calling out\<close>

text \<open>What a call leaves, from the gas that its parameters reserved.\<close>

lemma caseCall_host:
  assumes S: "sched_ok (sched X)" and h: "hosts X I" and I: "I (m_ext v) (io v)"
    and r: "ready (sched X) (args (call_info i)) v"
    and i: "plainCall X i v"
  shows "wp (caseCall X i v) (\<lambda>e v'. I (m_ext v') (io v')) (\<lambda>q. I (m_ext (vm_of q)) (io (vm_of q)))"
  unfolding caseCall_def wp_bindE
proof (rule wp_mono [OF wp_conj [OF caseCallSetup_ok [where k = 0] caseCallSetup_asked]], goal_cases)
  case (4 e w)
  then show ?case using hosts_mono [OF h I] by (auto simp: err_def)
next
  case (5 x)
  obtain go cp oo os w where x: "x = (go, cp, oo, os, w)" by (cases x)
  let ?v = "v\<lparr>m_returnData := []\<rparr>"
  have k: "keeps (sched X) ?v w" and p: "pot (sched X) w + unat (cp_gas cp) < pot (sched X) v"
    and m: "os \<noteq> 0 \<longrightarrow> oo + os \<le> length (m_mem w)" and w: "m_ext w = m_ext v"
    and a: "go \<Longrightarrow> asked X (m_ext v) cp"
    using 5 x by (simp_all add: pot_def)
  have lt: "io w + unat (cp_gas cp) < io v"
    using p k memCost_mono [of "length (m_mem v)" "length (m_mem w)" "sched X"]
    by (simp add: pot_def keeps_def)
  have add: "unat (m_io_gas w + ucast g) = io w + unat g" if "unat g \<le> unat (cp_gas cp)" for g :: u256
  proof -
    have "io w + unat g < 2 ^ 64" using that lt unat_u64_less [of "m_io_gas v"] by simp
    then show ?thesis by (subst unat_add_u64) (simp_all add: as_u64_id)
  qed
  obtain res s where call: "x_call X cp (m_ext v) = (res, s)" by fastforce
  have Icp: "I (m_ext v) (io w + unat (cp_gas cp))" using hosts_mono [OF h I] lt by simp
  have res: "unat (cr_gas res) \<le> unat (cp_gas cp)" if go
    using hosts_ext [OF h I] call a [OF that] unfolding ext_at_def word_le_nat_alt by (metis fst_conv)
  have Is: "I s (io w + unat (cr_gas res))" if go
    using hosts_call [OF h a [OF that] Icp call] .
  have "I s (io w)" if go using hosts_mono [OF h Is [OF that]] by simp
  then show ?case
    using Is Icp add res m
    by (cases go) (auto simp: x call w wp_simps Let_def addIOGas_def intro!: wp_memWrite)
qed (use assms in \<open>auto simp: ready_def\<close>)

lemma ext_createBaseGas: "wp (createBaseGas S i v) (keepsE (\<lambda>s. s = m_ext v)) (\<lambda>w. m_ext w = m_ext v)"
  by (simp add: createBaseGas_def Let_def wp_simps)

lemma caseCreate_host:
  assumes S: "sched_ok (sched X)" and h: "hosts X I" and I: "I (m_ext v) (io v)"
    and r: "ready (sched X) (args (call_info i)) v" and ns: "\<not> x_staticCall X"
  shows "wp (caseCreate X i v) (\<lambda>e v'. I (m_ext v') (io v')) (\<lambda>q. I (m_ext (vm_of q)) (io (vm_of q)))"
  unfolding caseCreate_def Let_def wp_bindE
proof (rule wp_mono [OF wp_conj [OF wp_createBaseGas [OF S, where Q = "\<lambda>w. \<exists>g. 0 < unat g \<and>
      (unat (SP v 2) < 2 ^ 63 \<longrightarrow> unat g \<le> 2 ^ 63) \<and> w = setRunGas g v"] ext_createBaseGas]], goal_cases)
  case (1 g)
  then show ?case by blast
next
  case (2 e w)
  then show ?case using hosts_mono [OF h I] by (auto simp: err_def)
next
  case (3 u)
  then obtain g0 where g0: "0 < unat g0" "unat (SP v 2) < 2 ^ 63 \<longrightarrow> unat g0 \<le> 2 ^ 63" "u = setRunGas g0 v" by blast
  show ?case
    unfolding g0(3)
  proof (rule wp_updateMemNeed, goal_cases)
    case (5 g s M)
    have "unat (m_io_gas v - g) + memCost (sched X) (length M) + unat g0 = io v + memCost (sched X) (length (m_mem v))"
      and le: "unat g \<le> io v" "length (m_mem v) \<le> length M"
      using 5 pay_memory [of g "unat g0" 0 "sched X" M "m_mem v" "m_io_gas v"] r
      by (simp_all add: ready_def)
    with memCost_mono [OF le(2), of "sched X"] g0(1) have w: "unat (m_io_gas v - g) + 1 \<le> io v" by linarith
    let ?io = "ucast (m_io_gas v - g) :: u256"
    let ?cg = "if staticCallDepthLimit (sched X) then ?io else ?io - ?io div 64"
    let ?r = "\<lambda>e c salt. x_create X e ?cg c i salt (m_ext v)"
    have new: "I (snd (?r e c salt)) (unat (ucast (?io - (?cg - cre_gas (fst (?r e c salt)))) :: u64))"
      if "e \<le> x_balance X (m_ext v) (x_myAddress X)" "x_depth X < 1024" "length c < 2 ^ 64" for e c salt
    proof -
      have q: "cre_gas (fst (?r e c salt)) \<le> ?cg" using hosts_ext [OF h I] ns that by (simp add: ext_at_def)
      note b = create_gas_back [OF refl q]
      have "I (m_ext v) ((unat (m_io_gas v - g) - unat ?cg) + unat ?cg + 1)"
        using hosts_mono [OF h I] b(2) w by simp
      from hosts_create [OF h ns that(2,3,1) this prod.collapse [symmetric]]
      have "I (snd (?r e c salt)) (unat (m_io_gas v - g) - unat ?cg + unat (cre_gas (fst (?r e c salt))))" .
      then show ?thesis by (rule hosts_mono [OF h]) (use b in linarith)
    qed
    have "I (m_ext v) (unat (m_io_gas v - g))" using hosts_mono [OF h I] w by simp
    moreover have "as_u64 (SP v 2) \<noteq> 0 \<Longrightarrow> as_u64 (SP v 1) + as_u64 (SP v 2) \<le> length M"
      using 5(1) by (rule in_memD)
    ultimately show ?case
      using le new unat_u64_less [of "ucast (SP v 2)"]
      by (auto simp: wp_simps Let_def case_prod_unfold intro!: wp_memRead)
  qed (use r g0 I in \<open>auto simp: ready_def\<close>)
qed

subsection \<open>Outputs\<close>

text \<open>
  Only \<open>REVERT\<close> throws an exception that carries an output, and only the halting instructions
  return one; both take it from memory by a 64-bit size.
\<close>

named_theorems calm_intros

definition calm :: "('s, 'a) vm_res \<Rightarrow> bool" where
  "calm r \<longleftrightarrow> (\<forall>bs v. r \<noteq> Inl (RevertInstruction bs, v))"

definition calmly :: "('s, 's outcome) vm_res \<Rightarrow> bool" where
  "calmly r \<longleftrightarrow> calm r \<and> (\<forall>out v. r \<noteq> Inr (Halted out v))"

lemma calm_basic [calm_intros]:
  "calm (Inr x)" "(\<And>bs. e \<noteq> RevertInstruction bs) \<Longrightarrow> calm (throw e v)" "calmly (NEXT v)" "calmly (Inr (Running v))"
  "(\<And>bs. e \<noteq> RevertInstruction bs) \<Longrightarrow> calmly (throw e v)"
  by (auto simp: calm_def calmly_def throw_def NEXT_def)

lemma calm_bind [calm_intros]:
  "calm m \<Longrightarrow> (\<And>x. calm (f x)) \<Longrightarrow> calm (bindE m f)"
  "calm m \<Longrightarrow> (\<And>x. calmly (h x)) \<Longrightarrow> calmly (bindE m h)"
  by (auto simp: calm_def calmly_def bindE_def split: sum.splits)

lemma calm_at [calm_intros]:
  "calm (at v (toInt63 n))" "calm (at v (memNeed a b))" "calm (at v (gasForMem S k))"
  "calm (at v (callMemNeed a b c d))" "calm (at v (verifyJumpDest ds x))"
  by (auto simp: calm_def at_def throw_def toInt63_def memNeed_def gasForMem_def callMemNeed_def
      verifyJumpDest_def Let_def bindE_def split: sum.splits if_splits)

lemma calm_helpers [calm_intros]:
  "calm (updateIOGas v)" "calm (updateMem S n v)" "calm (updateMemNeed S a b v)" "calm (memRead i m v)"
  "calm (memWrite i bs v)" "calm (logGasMem S k v)" "calm (haltOutput X v)" "calmly (simple k f v)"
  "calm (copyDataToMemory data a b c v)" "calmly (copyData X k src v)" "calm (createBaseGas S ci v)"
  by (auto simp: updateIOGas_def updateMem_def updateGas_def updateMemNeed_def memRead_def memWrite_def
      logGasMem_def haltOutput_def simple_def copyDataToMemory_def copyData_def createBaseGas_def Let_def
      intro!: calm_intros)

lemma calm_caseCallSetup: "calm (caseCallSetup X i v)"
  unfolding caseCallSetup_def callForward_def Let_def by (auto intro!: calm_intros)

lemma calmly_case_call: "calmly (case_call X i v)"
  unfolding case_call_def caseCall_def caseCreate_def Let_def
  by (auto intro!: calm_intros calm_caseCallSetup split: prod.split)

lemma interpretCase_calmly:
  assumes "\<And>i. m_OP v \<noteq> Halt i"
  shows "calmly (interpretCase X v)"
proof -
  note defs = interpretCase_def case_bin_def case_env_def case_query_def queryGas_def case_exp_def
    case_sha3_def case_copy_def case_mem_def memAccess_def case_jump_def case_jumpi_def case_push_def
    case_dup_def case_swap_def case_log_def case_sstore_def
  show ?thesis
    using assms calmly_case_call [of X _ v]
    by (cases "m_OP v")
      (auto simp: defs Let_def intro!: calm_intros split: mem_instr.split copy_instr.split prod.split)
qed

definition short :: "vm_error + bytes \<Rightarrow> bool" where
  "short r = (case r of Inl (RevertInstruction bs) \<Rightarrow> length bs < 2 ^ 64 | Inl _ \<Rightarrow> True | Inr out \<Rightarrow> length out < 2 ^ 64)"

abbreviation shortE :: "vm_error \<Rightarrow> 's VM \<Rightarrow> bool" where
  "shortE e v \<equiv> short (Inl e)"

abbreviation shortR :: "'s outcome \<Rightarrow> bool" where
  "shortR r \<equiv> \<forall>out v. r = Halted out v \<longrightarrow> short (Inr out)"

lemma calm_short: "calm m \<Longrightarrow> (\<And>x. m = Inr x \<Longrightarrow> Q x) \<Longrightarrow> wp m shortE Q"
  by (cases m) (auto simp: calm_def wp_def short_def split: vm_error.splits)

lemma haltOutput_short: "wp (haltOutput X v) shortE (\<lambda>(out, w). length out < 2 ^ 64)"
proof -
  have "length bs < 2 ^ 64" if "memRead off (as_u64 n) w = Inr bs" for bs off and n :: u256 and w :: "'a VM"
    using that unat_u64_less [of "ucast n"] by (auto simp: memRead_def throw_def split: if_splits)
  then show ?thesis
    unfolding haltOutput_def wp_bindE wp_Inr by (intro calm_short calm_helpers) auto
qed

lemma interpretCase_short: "wp (interpretCase X v) shortE shortR"
proof (cases "\<exists>i. m_OP v = Halt i")
  case False
  then have c: "calmly (interpretCase X v)" by (intro interpretCase_calmly) auto
  then have "calm (interpretCase X v)" by (simp add: calmly_def)
  then show ?thesis by (rule calm_short) (use c in \<open>auto simp: calmly_def\<close>)
next
  case True
  then obtain i where i: "m_OP v = Halt i" by blast
  show ?thesis
    by (cases i)
      (auto simp: interpretCase_def i case_halt_def case_suicide_def Let_def wp_simps short_def
        intro!: wp_mono [OF haltOutput_short])
qed

subsection \<open>Runs\<close>

lemma interpretCase_host:
  assumes S: "sched_ok (sched X)" and h: "hosts X I" and I: "I (m_ext v) (io v)" and f: "fetched X v"
  shows "wp (interpretCase X v) (\<lambda>e w. I (m_ext w) (io w)) (\<lambda>r. I (m_ext (vm_of r)) (io (vm_of r)))"
proof (cases "\<exists>i. m_OP v = Call i")
  case True
  then obtain i where i: "m_OP v = Call i" by blast
  have r: "ready (sched X) (args (call_info i)) v"
    using f i by (simp add: fetched_def Let_def instructionInfo_def)
  show ?thesis
    using caseCall_host [OF S h I r] caseCreate_host [OF S h I r] I
    by (auto simp: interpretCase_def i case_call_def Let_def wp_simps)
next
  case False
  let ?P = "\<lambda>s. I s (io v)"
  have "wp (interpretCase X v) (keepsE ?P) (keepsR ?P)"
    using False I hosts_changes [OF h] by (intro interpretCase_quiet) auto
  from wp_conj [OF this interpretCase_ok [OF S hosts_ext [OF h I] f]] show ?thesis
  proof (rule wp_mono, goal_cases)
    case (1 e w)
    then show ?case by (auto simp: err_def intro: hosts_mono [OF h])
  next
    case (2 r)
    then show ?case by (cases r) (auto simp: ok_defs intro: hosts_mono [OF h])
  qed
qed

lemma step_host:
  assumes S: "sched_ok (sched X)" and h: "hosts X I" and I: "I (m_ext v) (io v)" and inv: "vm_inv X v"
  shows "wp (step X v) (\<lambda>e w. err v e w \<and> I (m_ext w) (io w) \<and> short (Inl e))
    (\<lambda>r. after X v r \<and> I (m_ext (vm_of r)) (io (vm_of r)) \<and> shortR r)"
proof -
  have "wp (fetchInstruction X v) (keepsE (\<lambda>s. s = m_ext v)) (\<lambda>w. True)"
    by (simp add: fetchInstruction_def adjustStack_def Let_def wp_simps)
  moreover have "calm (fetchInstruction X v)"
    by (auto simp: fetchInstruction_def adjustStack_def throwBadStack_def Let_def intro!: calm_intros)
  ultimately have f: "wp (fetchInstruction X v) (\<lambda>e w. m_ext w = m_ext v \<and> m_io_gas w = m_io_gas v \<and> short (Inl e))
    (\<lambda>w. fetched X w \<and> m_ext w = m_ext v \<and> m_io_gas w = m_io_gas v)"
    using fetchInstruction_ok [OF inv] calm_short [of "fetchInstruction X v" "\<lambda>_. True"]
    by (auto simp: wp_def split: sum.splits)
  have "wp (step X v) (\<lambda>e w. I (m_ext w) (io w) \<and> short (Inl e))
      (\<lambda>r. I (m_ext (vm_of r)) (io (vm_of r)) \<and> shortR r)"
    unfolding step_def wp_bindE
    by (rule wp_mono [OF f]) (use I wp_conj [OF interpretCase_host [OF S h] interpretCase_short] in auto)
  from wp_conj [OF step_ok [OF S hosts_ext [OF h I] inv] this] show ?thesis .
qed

lemma interpretCases_host:
  assumes S: "sched_ok (sched X)" and h: "hosts X I"
    and "I (m_ext v) (io v)" "vm_inv X v" "pot (sched X) v < fuel"
  shows "\<exists>r. interpretCases X fuel v = Some r \<and>
    wp r (\<lambda>e w. err v e w \<and> I (m_ext w) (io w) \<and> short (Inl e))
      (\<lambda>(out, w). io w \<le> io v \<and> I (m_ext w) (io w) \<and> short (Inr out))"
  using assms(3-5)
proof (induction fuel arbitrary: v)
  case (Suc fuel)
  note st = step_host [OF S h Suc(2,3)]
  show ?case
  proof (cases "step X v")
    case (Inl ev)
    then show ?thesis using st by (cases ev) (simp add: wp_def)
  next
    case (Inr r)
    show ?thesis
    proof (cases r)
      case (Running v')
      have v': "I (m_ext v') (io v')" "vm_inv X v'" "pot (sched X) v' < fuel" "io v' \<le> io v"
        using st Inr Running Suc(4) by (simp_all add: wp_def after_def)
      from Suc.IH [OF v'(1-3)] obtain q where q: "interpretCases X fuel v' = Some q"
        "wp q (\<lambda>e w. err v' e w \<and> I (m_ext w) (io w) \<and> short (Inl e))
          (\<lambda>(out, w). io w \<le> io v' \<and> I (m_ext w) (io w) \<and> short (Inr out))" by blast
      from q(2) have "wp q (\<lambda>e w. err v e w \<and> I (m_ext w) (io w) \<and> short (Inl e))
          (\<lambda>(out, w). io w \<le> io v \<and> I (m_ext w) (io w) \<and> short (Inr out))"
        by (rule wp_mono) (use v'(4) in \<open>auto simp: err_def\<close>)
      then show ?thesis using Inr Running q(1) by simp
    next
      case (Halted out v')
      then show ?thesis using st Inr by (simp add: wp_def after_def)
    qed
  qed
qed simp

text \<open>A host that keeps its promises in every state keeps the trivial invariant.\<close>

lemma hosts_True: "ext_ok X \<Longrightarrow> hosts X (\<lambda>_ _. True)"
  by (simp add: hosts_def ext_ok_def)

lemma exec_host:
  assumes S: "sched_ok (sched X)" and h: "hosts X I" and I: "I s (as_u64 gas)" and f: "as_u64 gas < fuel"
  obtains r gas' s' where "exec X fuel gas s = Some (r, gas', s')" "r \<noteq> Inl UB" "unat gas' \<le> as_u64 gas"
    "I s' (unat gas')" "short r"
proof -
  let ?v = "initEntry X gas s"
  have io: "io ?v = as_u64 gas" "m_ext ?v = s" by (simp_all add: initEntry_def split: prod.split)
  from interpretCases_host [OF S h, of ?v fuel] I f obtain q where q: "interpretCases X fuel ?v = Some q"
    "wp q (\<lambda>e w. err ?v e w \<and> I (m_ext w) (io w) \<and> short (Inl e))
      (\<lambda>(out, w). io w \<le> io ?v \<and> I (m_ext w) (io w) \<and> short (Inr out))"
    using initEntry_inv [of X gas s] by (auto simp: io initEntry_pot)
  show ?thesis
    using that q by (cases q) (auto simp: exec_def wp_def err_def io split: prod.splits sum.splits)
qed

end
