(* ===== verification/LegacyVM_Mem.thy ===== *)
theory LegacyVM_Mem
  imports LegacyVM_Static
begin

text \<open>
  What the copying and word instructions leave in memory, and where the program counter
  goes: it only ever stands at the start of an instruction of the contract's code.
\<close>

subsection \<open>Writing memory\<close>

definition overwrite :: "nat \<Rightarrow> bytes \<Rightarrow> bytes \<Rightarrow> bytes" where
  "overwrite off bs M = take off M @ bs @ drop (off + length bs) M"

lemma overwrite_Nil [simp]: "overwrite off [] M = M"
  by (simp add: overwrite_def)

lemma overwrite_append:
  "off + length as \<le> length M \<Longrightarrow>
   overwrite (off + length as) bs (overwrite off as M) = overwrite off (as @ bs) M"
  by (simp add: overwrite_def ac_simps)

lemma length_overwrite: "off + length bs \<le> length M \<Longrightarrow> length (overwrite off bs M) = length M"
  by (simp add: overwrite_def)

lemma take_drop_overwrite:
  "off + length bs \<le> length M \<Longrightarrow> take (length bs) (drop off (overwrite off bs M)) = bs"
  by (simp add: overwrite_def)

lemma memWrite_overwrite:
  assumes "bs \<noteq> [] \<Longrightarrow> off + length bs \<le> length (m_mem v)"
  shows "memWrite off bs v = Inr (v\<lparr>m_mem := overwrite off bs (m_mem v)\<rparr>)"
  using assms by (cases v) (auto simp: memWrite_def overwrite_def)

text \<open>\<open>n\<close> bytes of \<open>data\<close> from index \<open>i\<close>, with zeros past its end.\<close>

definition padded :: "bytes \<Rightarrow> nat \<Rightarrow> nat \<Rightarrow> bytes" where
  "padded data i n = map (\<lambda>j. if j < length data then data ! j else 0) [i..<i + n]"

lemma padded_split: "padded data i n = take n (drop i data) @ replicate (n - (length data - i)) 0"
  by (rule nth_equalityI) (auto simp: padded_def nth_append)

lemma copyDataToMemory_padded:
  assumes mem: "in_mem sp0 sp2 (m_mem v)" and len: "length data < 2 ^ 64"
  shows "copyDataToMemory data sp0 big sp2 v =
    Inr (v\<lparr>m_mem := if sp2 = 0 then m_mem v
      else overwrite (unat sp0) (padded data (unat big) (unat sp2)) (m_mem v)\<rparr>)"
proof (cases "sp2 = 0")
  case True
  then show ?thesis by (cases v) (simp add: copyDataToMemory_def Let_def)
next
  case False
  then have bound: "unat sp0 + unat sp2 \<le> length (m_mem v)" "unat sp0 + unat sp2 < 2 ^ 63"
    using mem by (simp_all add: in_mem_def)
  then have u: "as_u64 sp0 = unat sp0" "as_u64 sp2 = unat sp2" by (simp_all add: as_u64_id)
  define n where "n = (if length data < unat big + unat sp2
    then if length data < unat big then 0 else length data - as_u64 big else unat sp2)"
  define a where "a = take n (drop (as_u64 big) data)"
  have idx: "as_u64 big = unat big" if "unat big \<le> length data"
    using that len by (simp add: as_u64_id)
  have n: "n = min (unat sp2) (length data - unat big)"
    using idx by (cases "unat big \<le> length data") (auto simp: n_def min_def)
  have a: "a = take (unat sp2) (drop (unat big) data)"
    using idx n by (cases "unat big \<le> length data") (auto simp: a_def min_def)
  then have la: "length a = n" using n by simp
  have az: "a @ replicate (unat sp2 - n) 0 = padded data (unat big) (unat sp2)"
    unfolding a padded_split using n by (simp add: min_def)
  have in_data: "\<not> length data < as_u64 big + n" if "0 < n"
    using that n idx by (cases "unat big \<le> length data") auto
  have first: "(if 0 < n then if length data < as_u64 big + n then throw UB v
      else memWrite (unat sp0) a v else Inr v) = Inr (v\<lparr>m_mem := overwrite (unat sp0) a (m_mem v)\<rparr>)"
    using n la in_data bound by (cases "0 < n") (auto simp: memWrite_overwrite)
  have second: "(if n < unat sp2 then memWrite (unat sp0 + n) (replicate (unat sp2 - n) 0) w else Inr w) =
      Inr (w\<lparr>m_mem := overwrite (unat sp0 + n) (replicate (unat sp2 - n) 0) (m_mem w)\<rparr>)"
    if "length (m_mem w) = length (m_mem v)" for w
    using n bound that by (auto simp: memWrite_overwrite)
  have "overwrite (unat sp0 + n) (replicate (unat sp2 - n) 0) (overwrite (unat sp0) a (m_mem v)) =
      overwrite (unat sp0) (padded data (unat big) (unat sp2)) (m_mem v)"
    using overwrite_append [of "unat sp0" a "m_mem v"] la n bound by (simp flip: az)
  then show ?thesis
    using False second [of "v\<lparr>m_mem := overwrite (unat sp0) a (m_mem v)\<rparr>"] la n bound
    unfolding copyDataToMemory_def Let_def u n_def [symmetric] a_def [symmetric] first bindE_Inr
    by (simp add: length_overwrite)
qed

subsection \<open>Words in memory\<close>

text \<open>Memory that has cost less than \<open>2^45\<close> is smaller than \<open>2^32\<close> bytes.\<close>

lemma memCost_small:
  assumes "quadCoeffDiv S = 512" "memCost S n < 2 ^ 45"
  shows "n < 2 ^ 32"
proof (rule ccontr)
  assume "\<not> n < 2 ^ 32"
  then have "4294967296 div 32 \<le> n div 32" by (intro div_le_mono) simp
  then have "(134217728 * 134217728 :: nat) \<le> n div 32 * (n div 32)" by (intro mult_le_mono) simp_all
  then have "(134217728 * 134217728 :: nat) div 512 \<le> n div 32 * (n div 32) div 512"
    by (rule div_le_mono)
  moreover have "n div 32 * (n div 32) div 512 \<le> memCost S n"
    using assms(1) by (simp add: memCost_def Let_def)
  ultimately show False using assms(2) by simp
qed

lemma as_unsigned_id: "unat x < 2 ^ 32 \<Longrightarrow> as_unsigned x = unat x"
  by (simp add: unsigned_ucast_eq take_bit_eq_mod)

text \<open>\<open>MSTORE\<close> in a machine whose gas and memory are worth less than \<open>2^45\<close>.\<close>

lemma case_mstore_spec:
  assumes r: "ready (sched X) 2 v" "rg v \<le> 2 ^ 32"
    and p: "pot (sched X) v < 2 ^ 45" "quadCoeffDiv (sched X) = 512"
  shows "wp (case_mem X MSTORE v) (\<lambda>e w. True) (\<lambda>out. \<exists>w. out = Running w \<and>
    m_mem w = overwrite (unat (SP v 0)) (h256_bytes (SP v 1))
      (grow (words (unat (SP v 0) + 32)) (m_mem v)))"
  unfolding case_mem_def wp_bindE
proof (rule wp_toInt63I, rule wp_updateMem, goal_cases)
  case (6 o1 g s M)
  have o1: "unat (o1 + 32) = unat (SP v 0) + 32"
    using 6(1,2) by (simp add: unat_word_ariths)
  then have M: "M = grow (words (unat (SP v 0) + 32)) (m_mem v)" using 6(3) by simp
  have len: "unat (SP v 0) + 32 \<le> length M"
    using words_ge [of "unat (SP v 0) + 32"] by (simp add: M)
  have "memCost (sched X) (length (m_mem v)) \<le> memCost (sched X) (length M)"
    by (intro memCost_mono) (simp add: M)
  then have "memCost (sched X) (length M) < 2 ^ 45"
    using 6(5,6) p(1) r(1) by (simp add: pot_def ready_def)
  then have "length M < 2 ^ 32" by (rule memCost_small [OF p(2)])
  then have "as_unsigned (SP v 0) = unat (SP v 0)" using len by (intro as_unsigned_id) simp
  then show ?case
    using len by (auto simp: wp_simps memAccess_def memWrite_overwrite h256_bytes_def M)
qed (use r in \<open>auto simp: ready_def unat_word_ariths\<close>)

subsection \<open>The gas of a call\<close>

lemma callGasLimit_limit:
  assumes "eip150Mode S"
  shows "unat (callGasLimit S r g) = min (unat r) (unat g - unat g div 64)"
proof -
  have "unat (g - g div 64) = unat g - unat g div 64"
    by (subst unat_sub) (simp_all add: word_le_nat_alt unat_div)
  then show ?thesis
    using assms by (simp add: callGasLimit_def staticCallDepthLimit_def min_def word_le_nat_alt)
qed

lemma callForward_total:
  assumes "unat (callGasLimit (sched X) (SP v 0) (m_io_gas v)) \<le> io v" "io v < 2 ^ 63"
  shows "\<exists>go cp oo os v'. callForward X i dest 0 0 0 0 v = Inr (go, cp, oo, os, v')"
proof -
  let ?g = "unat (callGasLimit (sched X) (SP v 0) (m_io_gas v))"
  have "unat (of_nat ?g :: u64) = ?g" using assms by (intro unat_of_nat_u64) simp
  then show ?thesis
    using assms
    by (auto simp: callForward_def Let_def at_def toInt63_def updateIOGas_def memRead_def
        word_less_nat_alt simp del: of_nat_unat)
qed

subsection \<open>The program counter\<close>

lemma decode_pushed: "decode b = PUSH n \<Longrightarrow> pushed b = n"
  unfolding decode_def Let_def decode_arith_def decode_logic_def decode_env_def decode_block_def
    decode_flow_def decode_eip615_def decode_simd_def decode_system_def
  by (auto simp: pushed_def word_le_nat_alt split: if_splits dest!: nth_op_in)

lemma decode_not_push: "\<nexists>n. decode b = PUSH n \<Longrightarrow> pushed b = 0"
  by (auto simp: decode_def Let_def pushed_def word_le_nat_alt split: if_splits)

lemma decode_invalid: "decode 0xfe = INVALID"
  by (simp add: decode_def decode_system_def nth_op_def Let_def)

lemma decode_jumpdest: "decode 0x5b = JUMPDEST"
  by (simp add: decode_def decode_flow_def nth_op_def Let_def)

lemma interpretCase_PUSH:
  "m_OP v = PUSH n \<Longrightarrow> interpretCase X v = Inr (Running v') \<Longrightarrow> m_PC v' = m_PC v + 1 + n"
  by (auto simp: interpretCase_def case_push_def NEXT_def updateIOGas_def throw_def bindE_def
      split: sum.splits if_splits)

lemma step_pc:
  assumes "sched_ok (sched X)" "ext_ok X" and inv: "vm_inv X v" and st: "step X v = Inr (Running v')"
  defines "op \<equiv> decode (m_code v ! m_PC v)"
  shows "m_code v' = m_code v" "m_jumpDests v' = m_jumpDests v"
    "op \<noteq> INVALID" "\<nexists>h. op = Halt h"
    "(\<exists>n. op = PUSH n \<and> m_PC v' = m_PC v + 1 + n) \<or>
     (\<nexists>n. op = PUSH n) \<and> (m_PC v' = m_PC v + 1 \<or> m_PC v' \<in> set (m_jumpDests v))"
proof -
  obtain w where w: "fetchInstruction X v = Inr w" "interpretCase X w = Inr (Running v')"
    using st by (auto simp: step_def res_simps)
  have f: "fetched X w" "m_OP w = op" "m_code w = m_code v" "m_jumpDests w = m_jumpDests v" "m_PC w = m_PC v"
    using fetchInstruction_ok [OF inv] w(1) by (simp_all add: wp_def op_def)
  have k: "keeps (sched X) w v'" "pc_step w v'"
    using interpretCase_ok [OF assms(1) _ f(1)] assms(2) w(2) by (simp_all add: ext_ok_def wp_def ok_def)
  show "m_code v' = m_code v" "m_jumpDests v' = m_jumpDests v"
    using k(1) f by (simp_all add: keeps_def)
  show "op \<noteq> INVALID" using w(2) f(2) by (auto simp: interpretCase_def throw_def)
  show "\<nexists>h. op = Halt h" using interpretCase_Halt w(2) f(2) by fastforce
  show "(\<exists>n. op = PUSH n \<and> m_PC v' = m_PC v + 1 + n) \<or>
     (\<nexists>n. op = PUSH n) \<and> (m_PC v' = m_PC v + 1 \<or> m_PC v' \<in> set (m_jumpDests v))"
    using k(2) f interpretCase_PUSH [OF _ w(2)] by (auto simp: pc_step_def)
qed

lemma reachable_code:
  assumes "sched_ok (sched X)" "ext_ok X" "reachable X gas s v"
  shows "(m_code v, m_jumpDests v) = optimize (x_code X) \<and> starts (x_code X) (m_PC v)"
  using assms(3)
proof induction
  case reach_init
  then show ?case by (simp add: initEntry_def start_0 split: prod.split)
next
  case (reach_step v v')
  let ?c = "x_code X" and ?pc = "m_PC v"
  have inv: "vm_inv X v" using reachable_inv [OF assms(1,2) reach_step(1)] by simp
  note pc = step_pc [OF assms(1,2) inv reach_step(2)]
  have opt: "optimize ?c = (m_code v, m_jumpDests v)" and start: "starts ?c ?pc"
    using reach_step(3) by simp_all
  have lt: "?pc < length ?c"
    using pc(4) inv decode_0 unfolding vm_inv_def by (metis not_le)
  have "m_code v ! ?pc = rewritten ?c ?pc" using optimize_correct(2) [OF opt lt] .
  then have op: "m_code v ! ?pc = ?c ! ?pc"
    using pc(3) decode_invalid by (auto simp: rewritten_def split: if_splits)
  have nxt: "starts ?c (?pc + 1 + pushed (?c ! ?pc))" by (rule start_next [OF start lt])
  have "starts ?c (m_PC v')"
    using pc(5) nxt decode_pushed decode_not_push [of "?c ! ?pc"] optimize_correct(5) [OF opt]
    by (auto simp: op dests_below_def)
  then show ?case using pc(1,2) opt by simp
qed

end
