(* ===== verification/LegacyVM_Arith.thy ===== *)
theory LegacyVM_Arith
  imports LegacyVM_Cases
begin

text \<open>
  The 256-bit arithmetic of the interpreter against the library's word operations:
  exponentiation by squaring, signed division, arithmetic shift and sign extension.
\<close>

subsection \<open>Exponentiation\<close>

lemma and_1_iff: "and (e :: u256) 1 = 1 \<longleftrightarrow> odd (unat e)"
  by (simp add: and_one_eq mod_2_eq_odd bit_unsigned_iff flip: bit_0)

lemma exp256_loop_power: "exp256_loop r b e = r * b ^ unat e"
proof (induction r b e rule: exp256_loop.induct)
  case (1 r b e)
  show ?case
  proof (cases "e = 0")
    case True
    then show ?thesis by (subst exp256_loop.simps) simp
  next
    case False
    have half: "unat (drop_bit 1 e) = unat e div 2"
      by (simp only: unat_drop_bit_eq) (simp add: drop_bit_Suc)
    have "b ^ unat e = b ^ (unat e mod 2 + 2 * (unat e div 2))" by simp
    also have "\<dots> = (if odd (unat e) then b else 1) * (b * b) ^ (unat e div 2)"
      by (simp only: power_add power_mult) (simp add: power2_eq_square mod_2_eq_odd)
    finally have "b ^ unat e = (if odd (unat e) then b else 1) * (b * b) ^ (unat e div 2)" .
    then show ?thesis
      using 1 [OF False] False half
      by (subst exp256_loop.simps) (simp add: and_1_iff mult.assoc)
  qed
qed

lemma exp256_power: "exp256 b e = b ^ unat e"
  by (simp add: exp256_def exp256_loop_power)

subsection \<open>Signed values\<close>

lemma u2s_sint: "u2s u = sint u"
proof -
  have "take_bit 256 (uint u) = uint u"
    using uint_bounded [of u] by (intro take_bit_int_eq_self) simp_all
  then show ?thesis
    by (simp add: u2s_def sint_uint signed_take_bit_eq_take_bit_minus bit_uint_iff)
qed

lemma s2u_of_int: "s2u i = of_int i"
  by (simp add: s2u_def)

lemma hibit_iff: "and (x :: u256) (push_bit 255 1) \<noteq> 0 \<longleftrightarrow> bit x 255"
  by (rule bit_iff_and_push_bit_not_eq_0 [symmetric])

lemma allbits: "(0xffffffffffffffffffffffffffffffffffffffffffffffffffffffffffffffff :: u256) = - 1"
  by simp

lemma sar_signed_drop_bit: "sar k x = signed_drop_bit (unat k) x"
proof (cases "k \<ge> 256")
  case True
  then have "256 \<le> unat k" by (simp add: word_le_nat_alt)
  then have "signed_drop_bit (unat k) x = (if bit x 255 then - 1 else 0)"
    by (simp add: signed_drop_bit_beyond)
  with True show ?thesis
    unfolding sar_def Let_def hibit_iff allbits by simp
next
  case False
  then have k: "unat k < 256" by (simp add: word_le_nat_alt not_le)
  show ?thesis
  proof (rule bit_word_eqI)
    fix n assume n: "n < LENGTH(256)"
    have "bit (sar k x) n \<longleftrightarrow> bit x (unat k + n) \<or> bit x 255 \<and> 256 - unat k \<le> n"
      using False n unfolding sar_def Let_def hibit_iff allbits
      by (auto simp: bit_simps)
    moreover have "bit x (unat k + n) \<Longrightarrow> unat k + n < 256"
      using bit_imp_le_length [of x] by fastforce
    ultimately show "bit (sar k x) n = bit (signed_drop_bit (unat k) x) n"
      using n k by (auto simp: bit_signed_drop_bit_iff)
  qed
qed

lemma signextend_signed_take_bit: "signextend k x = signed_take_bit (8 * unat k + 7) x"
proof (cases "k < 31")
  case True
  let ?t = "8 * unat k + 7"
  have "push_bit ?t 1 - 1 = (mask ?t :: u256)" by (simp add: mask_eq_exp_minus_1 push_bit_eq_mult)
  with True show ?thesis
    by (auto simp: signextend_def Let_def mult.commute signed_take_bit_def take_bit_eq_mask
        intro!: bit_word_eqI simp: bit_simps)
next
  case False
  then have "255 \<le> 8 * unat k + 7" by (simp add: word_less_nat_alt)
  with False show ?thesis
    by (auto simp: signextend_def intro!: bit_word_eqI simp: bit_simps)
qed

text \<open>
  The reference meaning of the two-argument arithmetic, comparison and bit instructions;
  division and remainder by zero give zero.
\<close>

definition spec_bin :: "bin_instr \<Rightarrow> u256 \<Rightarrow> u256 \<Rightarrow> u256" where
  "spec_bin i a b = (case i of
     ADD \<Rightarrow> a + b | MUL \<Rightarrow> a * b | SUB \<Rightarrow> a - b
   | DIV \<Rightarrow> a div b | MOD \<Rightarrow> (if b = 0 then 0 else a mod b)
   | SDIV \<Rightarrow> of_int (sint a sdiv sint b) | SMOD \<Rightarrow> (if b = 0 then 0 else of_int (sint a smod sint b))
   | SIGNEXTEND \<Rightarrow> signed_take_bit (8 * unat a + 7) b
   | LT \<Rightarrow> of_bool (a < b) | GT \<Rightarrow> of_bool (b < a)
   | SLT \<Rightarrow> of_bool (sint a < sint b) | SGT \<Rightarrow> of_bool (sint b < sint a) | EQ \<Rightarrow> of_bool (a = b)
   | AND \<Rightarrow> and a b | OR \<Rightarrow> or a b | XOR \<Rightarrow> xor a b
   | BYTE \<Rightarrow> (if unat a < 32 then take_bit 8 (drop_bit (8 * (31 - unat a)) b) else 0)
   | SHL \<Rightarrow> push_bit (unat a) b | SHR \<Rightarrow> drop_bit (unat a) b
   | SAR \<Rightarrow> signed_drop_bit (unat a) b)"

lemma sdiv_nonneg: "0 \<le> x \<Longrightarrow> 0 \<le> y \<Longrightarrow> x sdiv y = x div (y :: int)"
  by (auto simp: signed_divide_int_def sgn_if)

lemma smod_nonneg: "0 \<le> x \<Longrightarrow> 0 \<le> y \<Longrightarrow> x smod y = x mod (y :: int)"
  by (auto simp: signed_modulo_int_def sgn_if)

lemma evalBin_spec: "evalBin i a b = spec_bin i a b"
proof (cases i)
  case BYTE
  have "unat (ucast (8 * (31 - a)) :: u32) = 8 * (31 - unat a)" if "a < 32"
  proof -
    define w where "w = 31 - a"
    have w: "unat w = 31 - unat a"
      using that by (simp add: w_def unat_sub word_le_nat_alt word_less_nat_alt)
    then have "unat (8 * w) = 8 * unat w"
      by (subst unat_mult_lem [THEN iffD1]) simp_all
    then have "unat (ucast (8 * w) :: u32) = 8 * unat w"
      using w by (simp add: unsigned_ucast_eq take_bit_eq_mod)
    with w show ?thesis by (simp add: w_def)
  qed
  moreover have "and x 0xff = take_bit 8 (x :: u256)" for x by (simp add: take_bit_eq_mask mask_eq_exp_minus_1)
  ultimately show ?thesis
    using BYTE by (simp add: evalBin_def evalBits_def spec_bin_def word_less_nat_alt)
next
  case SHL
  have "unat (ucast a :: u32) = unat a" if "\<not> a \<ge> 256"
    using that by (simp add: unsigned_ucast_eq take_bit_eq_mod word_le_nat_alt)
  moreover have "push_bit (unat a) b = 0" if "a \<ge> 256"
    using that by (intro bit_word_eqI) (auto simp: bit_simps word_le_nat_alt)
  ultimately show ?thesis
    using SHL by (simp add: evalBin_def evalBits_def spec_bin_def)
next
  case SHR
  have "unat (ucast a :: u32) = unat a" if "\<not> a \<ge> 256"
    using that by (simp add: unsigned_ucast_eq take_bit_eq_mod word_le_nat_alt)
  moreover have "drop_bit (unat a) b = 0" if "a \<ge> 256"
    using that by (intro bit_word_eqI) (auto simp: bit_simps word_le_nat_alt dest: bit_imp_le_length)
  ultimately show ?thesis
    using SHR by (simp add: evalBin_def evalBits_def spec_bin_def)
qed (simp_all add: evalBin_def evalArith_def evalCompare_def evalBits_def spec_bin_def
    divWorkaround_def modWorkaround_def u2s_sint s2u_of_int sar_signed_drop_bit
    signextend_signed_take_bit word_div_def word_mod_def sdiv_nonneg smod_nonneg)

end
