(* ===== verification/LegacyVM_Props.thy ===== *)
theory LegacyVM_Props
  imports LegacyVM_Frame LegacyVM_Mem LegacyVM_Arith
begin

text \<open>
  The properties of the interpreter, each with an application to a concrete machine
  \<open>demo\<close>: the contract \<open>demo_code\<close> run under the Istanbul schedule over one storage slot,
  where nested calls do nothing and return their gas.
\<close>

subsection \<open>A concrete machine\<close>

definition demo_code :: bytes where
  "demo_code = [0x30, 0x3d, 0x52, 0x5b, 0x00]"

definition demo :: "bool \<Rightarrow> u256 ExtVMFace" where
  "demo static = \<lparr>x_myAddress = 1, x_caller = 2, x_origin = 2, x_value = 0, x_gasPrice = 1,
     x_data = [1, 2], x_code = demo_code, x_depth = 0, x_staticCall = static, x_number = 1,
     x_author = 3, x_timestamp = 5, x_difficulty = 1, x_gasLimit = 1000000, x_chainID = 1,
     x_evmSchedule = IstanbulSchedule, x_pastTier = 10, x_sha3 = (\<lambda>bs. of_nat (length bs)),
     x_store = (\<lambda>s k. s), x_setStore = (\<lambda>k x s. (True, x)), x_originalStorageValue = (\<lambda>s k. 0),
     x_balance = (\<lambda>s a. 0), x_codeAt = (\<lambda>s a. []), x_codeSizeAt = (\<lambda>s a. 0),
     x_codeHashAt = (\<lambda>s a. 0), x_exists = (\<lambda>s a. True), x_suicide = (\<lambda>a s. s),
     x_create = (\<lambda>e g c i salt s. (\<lparr>cre_output = [], cre_address = 0, cre_gas = g\<rparr>, s)),
     x_call = (\<lambda>cp s. (\<lparr>cr_status = True, cr_output = [], cr_gas = cp_gas cp\<rparr>, s)),
     x_log = (\<lambda>t d s. s), x_blockHash = (\<lambda>s n. 0), x_refund = (\<lambda>d s. s)\<rparr>"

lemma demo_ok: "sched_ok (sched (demo b))" "ext_ok (demo b)" "quadCoeffDiv (sched (demo b)) = 512"
  by (simp_all add: demo_def sched_ok_def schedule_defs ext_ok_def ext_at_def demo_code_def upt_rec word_less_nat_alt)

lemma demo_sel [simp]: "x_staticCall (demo b) = b" "x_code (demo b) = demo_code"
  by (simp_all add: demo_def)

text \<open>\<open>n\<close> instructions, when none of them halts.\<close>

primrec run_n :: "'s ExtVMFace \<Rightarrow> nat \<Rightarrow> 's VM \<Rightarrow> 's VM option" where
  "run_n X 0 v = Some v"
| "run_n X (Suc n) v = (case step X v of Inr (Running v') \<Rightarrow> run_n X n v' | _ \<Rightarrow> None)"

lemma run_n_reachable: "reachable X gas s v \<Longrightarrow> run_n X n v = Some v' \<Longrightarrow> reachable X gas s v'"
  by (induction n arbitrary: v) (auto split: sum.splits outcome.splits intro: reach_step)

text \<open>The machine of the example, before its \<open>MSTORE\<close>.\<close>

definition demo_state :: "u256 VM" where
  "demo_state = \<lparr>m_io_gas = 96, m_mem = [], m_code = demo_code @ replicate 33 0,
     m_returnData = [], m_stack = [0, 1], m_jumpDests = [3], m_OP = Env RETURNDATASIZE, m_PC = 2,
     m_runGas = 2, m_newMemSize = 0, m_copyMemSize = 0, m_ext = 9\<rparr>"

lemma demo_run: "run_n (demo False) 2 (initEntry (demo False) 100 9) = Some demo_state"
  by code_simp

lemma demo_step: "\<exists>out. step (demo False) demo_state = Inr out"
  by (simp add: demo_state_def demo_def schedule_defs demo_code_def step_def fetchInstruction_def
      adjustStack_def interpretCase_def instructionInfo_def decode_def decode_flow_def nth_op_def
      Let_def mem_info_def tierGas_def tier_index_def updateIOGas_def NEXT_def dropSP_def
      case_mem_def memAccess_def updateMem_def updateGas_def gasForMem_def toInt63_def at_def
      addRunGas_def resizeMem_def memWrite_def h256_bytes_def)

subsection \<open>Execution\<close>







text \<open>C5: A jump is accepted exactly when its destination is a JUMPDEST byte at which an
  instruction of the code starts (and fits 63 bits): the table that \<open>optimize\<close> builds in one
  pass and the binary search of \<open>verifyJumpDest\<close> decide this.\<close>

theorem evm_jump_table:
  "verifyJumpDest (snd (optimize code)) d = Inr pc \<longleftrightarrow>
    pc = unat d \<and> pc < 2 ^ 63 \<and> starts code pc \<and> pc < length code \<and> code ! pc = 0x5b"
proof -
  obtain c dests where o: "optimize code = (c, dests)" by fastforce
  show ?thesis
    using verifyJumpDest_iff [OF optimize_correct(4) [OF o], of d pc] optimize_correct(5) [OF o]
    by (auto simp: o dests_below_def)
qed

text \<open>C4: In a static call the interpreter changes the state behind \<open>ExtVMFace\<close> only through
  nested calls, which are static as well: anything that static nested calls leave alone,
  the whole execution leaves alone, whether it returns or throws.\<close>

theorem evm_static_safe:
  assumes "x_staticCall X" "\<And>cp t. cp_staticCall cp \<Longrightarrow> view (snd (x_call X cp t)) = view t"
    and "exec X fuel gas s = Some (r, gas', s')"
  shows "view s' = view s"
proof -
  let ?v = "initEntry X gas s"
  obtain q where q: "interpretCases X fuel ?v = Some q"
    using assms(3) by (cases "interpretCases X fuel ?v") (simp_all add: exec_def)
  have "view (m_ext ?v) = view s" by (simp add: initEntry_def split: prod.split)
  then have "wp q (\<lambda>e v. view (m_ext v) = view s) (\<lambda>(out, v). view (m_ext v) = view s)"
    using interpretCases_static [OF assms(1), of "\<lambda>t. view t = view s"] assms(2) q by auto
  then show ?thesis
    using assms(3) q by (cases q) (auto simp: exec_def wp_def)
qed

theorem evm_static_safe_witness:
  "\<exists>r gas' s'. exec (demo True) 101 100 9 = Some (r, gas', s') \<and> s' = 9"
proof -
  obtain r gas' s' where e: "exec (demo True) 101 100 9 = Some (r, gas', s')"
    by (rule exec_host [where s = 9 and gas = 100 and fuel = 101,
        OF demo_ok(1) [of True] hosts_True [OF demo_ok(2)]]) (auto intro: that)
  have "s' = 9" by (rule evm_static_safe [where view = "\<lambda>t. t", OF _ _ e]) (simp_all add: demo_def)
  with e show ?thesis by blast
qed

subsection \<open>Instructions\<close>

text \<open>C6: Each two-argument instruction computes the operation its name says on 256-bit words:
  wrapping sums and products, truncating signed division, zero for division by zero,
  arithmetic shift and sign extension, whatever the size of the first argument.\<close>

theorem evm_arith: "evalBin i a b = spec_bin i a b"
  by (rule evalBin_spec)

text \<open>C7: \<open>EXP\<close> is exponentiation modulo \<open>2^256\<close> (squaring and multiplying), and its price is
  \<open>expGas\<close> plus \<open>expByteGas\<close> for each byte the exponent needs, without wrapping.\<close>

theorem evm_exp:
  assumes "sched_ok (sched X)" "ready (sched X) 2 v"
    "io v \<ge> unat (expGas (sched X)) + unat (expByteGas (sched X)) * bytesRequired (unat (SP v 1))"
  shows "\<exists>v'. case_exp X v = Inr (Running v') \<and> m_stack v' = SP v 0 ^ unat (SP v 1) # drop 2 (m_stack v) \<and>
    io v' = io v - (unat (expGas (sched X)) + unat (expByteGas (sched X)) * bytesRequired (unat (SP v 1)))"
proof -
  let ?g = "expGas (sched X) + expByteGas (sched X) * (32 - of_nat (firstBitSet (h256_bytes (SP v 1)) div 8))"
  have g: "unat ?g \<le> io v" and eq: "unat ?g = unat (expGas (sched X)) + unat (expByteGas (sched X)) * bytesRequired (unat (SP v 1))"
    using assms(3) exp_gas [OF assms(1)] by simp_all
  have "toInt63 (unat ?g) = Inr (of_nat (unat ?g))" using unat_u32_less [of ?g] by (simp add: toInt63_def)
  moreover have "unat (of_nat (unat ?g) :: u64) = unat ?g"
    using unat_u32_less [of ?g] by (intro unat_of_nat_u64) simp
  ultimately show ?thesis
    using g unfolding eq [symmetric]
    by (simp add: case_exp_def Let_def at_def simple_def updateIOGas_def NEXT_def exp256_power
        word_less_nat_alt unat_le_minus del: of_nat_unat)
qed

theorem evm_exp_witness:
  "\<exists>v'. case_exp (demo False) ((initEntry (demo False) 100 9)\<lparr>m_stack := [3, 5]\<rparr>) = Inr (Running v') \<and>
    m_stack v' = [243] \<and> io v' = 40"
proof -
  let ?v = "(initEntry (demo False) 100 9)\<lparr>m_stack := [3, 5]\<rparr>"
  have "io ?v = 100" "mem_ok (sched (demo False)) (m_mem ?v)" "m_copyMemSize ?v = 0" "m_returnData ?v = []"
    by (simp_all add: initEntry_def mem_ok_def split: prod.split)
  moreover have "expGas (sched (demo False)) = 10" "expByteGas (sched (demo False)) = 50"
    by (simp_all add: demo_def schedule_defs)
  moreover have "bytesRequired 5 = 1" by (simp add: bytesRequired.simps)
  ultimately show ?thesis
    using evm_exp [OF demo_ok(1) [of False], of ?v] by (simp add: ready_def)
qed

text \<open>C8: The four copying instructions fill the destination with the requested bytes of the
  source and with zeros past its end, and leave the rest of the memory alone, also for
  indices and sizes beyond 64 bits.\<close>

theorem evm_copy:
  assumes "in_mem sp0 sp2 (m_mem v)" "length data < 2 ^ 64"
  shows "copyDataToMemory data sp0 big sp2 v =
    Inr (v\<lparr>m_mem := if sp2 = 0 then m_mem v
      else overwrite (unat sp0) (padded data (unat big) (unat sp2)) (m_mem v)\<rparr>)"
  by (rule copyDataToMemory_padded [OF assms])

theorem evm_copy_witness:
  "copyDataToMemory [7, 8] 0 1 3 ((initEntry (demo False) 100 9)\<lparr>m_mem := replicate 32 5\<rparr>) =
    Inr ((initEntry (demo False) 100 9)\<lparr>m_mem := [8, 0, 0] @ replicate 29 5\<rparr>)"
proof -
  have "overwrite 0 (padded [7, 8] 1 3) (replicate 32 5) = [8, 0, 0] @ replicate 29 5"
    by (simp add: overwrite_def padded_def upt_rec)
  then show ?thesis
    using evm_copy [of 0 3 "(initEntry (demo False) 100 9)\<lparr>m_mem := replicate 32 5\<rparr>" "[7, 8]" 1]
    by (simp add: in_mem_def)
qed

text \<open>C9: While less than \<open>2^45\<close> gas is available, a successful \<open>MSTORE\<close> writes the 32
  big-endian bytes of its argument at exactly the requested offset, although the code casts
  the offset to 32 bits: a larger offset cannot be paid for.\<close>

theorem evm_mstore:
  assumes "sched_ok (sched X)" "ext_ok X" "quadCoeffDiv (sched X) = 512"
    and "reachable X gas s v" "as_u64 gas < 2 ^ 45"
    and "decode (m_code v ! m_PC v) = Mem MSTORE" "step X v = Inr out"
  shows "\<exists>v'. out = Running v' \<and> m_mem v' = overwrite (unat (SP v 0)) (h256_bytes (SP v 1))
    (grow (words (unat (SP v 0) + 32)) (m_mem v))"
proof -
  have inv: "vm_inv X v" and p: "pot (sched X) v < 2 ^ 45"
    using reachable_inv [OF assms(1,2,4)] assms(5) by simp_all
  obtain w where w: "fetchInstruction X v = Inr w" "interpretCase X w = Inr out"
    using assms(7) by (auto simp: step_def res_simps)
  have f: "fetched X w" "m_OP w = Mem MSTORE" "m_stack w = m_stack v" "m_mem w = m_mem v" "m_io_gas w = m_io_gas v"
    using fetchInstruction_ok [OF inv] w(1) assms(6) by (simp_all add: wp_def)
  then have "ready (sched X) 2 w" "rg w \<le> 2 ^ 32"
    using tierGas_bound [of X VeryLow] by (simp_all add: fetched_def Let_def instructionInfo_def mem_info_def)
  then have "wp (case_mem X MSTORE w) (\<lambda>e w. True) (\<lambda>out. \<exists>w'. out = Running w' \<and>
    m_mem w' = overwrite (unat (SP w 0)) (h256_bytes (SP w 1)) (grow (words (unat (SP w 0) + 32)) (m_mem w)))"
    using p f assms(3) by (intro case_mstore_spec) (simp_all add: pot_def)
  then show ?thesis
    using w(2) f by (simp add: interpretCase_def wp_def)
qed

theorem evm_mstore_witness:
  "\<exists>v'. step (demo False) demo_state = Inr (Running v') \<and>
    m_mem v' = overwrite 0 (h256_bytes 1) (grow (words 32) [])"
proof -
  obtain out where out: "step (demo False) demo_state = Inr out" using demo_step by blast
  have r: "reachable (demo False) 100 9 demo_state" by (rule run_n_reachable [OF reach_init demo_run])
  have "decode (m_code demo_state ! m_PC demo_state) = Mem MSTORE"
    by (simp add: demo_state_def demo_code_def decode_def decode_flow_def nth_op_def Let_def)
  then show ?thesis
    using evm_mstore [OF demo_ok r _ _ out] out by (auto simp: demo_state_def)
qed


text \<open>C12: For a byte that is no opcode, \<open>fetchInstruction\<close> reads the price table behind its
  eight elements (tier \<open>Invalid\<close> is number 8); the word found there is never used, the
  instruction ends in \<open>BadInstruction\<close> with all the gas.\<close>

theorem evm_undefined_opcode:
  assumes "length (tierStepGas (sched X)) = 8" "m_PC v < length (m_code v)"
    "decode (m_code v ! m_PC v) = Undefined" "length (m_stack v) \<le> 1024"
  shows "tierGas X (gasPriceTier (instructionInfo Undefined)) = x_pastTier X \<and>
    (\<exists>v'. step X v = Inl (BadInstruction, v') \<and> m_io_gas v' = m_io_gas v \<and> m_ext v' = m_ext v)"
  using assms
  by (simp add: tierGas_def instructionInfo_def tier_index_def step_def fetchInstruction_def Let_def
      adjustStack_def interpretCase_def throw_def)

theorem evm_undefined_opcode_witness:
  "tierGas (demo False) (gasPriceTier (instructionInfo Undefined)) = 10 \<and>
    (\<exists>v'. step (demo False) ((initEntry (demo False) 100 9)\<lparr>m_code := [0x0c]\<rparr>) = Inl (BadInstruction, v')
      \<and> m_io_gas v' = 100 \<and> m_ext v' = 9)"
proof -
  let ?v = "(initEntry (demo False) 100 9)\<lparr>m_code := [0x0c]\<rparr>"
  have "m_PC ?v = 0" "m_stack ?v = []" "m_io_gas ?v = 100" "m_ext ?v = 9"
    by (simp_all add: initEntry_def split: prod.split)
  moreover have "decode 0x0c = Undefined" by (simp add: decode_def decode_arith_def nth_op_def Let_def)
  moreover have "length (tierStepGas (sched (demo False))) = 8" "x_pastTier (demo False) = 10"
    by (simp_all add: demo_def schedule_defs)
  ultimately show ?thesis
    using evm_undefined_opcode [of "demo False" ?v] by simp
qed

text \<open>C10: After EIP-150 a call leaves the caller at least one 64th of its gas, and the callee
  gets the requested gas or all but one 64th, plus the stipend when value is transferred.\<close>

theorem evm_call_gas:
  assumes "eip150Mode (sched X)" "callForward X i dest a b c d v = Inr (go, cp, oo, os, v')"
  shows "io v div 64 \<le> io v' \<and>
    unat (cp_gas cp) = min (unat (SP v 0)) (io v - io v div 64)
      + (if transfers i v then unat (callStipend (sched X)) else 0)"
proof -
  let ?g = "callGasLimit (sched X) (SP v 0) (m_io_gas v)"
  have g: "unat ?g = min (unat (SP v 0)) (io v - io v div 64)"
    using assms(1) by (simp add: callGasLimit_limit)
  have "wp (callForward X i dest a b c d v) (\<lambda>e w. True) (\<lambda>(go, cp, oo, os, v'). io v div 64 \<le> io v' \<and>
    unat (cp_gas cp) = unat ?g + (if transfers i v then unat (callStipend (sched X)) else 0))"
    unfolding callForward_def Let_def
  proof (rule wp_price, unfold wp_bindE wp_updateIOGas, goal_cases)
    case (1 w)
    have "unat (m_io_gas v - w) = io v - unat w" if "unat w \<le> io v"
      using that by (intro unat_le_minus) simp
    moreover have "unat w \<le> io v - io v div 64" using 1(2) g by simp
    then have "unat w + io v div 64 \<le> io v" by linarith
    moreover have "unat ?g < 2 ^ 63" using 1 by simp
    note forwarded_gas [OF this, of "transfers i v" "sched X"]
    ultimately show ?case
      by (auto simp: wp_simps memRead_def CallParameters_new_def)
  qed simp
  then show ?thesis using assms(2) g by (simp add: wp_def)
qed

theorem evm_call_gas_witness:
  "\<exists>go cp oo os v'. callForward (demo False) CALL 5 0 0 0 0
      ((initEntry (demo False) 6400 9)\<lparr>m_stack := [7000, 5, 0, 0, 0, 0, 0]\<rparr>) = Inr (go, cp, oo, os, v') \<and>
    100 \<le> io v' \<and> unat (cp_gas cp) = 6300"
proof -
  let ?v = "(initEntry (demo False) 6400 9)\<lparr>m_stack := [7000, 5, 0, 0, 0, 0, 0]\<rparr>"
  have io: "m_io_gas ?v = 6400" "m_stack ?v = [7000, 5, 0, 0, 0, 0, 0]"
    by (simp_all add: initEntry_def split: prod.split)
  have mode: "eip150Mode (sched (demo False))" by (simp add: demo_def schedule_defs)
  have "unat (callGasLimit (sched (demo False)) 7000 6400) = 6300"
    using mode by (simp add: callGasLimit_limit)
  then obtain go cp oo os v' where f: "callForward (demo False) CALL 5 0 0 0 0 ?v = Inr (go, cp, oo, os, v')"
    using callForward_total [of "demo False" ?v CALL 5] io by auto
  from evm_call_gas [OF mode f] f io show ?thesis by auto
qed

end
