(* ===== verification/Effects.thy ===== *)
theory Effects
  imports Prelude
begin

text \<open>
  Member functions that change an object and may throw half-way: a computation maps the
  object to its result or exception together with the object at that moment, since a
  \<open>catch\<close> further up sees the changes made before the \<open>throw\<close>.  \<open>wpS m E Q s\<close> says that \<open>m\<close>,
  run in \<open>s\<close>, establishes \<open>Q\<close> of its result and final state, or \<open>E\<close> of its exception and
  the state at the \<open>throw\<close>; the rules in \<open>effS\<close> compute it along the code.
\<close>

named_theorems effS

type_synonym ('s, 'e, 'a) eff = "'s \<Rightarrow> ('e + 'a) \<times> 's"

definition retS :: "'a \<Rightarrow> ('s, 'e, 'a) eff" where
  "retS x s = (Inr x, s)"

definition throwS :: "'e \<Rightarrow> ('s, 'e, 'a) eff" where
  "throwS e s = (Inl e, s)"

definition bindS :: "('s, 'e, 'a) eff \<Rightarrow> ('a \<Rightarrow> ('s, 'e, 'b) eff) \<Rightarrow> ('s, 'e, 'b) eff" where
  "bindS m f s = (case m s of (Inl e, s') \<Rightarrow> (Inl e, s') | (Inr x, s') \<Rightarrow> f x s')"

definition getS :: "('s, 'e, 's) eff" where
  "getS s = (Inr s, s)"

definition modS :: "('s \<Rightarrow> 's) \<Rightarrow> ('s, 'e, unit) eff" where
  "modS f s = (Inr (), f s)"

text \<open>A call that reads the object or nothing and may throw.\<close>

definition liftS :: "'e + 'a \<Rightarrow> ('s, 'e, 'a) eff" where
  "liftS r s = (r, s)"

definition assertS :: "'e \<Rightarrow> bool \<Rightarrow> ('s, 'e, unit) eff" where
  "assertS e b = (if b then retS () else throwS e)"

text \<open>A range-\<open>for\<close> loop.\<close>

fun forS :: "'a list \<Rightarrow> ('a \<Rightarrow> ('s, 'e, unit) eff) \<Rightarrow> ('s, 'e, unit) eff" where
  "forS [] f = retS ()"
| "forS (x # xs) f = bindS (f x) (\<lambda>_. forS xs f)"

definition wpS :: "('s, 'e, 'a) eff \<Rightarrow> ('e \<Rightarrow> 's \<Rightarrow> bool) \<Rightarrow> ('a \<Rightarrow> 's \<Rightarrow> bool) \<Rightarrow> 's \<Rightarrow> bool" where
  "wpS m E Q s = (case m s of (Inl e, s') \<Rightarrow> E e s' | (Inr x, s') \<Rightarrow> Q x s')"

lemma wpS_ret [effS]: "wpS (retS x) E Q = Q x"
  by (simp add: wpS_def retS_def fun_eq_iff)

lemma wpS_throw [effS]: "wpS (throwS e) E Q = E e"
  by (simp add: wpS_def throwS_def fun_eq_iff)

lemma wpS_bind [effS]: "wpS (bindS m f) E Q = wpS m E (\<lambda>x. wpS (f x) E Q)"
  by (simp add: wpS_def bindS_def fun_eq_iff split: sum.splits prod.splits)

lemma wpS_get [effS]: "wpS getS E Q = (\<lambda>s. Q s s)"
  by (simp add: wpS_def getS_def fun_eq_iff)

lemma wpS_mod [effS]: "wpS (modS f) E Q = (\<lambda>s. Q () (f s))"
  by (simp add: wpS_def modS_def fun_eq_iff)

lemma wpS_lift [effS]: "wpS (liftS r) E Q = (case r of Inl e \<Rightarrow> E e | Inr x \<Rightarrow> Q x)"
  by (simp add: wpS_def liftS_def fun_eq_iff split: sum.split)

lemma wpS_if [effS]: "wpS (if b then m else n) E Q = (if b then wpS m E Q else wpS n E Q)"
  by simp

lemma wpS_assert [effS]: "wpS (assertS e b) E Q = (if b then Q () else E e)"
  by (simp add: assertS_def effS)

lemma wpS_mono:
  "wpS m E Q s \<Longrightarrow> (\<And>e t. E e t \<Longrightarrow> E' e t) \<Longrightarrow> (\<And>x t. Q x t \<Longrightarrow> Q' x t) \<Longrightarrow> wpS m E' Q' s"
  by (auto simp: wpS_def split: sum.splits prod.splits)

lemma wpS_conj:
  "wpS m E Q s \<Longrightarrow> wpS m E' Q' s \<Longrightarrow> wpS m (\<lambda>e t. E e t \<and> E' e t) (\<lambda>x t. Q x t \<and> Q' x t) s"
  by (auto simp: wpS_def split: sum.splits prod.splits)

lemma wpS_split: "(\<And>e t. m s = (Inl e, t) \<Longrightarrow> E e t) \<Longrightarrow> (\<And>x t. m s = (Inr x, t) \<Longrightarrow> Q x t) \<Longrightarrow> wpS m E Q s"
  by (auto simp: wpS_def split: sum.splits prod.splits)

lemma wpS_InrD: "wpS m E Q s \<Longrightarrow> m s = (Inr x, t) \<Longrightarrow> Q x t"
  by (simp add: wpS_def)

lemma wpS_InlD: "wpS m E Q s \<Longrightarrow> m s = (Inl e, t) \<Longrightarrow> E e t"
  by (simp add: wpS_def)

text \<open>A computation that cannot throw has a result.\<close>

lemma wpS_totalD:
  assumes "wpS m (\<lambda>e t. False) Q s"
  obtains x t where "m s = (Inr x, t)" "Q x t"
  using assms by (cases "fst (m s)"; cases "m s") (auto simp: wpS_def)

lemma wpS_for:
  assumes "\<And>x s. x \<in> set xs \<Longrightarrow> I s \<Longrightarrow> wpS (f x) E (\<lambda>_. I) s" "I s"
  shows "wpS (forS xs f) E (\<lambda>_. I) s"
  using assms
proof (induction xs arbitrary: s)
  case (Cons x xs)
  then have "wpS (f x) E (\<lambda>_. I) s" by simp
  then have "wpS (f x) E (\<lambda>_. wpS (forS xs f) E (\<lambda>_. I)) s"
    by (rule wpS_mono) (use Cons in auto)
  then show ?case by (simp add: effS)
qed (simp add: effS)

lemma bindS_Inr [simp]: "m s = (Inr x, t) \<Longrightarrow> bindS m f s = f x t"
  by (simp add: bindS_def)

lemma bindS_Inl [simp]: "m s = (Inl e, t) \<Longrightarrow> bindS m f s = (Inl e, t)"
  by (simp add: bindS_def)

end
