(* ===== verification/SchainPatch.thy ===== *)
theory SchainPatch
  imports Prelude
begin

text \<open>
  \<open>libethereum/SchainPatch.cpp\<close> and \<open>SchainPatchEnum.h\<close>: the switches by which a chain turns on
  corrections at a configured time.  The two static members of the class are a record;
  \<open>time_t\<close> is \<open>int\<close>, and \<open>std::out_of_range\<close> is the only exception.
\<close>

datatype SchainPatchEnum =
  RevertableFSPatch | PrecompiledConfigPatch | PowCheckPatch | CorrectForkInPowPatch
  | ContractStorageZeroValuePatch | PushZeroPatch | ContractStoragePatch | StorageDestructionPatch
  | SkipInvalidTransactionsPatch | SelfdestructStorageLimitPatch | VerifyDaSigsPatch
  | FastConsensusPatch | EIP1559TransactionsPatch | VerifyBlsSyncPatch | FlexibleDeploymentPatch
  | ExternalGasPatch | PatchesCount

fun patch_index :: "SchainPatchEnum \<Rightarrow> nat" where
  "patch_index RevertableFSPatch = 0"
| "patch_index PrecompiledConfigPatch = 1"
| "patch_index PowCheckPatch = 2"
| "patch_index CorrectForkInPowPatch = 3"
| "patch_index ContractStorageZeroValuePatch = 4"
| "patch_index PushZeroPatch = 5"
| "patch_index ContractStoragePatch = 6"
| "patch_index StorageDestructionPatch = 7"
| "patch_index SkipInvalidTransactionsPatch = 8"
| "patch_index SelfdestructStorageLimitPatch = 9"
| "patch_index VerifyDaSigsPatch = 10"
| "patch_index FastConsensusPatch = 11"
| "patch_index EIP1559TransactionsPatch = 12"
| "patch_index VerifyBlsSyncPatch = 13"
| "patch_index FlexibleDeploymentPatch = 14"
| "patch_index ExternalGasPatch = 15"
| "patch_index PatchesCount = 16"

datatype patch_error = OutOfRange

definition getEnumForPatchName :: "string \<Rightarrow> patch_error + SchainPatchEnum" where
  "getEnumForPatchName n =
    (if n = ''RevertableFSPatch'' then Inr RevertableFSPatch
     else if n = ''PrecompiledConfigPatch'' then Inr PrecompiledConfigPatch
     else if n = ''PowCheckPatch'' then Inr PowCheckPatch
     else if n = ''CorrectForkInPowPatch'' then Inr CorrectForkInPowPatch
     else if n = ''ContractStorageZeroValuePatch'' then Inr ContractStorageZeroValuePatch
     else if n = ''PushZeroPatch'' then Inr PushZeroPatch
     else if n = ''ContractStoragePatch'' then Inr ContractStoragePatch
     else if n = ''StorageDestructionPatch'' then Inr StorageDestructionPatch
     else if n = ''SkipInvalidTransactionsPatch'' then Inr SkipInvalidTransactionsPatch
     else if n = ''VerifyDaSigsPatch'' then Inr VerifyDaSigsPatch
     else if n = ''FastConsensusPatch'' then Inr FastConsensusPatch
     else if n = ''EIP1559TransactionsPatch'' then Inr EIP1559TransactionsPatch
     else if n = ''VerifyBlsSyncPatch'' then Inr VerifyBlsSyncPatch
     else if n = ''FlexibleDeploymentPatch'' then Inr FlexibleDeploymentPatch
     else if n = ''ExternalGasPatch'' then Inr ExternalGasPatch
     else Inl OutOfRange)"

fun getPatchNameForEnum :: "SchainPatchEnum \<Rightarrow> patch_error + string" where
  "getPatchNameForEnum RevertableFSPatch = Inr ''RevertableFSPatch''"
| "getPatchNameForEnum PrecompiledConfigPatch = Inr ''PrecompiledConfigPatch''"
| "getPatchNameForEnum PowCheckPatch = Inr ''PowCheckPatch''"
| "getPatchNameForEnum CorrectForkInPowPatch = Inr ''CorrectForkInPowPatch''"
| "getPatchNameForEnum ContractStorageZeroValuePatch = Inr ''ContractStorageZeroValuePatch''"
| "getPatchNameForEnum PushZeroPatch = Inr ''PushZeroPatch''"
| "getPatchNameForEnum ContractStoragePatch = Inr ''ContractStoragePatch''"
| "getPatchNameForEnum StorageDestructionPatch = Inr ''StorageDestructionPatch''"
| "getPatchNameForEnum SkipInvalidTransactionsPatch = Inr ''SkipInvalidTransactionsPatch''"
| "getPatchNameForEnum SelfdestructStorageLimitPatch = Inr ''SelfdestructStorageLimitPatch''"
| "getPatchNameForEnum VerifyDaSigsPatch = Inr ''VerifyDaSigsPatch''"
| "getPatchNameForEnum FastConsensusPatch = Inr ''FastConsensusPatch''"
| "getPatchNameForEnum EIP1559TransactionsPatch = Inr ''EIP1559TransactionsPatch''"
| "getPatchNameForEnum VerifyBlsSyncPatch = Inr ''VerifyBlsSyncPatch''"
| "getPatchNameForEnum FlexibleDeploymentPatch = Inr ''FlexibleDeploymentPatch''"
| "getPatchNameForEnum ExternalGasPatch = Inr ''ExternalGasPatch''"
| "getPatchNameForEnum PatchesCount = Inl OutOfRange"

record SchainPatch =
  patchTimestamps :: "int list"
  committedBlockTimestamp :: int

text \<open>\<open>SChain::getPatchTimestamp\<close>.\<close>

definition getPatchTimestamp :: "SchainPatch \<Rightarrow> SchainPatchEnum \<Rightarrow> int" where
  "getPatchTimestamp P e =
    (if patch_index e < patch_index PatchesCount then patchTimestamps P ! patch_index e else 0)"

definition useLatestBlockTimestamp :: "int \<Rightarrow> SchainPatch \<Rightarrow> SchainPatch" where
  "useLatestBlockTimestamp t P = P\<lparr>committedBlockTimestamp := t\<rparr>"

definition isPatchEnabledWhen :: "SchainPatch \<Rightarrow> SchainPatchEnum \<Rightarrow> int \<Rightarrow> bool" where
  "isPatchEnabledWhen P e t =
    (let activationTimestamp = getPatchTimestamp P e in
     activationTimestamp \<noteq> 0 \<and> activationTimestamp \<le> t)"

definition isPatchEnabledInWorkingBlock :: "SchainPatch \<Rightarrow> SchainPatchEnum \<Rightarrow> bool" where
  "isPatchEnabledInWorkingBlock P e =
    (let activationTimestamp = getPatchTimestamp P e in
     activationTimestamp \<noteq> 0 \<and> activationTimestamp \<le> committedBlockTimestamp P)"

text \<open>A patch stays enabled while time goes on.\<close>

lemma isPatchEnabledWhen_mono:
  "isPatchEnabledWhen P e t \<Longrightarrow> t \<le> t' \<Longrightarrow> isPatchEnabledWhen P e t'"
  by (auto simp: isPatchEnabledWhen_def Let_def)

lemma isPatchEnabledInWorkingBlock_When:
  "isPatchEnabledInWorkingBlock (useLatestBlockTimestamp t P) e = isPatchEnabledWhen P e t"
  by (simp add: isPatchEnabledInWorkingBlock_def isPatchEnabledWhen_def useLatestBlockTimestamp_def
      getPatchTimestamp_def)

end
