(* ===== verification/Account.thy ===== *)
theory Account
  imports FixedHash "HOL-Library.AList"
begin

text \<open>
  \<open>libethereum/Account.h\<close> and \<open>Account.cpp\<close>: an account in the cache of the state.  The
  storage overlay and the cache of original values are association lists; \<open>h\<close> is
  \<open>dev::sha3\<close>, a third-party hash, so that \<open>EmptySHA3\<close> is \<open>h []\<close> and \<open>EmptyTrie\<close> is \<open>h [0x80]\<close>,
  the hash of the RLP of the empty string.  The counter of live objects is left out.
\<close>

type_synonym hashfun = "bytes \<Rightarrow> h256"
type_synonym storage_map = "(u256 \<times> u256) list"

record Account =
  m_isAlive :: bool
  m_isUnchanged :: bool
  m_hasNewCode :: bool
  m_nonce :: u256
  m_balance :: u256
  m_codeHash :: h256
  m_version :: u256
  m_storageOverlay :: storage_map
  m_storageOriginal :: storage_map
  m_codeCache :: bytes
  m_storageUsed :: int
  m_storageRoot :: h256

datatype Changedness = Changed | Unchanged

definition EmptySHA3 :: "hashfun \<Rightarrow> h256" where
  "EmptySHA3 h = h []"

definition EmptyTrie :: "hashfun \<Rightarrow> h256" where
  "EmptyTrie h = h [0x80]"

text \<open>The default constructor: a dead account.\<close>

definition Account_dead :: "hashfun \<Rightarrow> Account" where
  "Account_dead h = \<lparr>m_isAlive = False, m_isUnchanged = False, m_hasNewCode = False, m_nonce = 0,
     m_balance = 0, m_codeHash = EmptySHA3 h, m_version = 0, m_storageOverlay = [],
     m_storageOriginal = [], m_codeCache = [], m_storageUsed = 0, m_storageRoot = EmptyTrie h\<rparr>"

definition Account_new :: "hashfun \<Rightarrow> u256 \<Rightarrow> u256 \<Rightarrow> Changedness \<Rightarrow> Account" where
  "Account_new h nonce balance c = (Account_dead h)\<lparr>m_isAlive := True, m_isUnchanged := (c = Unchanged),
     m_nonce := nonce, m_balance := balance\<rparr>"

definition Account_full ::
    "hashfun \<Rightarrow> u256 \<Rightarrow> u256 \<Rightarrow> h256 \<Rightarrow> h256 \<Rightarrow> u256 \<Rightarrow> Changedness \<Rightarrow> int \<Rightarrow> Account" where
  "Account_full h nonce balance contractRoot codeHash version c storageUsed =
    (Account_dead h)\<lparr>m_isAlive := True, m_isUnchanged := (c = Unchanged), m_nonce := nonce,
      m_balance := balance, m_codeHash := codeHash, m_version := version,
      m_storageUsed := storageUsed, m_storageRoot := contractRoot\<rparr>"

definition Account_changed :: "Account \<Rightarrow> Account" where
  "Account_changed a = a\<lparr>m_isUnchanged := False\<rparr>"

definition Account_kill :: "hashfun \<Rightarrow> Account \<Rightarrow> Account" where
  "Account_kill h a = Account_changed (a\<lparr>m_isAlive := False, m_storageOverlay := [],
     m_codeHash := EmptySHA3 h, m_storageRoot := EmptyTrie h, m_balance := 0, m_nonce := 0,
     m_version := 0\<rparr>)"

definition isDirty :: "Account \<Rightarrow> bool" where
  "isDirty a = (\<not> m_isUnchanged a)"

definition Account_untouch :: "Account \<Rightarrow> Account" where
  "Account_untouch a = a\<lparr>m_isUnchanged := True\<rparr>"

definition Account_isEmpty :: "hashfun \<Rightarrow> Account \<Rightarrow> bool" where
  "Account_isEmpty h a = (m_nonce a = 0 \<and> m_balance a = 0 \<and> m_codeHash a = EmptySHA3 h)"

definition Account_addBalance :: "u256 \<Rightarrow> Account \<Rightarrow> Account" where
  "Account_addBalance v a = Account_changed (a\<lparr>m_balance := m_balance a + v\<rparr>)"

definition Account_incNonce :: "Account \<Rightarrow> Account" where
  "Account_incNonce a = Account_changed (a\<lparr>m_nonce := m_nonce a + 1\<rparr>)"

definition Account_setNonce :: "u256 \<Rightarrow> Account \<Rightarrow> Account" where
  "Account_setNonce n a = Account_changed (a\<lparr>m_nonce := n\<rparr>)"

definition Account_setStorage :: "u256 \<Rightarrow> u256 \<Rightarrow> Account \<Rightarrow> Account" where
  "Account_setStorage p v a =
    Account_changed (a\<lparr>m_storageOverlay := AList.update p v (m_storageOverlay a)\<rparr>)"

definition Account_setStorageCache :: "u256 \<Rightarrow> u256 \<Rightarrow> Account \<Rightarrow> Account" where
  "Account_setStorageCache p v a = a\<lparr>m_storageOriginal := AList.update p v (m_storageOriginal a)\<rparr>"

definition Account_setStorageRoot :: "h256 \<Rightarrow> Account \<Rightarrow> Account" where
  "Account_setStorageRoot root a =
    Account_changed (a\<lparr>m_storageOverlay := [], m_storageRoot := root\<rparr>)"

text \<open>\<open>setCode\<close> does not mark the account as changed.\<close>

definition Account_setCode :: "hashfun \<Rightarrow> bytes \<Rightarrow> u256 \<Rightarrow> Account \<Rightarrow> Account" where
  "Account_setCode h code version a =
    (let newHash = h code;
         a = (if newHash \<noteq> m_codeHash a
              then a\<lparr>m_codeCache := code, m_hasNewCode := True, m_codeHash := newHash\<rparr> else a)
     in a\<lparr>m_version := version\<rparr>)"

definition Account_resetCode :: "hashfun \<Rightarrow> Account \<Rightarrow> Account" where
  "Account_resetCode h a = a\<lparr>m_codeCache := [], m_hasNewCode := False, m_codeHash := EmptySHA3 h,
     m_version := 0\<rparr>"

definition Account_updateStorageUsage :: "int \<Rightarrow> Account \<Rightarrow> Account" where
  "Account_updateStorageUsage v a = Account_changed (a\<lparr>m_storageUsed := m_storageUsed a + v\<rparr>)"

text \<open>The assertion of \<open>noteCode\<close> is part of its caller.\<close>

definition Account_noteCode :: "bytes \<Rightarrow> Account \<Rightarrow> Account" where
  "Account_noteCode code a = a\<lparr>m_codeCache := code\<rparr>"

lemmas account_defs =
  Account_changed_def Account_kill_def Account_untouch_def Account_addBalance_def
  Account_incNonce_def Account_setNonce_def Account_setStorage_def Account_setStorageCache_def
  Account_setStorageRoot_def Account_setCode_def Account_resetCode_def
  Account_updateStorageUsage_def Account_noteCode_def Account_new_def Account_full_def
  Account_dead_def isDirty_def

end
