(* ===== verification/OverlayDB.thy ===== *)
theory OverlayDB
  imports FixedHash SchainPatch Account "HOL-Library.AList"
begin

text \<open>
  \<open>libskale/OverlayDB.cpp\<close> over \<open>libbatched-io/batched_db.h\<close>: the write cache in front of
  the key-value database of the state.

  \<open>Env\<close> collects what lies outside the sources: the database behind \<open>DatabaseFace\<close>
  (LevelDB) as functions over a type \<open>'d\<close> of its contents, the decimal printing and reading
  of \<open>s256\<close> (boost) and the \<open>sizeof\<close> of that type, the hash function, and the switches of \<open>SchainPatch\<close>.  A commit of
  a batch returns \<open>False\<close> when it throws.  \<open>env_ok\<close> states what the documentation of
  \<open>DatabaseFace\<close> promises: it holds one value per key, \<open>forEach\<close> visits every record, a
  commit applies the batch in order, and one that throws changes nothing.
\<close>

datatype batch_op = Insert bytes bytes | Kill bytes

record 'd Env =
  d_lookup :: "'d \<Rightarrow> bytes \<Rightarrow> bytes"
  d_exists :: "'d \<Rightarrow> bytes \<Rightarrow> bool"
  d_commit :: "batch_op list \<Rightarrow> 'd \<Rightarrow> bool \<times> 'd"
  d_forEach :: "'d \<Rightarrow> (bytes \<times> bytes) list"
  d_forEachWithPrefix :: "bytes \<Rightarrow> 'd \<Rightarrow> (bytes \<times> bytes) list"
  s256_str :: "int \<Rightarrow> bytes"
  s256_ofStr :: "bytes \<Rightarrow> int"
  s256_size :: nat
  sha3 :: hashfun
  e_patch :: SchainPatch

abbreviation working :: "'d Env \<Rightarrow> SchainPatchEnum \<Rightarrow> bool" where
  "working E p \<equiv> isPatchEnabledInWorkingBlock (e_patch E) p"

subsection \<open>batched_db\<close>

record 'd batched_db =
  bdb_db :: 'd
  bdb_batch :: "batch_op list option"

definition ensure_batch :: "'d batched_db \<Rightarrow> 'd batched_db" where
  "ensure_batch b = (case bdb_batch b of None \<Rightarrow> b\<lparr>bdb_batch := Some []\<rparr> | Some _ \<Rightarrow> b)"

definition bdb_write :: "batch_op \<Rightarrow> 'd batched_db \<Rightarrow> 'd batched_db" where
  "bdb_write w b = (let b = ensure_batch b in b\<lparr>bdb_batch := map_option (\<lambda>ws. ws @ [w]) (bdb_batch b)\<rparr>)"

definition bdb_insert :: "bytes \<Rightarrow> bytes \<Rightarrow> 'd batched_db \<Rightarrow> 'd batched_db" where
  "bdb_insert k v = bdb_write (Insert k v)"

definition bdb_kill :: "bytes \<Rightarrow> 'd batched_db \<Rightarrow> 'd batched_db" where
  "bdb_kill k = bdb_write (Kill k)"

definition bdb_revert :: "'d batched_db \<Rightarrow> 'd batched_db" where
  "bdb_revert b = b\<lparr>bdb_batch := None\<rparr>"

text \<open>The batch is moved into the call, so it is gone whether or not the commit throws.\<close>

definition bdb_commit :: "'d Env \<Rightarrow> 'd batched_db \<Rightarrow> bool \<times> 'd batched_db" where
  "bdb_commit E b = (let b = ensure_batch b; (ok, d) = d_commit E (the (bdb_batch b)) (bdb_db b) in
    (ok, \<lparr>bdb_db = d, bdb_batch = None\<rparr>))"

definition bdb_lookup :: "'d Env \<Rightarrow> 'd batched_db \<Rightarrow> bytes \<Rightarrow> bytes" where
  "bdb_lookup E b k = d_lookup E (bdb_db b) k"

definition bdb_exists :: "'d Env \<Rightarrow> 'd batched_db \<Rightarrow> bytes \<Rightarrow> bool" where
  "bdb_exists E b k = d_exists E (bdb_db b) k"

subsection \<open>State and keys\<close>

record 'd OverlayDB =
  odb_cache :: "(address \<times> bytes) list"
  odb_auxiliaryCache :: "(address \<times> (byte \<times> bytes) list) list"
  odb_storageCache :: "(address \<times> (h256 \<times> h256) list) list"
  odb_storageUsed :: int
  odb_db_face :: "'d batched_db option"
  lastExecutedTransactionHash :: "h256 option"
  lastExecutedTransactionReceipts :: "bytes option"

definition OverlayDB_new :: "'d batched_db option \<Rightarrow> 'd OverlayDB" where
  "OverlayDB_new b = \<lparr>odb_cache = [], odb_auxiliaryCache = [], odb_storageCache = [],
     odb_storageUsed = 0, odb_db_face = b, lastExecutedTransactionHash = None,
     lastExecutedTransactionReceipts = None\<rparr>"

definition getAuxiliaryKey :: "address \<Rightarrow> byte \<Rightarrow> bytes" where
  "getAuxiliaryKey a space = h160_bytes a @ [space]"

definition getStorageKey :: "address \<Rightarrow> h256 \<Rightarrow> bytes" where
  "getStorageKey a k = h160_bytes a @ h256_bytes k"

definition asBytes :: "string \<Rightarrow> bytes" where
  "asBytes s = map of_char s"

abbreviation "key_storageUsed \<equiv> asBytes ''storageUsed''"
abbreviation "key_lastHash \<equiv> asBytes ''safeLastExecutedTransactionHash''"
abbreviation "key_lastReceipts \<equiv> asBytes ''safeLastTransactionReceipts''"

subsection \<open>Accounts\<close>

definition OverlayDB_lookup :: "'d Env \<Rightarrow> 'd OverlayDB \<Rightarrow> address \<Rightarrow> bytes" where
  "OverlayDB_lookup E o' a =
    (let ret = (case map_of (odb_cache o') a of Some v \<Rightarrow> v | None \<Rightarrow> []) in
     if ret \<noteq> [] then ret
     else case odb_db_face o' of None \<Rightarrow> ret | Some b \<Rightarrow> bdb_lookup E b (h160_bytes a))"

definition OverlayDB_exists :: "'d Env \<Rightarrow> 'd OverlayDB \<Rightarrow> address \<Rightarrow> bool" where
  "OverlayDB_exists E o' a =
    (map_of (odb_cache o') a \<noteq> None \<or>
     (case odb_db_face o' of None \<Rightarrow> False | Some b \<Rightarrow> bdb_exists E b (h160_bytes a)))"

definition OverlayDB_insert :: "address \<Rightarrow> bytes \<Rightarrow> 'd OverlayDB \<Rightarrow> 'd OverlayDB" where
  "OverlayDB_insert a v o' = o'\<lparr>odb_cache := AList.update a v (odb_cache o')\<rparr>"

text \<open>A cached value is dropped; otherwise the deletion goes straight into the batch.\<close>

definition killInDb :: "'d Env \<Rightarrow> bytes \<Rightarrow> 'd OverlayDB \<Rightarrow> 'd OverlayDB" where
  "killInDb E k o' = (case odb_db_face o' of
     None \<Rightarrow> o'
   | Some b \<Rightarrow> if bdb_exists E b k then o'\<lparr>odb_db_face := Some (bdb_kill k b)\<rparr> else o')"

definition OverlayDB_kill :: "'d Env \<Rightarrow> address \<Rightarrow> 'd OverlayDB \<Rightarrow> 'd OverlayDB" where
  "OverlayDB_kill E a o' = (case map_of (odb_cache o') a of
     Some _ \<Rightarrow> o'\<lparr>odb_cache := AList.delete a (odb_cache o')\<rparr>
   | None \<Rightarrow> killInDb E (h160_bytes a) o')"

subsection \<open>Auxiliary values\<close>

definition auxCached :: "'d OverlayDB \<Rightarrow> address \<Rightarrow> byte \<Rightarrow> bytes option" where
  "auxCached o' a space = (case map_of (odb_auxiliaryCache o') a of
     None \<Rightarrow> None | Some m \<Rightarrow> map_of m space)"

definition OverlayDB_lookupAuxiliary :: "'d Env \<Rightarrow> 'd OverlayDB \<Rightarrow> address \<Rightarrow> byte \<Rightarrow> bytes" where
  "OverlayDB_lookupAuxiliary E o' a space =
    (let v = (case auxCached o' a space of Some v \<Rightarrow> v | None \<Rightarrow> []) in
     if v \<noteq> [] then v
     else case odb_db_face o' of None \<Rightarrow> v | Some b \<Rightarrow> bdb_lookup E b (getAuxiliaryKey a space))"

definition OverlayDB_insertAuxiliary :: "address \<Rightarrow> bytes \<Rightarrow> byte \<Rightarrow> 'd OverlayDB \<Rightarrow> 'd OverlayDB" where
  "OverlayDB_insertAuxiliary a v space o' =
    (let m = (case map_of (odb_auxiliaryCache o') a of Some m \<Rightarrow> m | None \<Rightarrow> []) in
     o'\<lparr>odb_auxiliaryCache := AList.update a (AList.update space v m) (odb_auxiliaryCache o')\<rparr>)"

definition OverlayDB_killAuxiliary :: "'d Env \<Rightarrow> address \<Rightarrow> byte \<Rightarrow> 'd OverlayDB \<Rightarrow> 'd OverlayDB" where
  "OverlayDB_killAuxiliary E a space o' =
    (case auxCached o' a space of
       Some _ \<Rightarrow> (let m = AList.delete space (the (map_of (odb_auxiliaryCache o') a)) in
         o'\<lparr>odb_auxiliaryCache := (if m = [] then AList.delete a (odb_auxiliaryCache o')
            else AList.update a m (odb_auxiliaryCache o'))\<rparr>)
     | None \<Rightarrow> killInDb E (getAuxiliaryKey a space) o')"

subsection \<open>Storage\<close>

definition storageCached :: "'d OverlayDB \<Rightarrow> address \<Rightarrow> h256 \<Rightarrow> h256 option" where
  "storageCached o' a k = (case map_of (odb_storageCache o') a of
     None \<Rightarrow> None | Some m \<Rightarrow> map_of m k)"

definition OverlayDB_lookupStorage :: "'d Env \<Rightarrow> 'd OverlayDB \<Rightarrow> address \<Rightarrow> h256 \<Rightarrow> h256" where
  "OverlayDB_lookupStorage E o' a k = (case storageCached o' a k of
     Some v \<Rightarrow> v
   | None \<Rightarrow> (case odb_db_face o' of
       None \<Rightarrow> 0 | Some b \<Rightarrow> h256_ofBytes (bdb_lookup E b (getStorageKey a k))))"

definition OverlayDB_insertStorage :: "address \<Rightarrow> h256 \<Rightarrow> h256 \<Rightarrow> 'd OverlayDB \<Rightarrow> 'd OverlayDB" where
  "OverlayDB_insertStorage a k v o' =
    (let m = (case map_of (odb_storageCache o') a of Some m \<Rightarrow> m | None \<Rightarrow> []) in
     o'\<lparr>odb_storageCache := AList.update a (AList.update k v m) (odb_storageCache o')\<rparr>)"

subsection \<open>The last transaction and the storage counter\<close>

text \<open>Both getters remember what they read; the second component is the object afterwards.\<close>

definition getLastExecutedTransactionHash :: "'d Env \<Rightarrow> 'd OverlayDB \<Rightarrow> h256 \<times> 'd OverlayDB" where
  "getLastExecutedTransactionHash E o' = (case lastExecutedTransactionHash o' of
     Some h \<Rightarrow> (h, o')
   | None \<Rightarrow> (let h = (case odb_db_face o' of None \<Rightarrow> 0
                 | Some b \<Rightarrow> (let l = bdb_lookup E b key_lastHash in if l \<noteq> [] then h256_ofBytes l else 0))
             in (h, o'\<lparr>lastExecutedTransactionHash := Some h\<rparr>)))"

definition getPartialTransactionReceipts :: "'d Env \<Rightarrow> 'd OverlayDB \<Rightarrow> bytes \<times> 'd OverlayDB" where
  "getPartialTransactionReceipts E o' = (case lastExecutedTransactionReceipts o' of
     Some r \<Rightarrow> (r, o')
   | None \<Rightarrow> (let r = (case odb_db_face o' of None \<Rightarrow> [] | Some b \<Rightarrow> bdb_lookup E b key_lastReceipts)
             in (r, o'\<lparr>lastExecutedTransactionReceipts := Some r\<rparr>)))"

definition setLastExecutedTransactionHash :: "h256 \<Rightarrow> 'd OverlayDB \<Rightarrow> 'd OverlayDB" where
  "setLastExecutedTransactionHash h o' = o'\<lparr>lastExecutedTransactionHash := Some h\<rparr>"

definition setPartialTransactionReceipts :: "bytes \<Rightarrow> 'd OverlayDB \<Rightarrow> 'd OverlayDB" where
  "setPartialTransactionReceipts r o' = o'\<lparr>lastExecutedTransactionReceipts := Some r\<rparr>"

definition OverlayDB_storageUsed :: "'d Env \<Rightarrow> 'd OverlayDB \<Rightarrow> int" where
  "OverlayDB_storageUsed E o' = (case odb_db_face o' of
     None \<Rightarrow> 0 | Some b \<Rightarrow> s256_ofStr E (bdb_lookup E b key_storageUsed))"

definition OverlayDB_updateStorageUsage :: "int \<Rightarrow> 'd OverlayDB \<Rightarrow> 'd OverlayDB" where
  "OverlayDB_updateStorageUsage n o' = o'\<lparr>odb_storageUsed := n\<rparr>"

subsection \<open>Commit\<close>

text \<open>The writes of \<open>commitStorageValues\<close>: with the patch a zero deletes its record.\<close>

definition storageWrite :: "'d Env \<Rightarrow> address \<Rightarrow> h256 \<times> h256 \<Rightarrow> batch_op" where
  "storageWrite E a = (\<lambda>(k, v).
    if working E ContractStorageZeroValuePatch \<and> v = 0 then Kill (getStorageKey a k)
    else Insert (getStorageKey a k) (h256_bytes v))"

definition commitStorageValues :: "'d Env \<Rightarrow> 'd OverlayDB \<Rightarrow> batch_op list" where
  "commitStorageValues E o' =
    concat (map (\<lambda>(a, m). map (storageWrite E a) m) (odb_storageCache o'))"

text \<open>All writes of one attempt, in the order in which they are added to the batch.\<close>

definition commitWrites :: "'d Env \<Rightarrow> 'd OverlayDB \<Rightarrow> batch_op list" where
  "commitWrites E o' =
    map (\<lambda>(a, v). Insert (h160_bytes a) v) (odb_cache o') @
    concat (map (\<lambda>(a, m). map (\<lambda>(space, v). Insert (getAuxiliaryKey a space) v) m)
      (odb_auxiliaryCache o')) @
    commitStorageValues E o' @
    [Insert key_storageUsed (s256_str E (odb_storageUsed o')),
     Insert key_lastHash (h256_bytes (fst (getLastExecutedTransactionHash E o'))),
     Insert key_lastReceipts (fst (getPartialTransactionReceipts E o'))]"

text \<open>
  The loop of at most ten attempts; \<open>None\<close> is the \<open>exit(-1)\<close> after the last.  Each attempt
  fills a batch from the caches; the two getters have remembered their values afterwards.
\<close>

fun commitTries :: "'d Env \<Rightarrow> nat \<Rightarrow> 'd batched_db \<Rightarrow> 'd OverlayDB \<Rightarrow> 'd OverlayDB option" where
  "commitTries E 0 b o' = None"
| "commitTries E (Suc n) b o' =
    (let (ok, b') = bdb_commit E (fold bdb_write (commitWrites E o') b);
         o'' = snd (getPartialTransactionReceipts E (snd (getLastExecutedTransactionHash E o')))
     in if ok then Some (o''\<lparr>odb_db_face := Some b'\<rparr>) else commitTries E n b' o'')"

definition OverlayDB_rollback :: "'d OverlayDB \<Rightarrow> 'd OverlayDB" where
  "OverlayDB_rollback o' = o'\<lparr>odb_cache := [], odb_auxiliaryCache := [], odb_storageCache := []\<rparr>"

definition OverlayDB_commit :: "'d Env \<Rightarrow> 'd OverlayDB \<Rightarrow> 'd OverlayDB option" where
  "OverlayDB_commit E o' = (case odb_db_face o' of
     None \<Rightarrow> Some o'
   | Some b \<Rightarrow> map_option (\<lambda>o''. OverlayDB_rollback
       (o''\<lparr>odb_db_face := map_option bdb_revert (odb_db_face o'')\<rparr>)) (commitTries E 10 b o'))"

subsection \<open>Enumeration\<close>

text \<open>Iterations over the committed records; the write caches are not consulted.\<close>

definition OverlayDB_accounts :: "'d Env \<Rightarrow> 'd OverlayDB \<Rightarrow> (address \<times> bytes) list" where
  "OverlayDB_accounts E o' = (case odb_db_face o' of
     None \<Rightarrow> []
   | Some b \<Rightarrow> fold (\<lambda>(k, v) m. if length k = 20 then AList.update (h160_ofBytes k) v m else m)
       (d_forEach E (bdb_db b)) [])"

definition OverlayDB_storage :: "'d Env \<Rightarrow> 'd OverlayDB \<Rightarrow> address \<Rightarrow> storage_map" where
  "OverlayDB_storage E o' a = (case odb_db_face o' of
     None \<Rightarrow> []
   | Some b \<Rightarrow> fold (\<lambda>(k, v) m.
       if length k = 52 \<and> h160_ofBytes (take 20 k) = a
       then AList.update (h256_ofBytes (drop 20 k)) (h256_ofBytes v) m else m)
       (d_forEachWithPrefix E (h160_bytes a) (bdb_db b)) [])"

definition copyStorageIntoAccountMap ::
    "'d Env \<Rightarrow> 'd OverlayDB \<Rightarrow> (address \<times> Account) list \<Rightarrow> (address \<times> Account) list" where
  "copyStorageIntoAccountMap E o' m = (case odb_db_face o' of
     None \<Rightarrow> m
   | Some b \<Rightarrow> fold (\<lambda>(k, v) m.
       if length k = 52 then
         (let a = h160_ofBytes (take 20 k) in case map_of m a of
            None \<Rightarrow> m
          | Some acc \<Rightarrow> AList.update a
              (Account_setStorage (h256_ofBytes (drop 20 k)) (h256_ofBytes v) acc) m)
       else m) (d_forEach E (bdb_db b)) m)"

text \<open>\<open>clearDB\<close> deletes every record in one batch; its commit may throw (\<open>None\<close>).\<close>

definition OverlayDB_clearDB :: "'d Env \<Rightarrow> 'd OverlayDB \<Rightarrow> 'd OverlayDB option" where
  "OverlayDB_clearDB E o' = (case odb_db_face o' of
     None \<Rightarrow> Some o'
   | Some b \<Rightarrow> (let (ok, b') = bdb_commit E (fold (\<lambda>(k, v). bdb_kill k) (d_forEach E (bdb_db b)) b)
       in if ok then Some (o'\<lparr>odb_db_face := Some b'\<rparr>) else None))"

definition OverlayDB_connected :: "'d OverlayDB \<Rightarrow> bool" where
  "OverlayDB_connected o' = (odb_db_face o' \<noteq> None)"

definition OverlayDB_empty :: "'d Env \<Rightarrow> 'd OverlayDB \<Rightarrow> bool" where
  "OverlayDB_empty E o' = (case odb_db_face o' of None \<Rightarrow> True | Some b \<Rightarrow> d_forEach E (bdb_db b) = [])"

subsection \<open>What the surroundings promise\<close>

definition contents :: "'d Env \<Rightarrow> 'd \<Rightarrow> bytes \<Rightarrow> bytes option" where
  "contents E d = map_of (d_forEach E d)"

fun apply_op :: "batch_op \<Rightarrow> (bytes \<Rightarrow> bytes option) \<Rightarrow> bytes \<Rightarrow> bytes option" where
  "apply_op (Insert k v) m = m(k \<mapsto> v)"
| "apply_op (Kill k) m = m(k := None)"

definition env_ok :: "'d Env \<Rightarrow> bool" where
  "env_ok E \<longleftrightarrow>
    (\<forall>d. distinct (map fst (d_forEach E d))) \<and>
    (\<forall>d k. d_lookup E d k = (case contents E d k of None \<Rightarrow> [] | Some v \<Rightarrow> v)) \<and>
    (\<forall>d k. d_exists E d k = (contents E d k \<noteq> None)) \<and>
    (\<forall>d p. d_forEachWithPrefix E p d = filter (\<lambda>(k, v). take (length p) k = p) (d_forEach E d)) \<and>
    (\<forall>ws d d'. d_commit E ws d = (True, d') \<longrightarrow> contents E d' = fold apply_op ws (contents E d)) \<and>
    (\<forall>ws d d'. d_commit E ws d = (False, d') \<longrightarrow> contents E d' = contents E d) \<and>
    (\<forall>i. s256_ofStr E (s256_str E i) = i) \<and> 32 \<le> s256_size E"

end
