(* ===== verification/OverlayFS.thy ===== *)
theory OverlayFS
  imports Prelude
begin

text \<open>
  \<open>libskale/OverlayFS.cpp\<close>: the queue of file-system operations of a transaction.  With
  the cache enabled they are kept until \<open>commit\<close> and dropped by \<open>reset\<close>; without it each is
  executed at once.  The file system itself is a parameter: \<open>execute\<close> applies one operation.
\<close>

datatype BaseOp =
  CreateFileOp string nat
  | CreateDirectoryOp string
  | DeleteFileOp string
  | DeleteDirectoryOp string
  | WriteChunkOp string nat bytes
  | CalculateFileHash string

record OverlayFS =
  fs_cache :: "BaseOp list"
  m_isCacheEnabled :: bool

definition OverlayFS_new :: "bool \<Rightarrow> OverlayFS" where
  "OverlayFS_new enableCache = \<lparr>fs_cache = [], m_isCacheEnabled = enableCache\<rparr>"

text \<open>What every operation does with its \<open>BaseOp\<close>.\<close>

definition fs_operation :: "(BaseOp \<Rightarrow> 'w \<Rightarrow> 'w) \<Rightarrow> BaseOp \<Rightarrow> OverlayFS \<times> 'w \<Rightarrow> OverlayFS \<times> 'w" where
  "fs_operation execute b = (\<lambda>(fs, w).
    if m_isCacheEnabled fs then (fs\<lparr>fs_cache := fs_cache fs @ [b]\<rparr>, w) else (fs, execute b w))"

definition fs_createDirectory :: "(BaseOp \<Rightarrow> 'w \<Rightarrow> 'w) \<Rightarrow> string \<Rightarrow> OverlayFS \<times> 'w \<Rightarrow> OverlayFS \<times> 'w" where
  "fs_createDirectory execute path = fs_operation execute (CreateDirectoryOp path)"

definition fs_createFile :: "(BaseOp \<Rightarrow> 'w \<Rightarrow> 'w) \<Rightarrow> string \<Rightarrow> nat \<Rightarrow> OverlayFS \<times> 'w \<Rightarrow> OverlayFS \<times> 'w" where
  "fs_createFile execute path n = fs_operation execute (CreateFileOp path n)"

definition fs_deleteFile :: "(BaseOp \<Rightarrow> 'w \<Rightarrow> 'w) \<Rightarrow> string \<Rightarrow> OverlayFS \<times> 'w \<Rightarrow> OverlayFS \<times> 'w" where
  "fs_deleteFile execute path = fs_operation execute (DeleteFileOp path)"

definition fs_deleteDirectory :: "(BaseOp \<Rightarrow> 'w \<Rightarrow> 'w) \<Rightarrow> string \<Rightarrow> OverlayFS \<times> 'w \<Rightarrow> OverlayFS \<times> 'w" where
  "fs_deleteDirectory execute path = fs_operation execute (DeleteDirectoryOp path)"

text \<open>\<open>writeChunk\<close> copies \<open>dataLength\<close> bytes of its argument into the operation.\<close>

definition fs_writeChunk ::
    "(BaseOp \<Rightarrow> 'w \<Rightarrow> 'w) \<Rightarrow> string \<Rightarrow> nat \<Rightarrow> nat \<Rightarrow> bytes \<Rightarrow> OverlayFS \<times> 'w \<Rightarrow> OverlayFS \<times> 'w" where
  "fs_writeChunk execute path position dataLength data =
    fs_operation execute (WriteChunkOp path position (take dataLength data))"

definition fs_calculateFileHash :: "(BaseOp \<Rightarrow> 'w \<Rightarrow> 'w) \<Rightarrow> string \<Rightarrow> OverlayFS \<times> 'w \<Rightarrow> OverlayFS \<times> 'w" where
  "fs_calculateFileHash execute path = fs_operation execute (CalculateFileHash path)"

definition fs_commit :: "(BaseOp \<Rightarrow> 'w \<Rightarrow> 'w) \<Rightarrow> OverlayFS \<times> 'w \<Rightarrow> OverlayFS \<times> 'w" where
  "fs_commit execute = (\<lambda>(fs, w). (fs\<lparr>fs_cache := []\<rparr>, fold execute (fs_cache fs) w))"

definition fs_reset :: "OverlayFS \<Rightarrow> OverlayFS" where
  "fs_reset fs = fs\<lparr>fs_cache := []\<rparr>"

lemma fs_operations_cached:
  "m_isCacheEnabled fs \<Longrightarrow>
   fold (fs_operation execute) bs (fs, w) = (fs\<lparr>fs_cache := fs_cache fs @ bs\<rparr>, w)"
  by (induction bs arbitrary: fs) (simp_all add: fs_operation_def)

lemma fs_operations_direct:
  "\<not> m_isCacheEnabled fs \<Longrightarrow> fold (fs_operation execute) bs (fs, w) = (fs, fold execute bs w)"
  by (induction bs arbitrary: w) (simp_all add: fs_operation_def)

text \<open>A run with the cache enabled changes the files only at \<open>commit\<close>, and then as a run without it.\<close>

lemma fs_deferred:
  "fs_commit execute (fold (fs_operation execute) bs (OverlayFS_new True, w)) =
    (OverlayFS_new True, snd (fold (fs_operation execute) bs (OverlayFS_new False, w)))"
  by (simp add: fs_operations_cached fs_operations_direct OverlayFS_new_def fs_commit_def)

lemma fs_reset_drops:
  "fs_reset (fst (fold (fs_operation execute) bs (OverlayFS_new True, w))) = OverlayFS_new True"
  "snd (fold (fs_operation execute) bs (OverlayFS_new True, w)) = w"
  by (simp_all add: fs_operations_cached OverlayFS_new_def fs_reset_def)

end
