(* ===== verification/State.thy ===== *)
theory State
  imports Effects OverlayDB OverlayFS RLP_Lists RLP_Stream StdMap
begin

text \<open>
  \<open>libskale/State.cpp\<close>: the world state of a node, without \<open>HISTORIC_STATE\<close>.  An object is
  a record; a member function is a computation over it that may throw half-way.

  \<^item> \<open>m_db\<close> is the \<open>OverlayDB\<close> behind \<open>m_db_ptr\<close>, \<open>m_fs\<close> the \<open>OverlayFS\<close> behind \<open>m_fs_ptr\<close>.
  \<^item> A \<open>std::unordered_map\<close> is an association list, \<open>m_db_write_lock\<close> whether it is held.
  \<^item> \<open>s_fixedHashEngine\<close> is the sequence of numbers the random engine will draw, and
    \<open>codeSizeCache\<close> the process-wide \<open>CodeSizeCache\<close>; both are reached from every \<open>State\<close>.
  \<^item> \<open>account()\<close> is a \<open>const\<close> member that loads accounts into the mutable cache; it returns
    a pointer into the cache, so that the model returns the account and later updates of it
    go through its address.
  \<^item> An \<open>assert\<close> that fails, and a null pointer that is followed, are exceptions of the model.
  \<^item> The counters are \<open>s256\<close> in the source, modelled as \<open>int\<close>: they change by 32 per store.
\<close>

subsection \<open>The object\<close>

datatype Change =
  Balance address u256
  | Storage address u256 u256
  | StorageRoot address u256
  | Nonce address u256
  | Create address
  | Code address bytes
  | Touch address

record 'd State =
  m_db :: "'d OverlayDB"
  m_fs :: "OverlayFS option"
  m_db_write_lock :: bool
  m_storedVersion :: nat
  m_currentVersion :: nat
  m_cache :: "(address \<times> Account) list"
  m_unchangedCacheEntries :: "address list"
  m_nonExistingAccountsCache :: "address set"
  m_accountStartNonce :: u256
  m_changeLog :: "Change list"
  m_initial_funds :: u256
  contractStorageLimit :: int
  storageUsage :: "(address \<times> int) list"
  totalStorageUsed :: int
  currentStorageUsed :: int
  codeSizeCache :: "(h256 \<times> nat) list"
  s_fixedHashEngine :: "nat \<Rightarrow> nat"

datatype state_error =
  InvalidAccountStartNonceInState | IncorrectAccountStartNonceInState
  | AttemptToWriteToStateInThePast | AttemptToReadFromStateInThePast
  | AttemptToWriteToNotLockedStateObject | NotEnoughCash | StorageOverflowError
  | StateRLP rlp_error | RangeError | AssertionFailed | NullPointer | LogicError | ProcessExit

type_synonym ('d, 'a) stm = "('d State, state_error, 'a) eff"

definition Invalid256 :: u256 where
  "Invalid256 = - 1"

definition checkVersion :: "'d State \<Rightarrow> bool" where
  "checkVersion s = (m_storedVersion s = m_currentVersion s)"

definition requireAccountStartNonce :: "('d, u256) stm" where
  "requireAccountStartNonce = bindS getS (\<lambda>s.
    if m_accountStartNonce s = Invalid256 then throwS InvalidAccountStartNonceInState
    else retS (m_accountStartNonce s))"

definition noteAccountStartNonce :: "u256 \<Rightarrow> ('d, unit) stm" where
  "noteAccountStartNonce actual = bindS getS (\<lambda>s.
    if m_accountStartNonce s = Invalid256 then modS (\<lambda>s. s\<lparr>m_accountStartNonce := actual\<rparr>)
    else if m_accountStartNonce s \<noteq> actual then throwS IncorrectAccountStartNonceInState
    else retS ())"

definition logChange :: "Change \<Rightarrow> ('d, unit) stm" where
  "logChange c = modS (\<lambda>s. s\<lparr>m_changeLog := m_changeLog s @ [c]\<rparr>)"

text \<open>An update through a pointer from \<open>account()\<close>, and \<open>m_cache[a]\<close> as a left-hand side.\<close>

definition updAccount :: "address \<Rightarrow> (Account \<Rightarrow> Account) \<Rightarrow> ('d, unit) stm" where
  "updAccount a f = modS (\<lambda>s. s\<lparr>m_cache := AList.map_entry a f (m_cache s)\<rparr>)"

definition cacheAt :: "'d Env \<Rightarrow> address \<Rightarrow> (Account \<Rightarrow> Account) \<Rightarrow> ('d, unit) stm" where
  "cacheAt E a f = modS (\<lambda>s. s\<lparr>m_cache := AList.update a
    (f (case map_of (m_cache s) a of Some x \<Rightarrow> x | None \<Rightarrow> Account_dead (sha3 E))) (m_cache s)\<rparr>)"

subsection \<open>Loading accounts\<close>

text \<open>\<open>uniform_int_distribution(0, n - 1)(s_fixedHashEngine)\<close>.\<close>

definition drawRandom :: "nat \<Rightarrow> (nat \<Rightarrow> nat) \<Rightarrow> nat \<times> (nat \<Rightarrow> nat)" where
  "drawRandom n rng = (rng 0 mod n, \<lambda>i. rng (Suc i))"

text \<open>The loop of \<open>clearCacheIfTooLarge\<close> over the entries, the cache and the engine.\<close>

function evict :: "address list \<Rightarrow> (address \<times> Account) list \<Rightarrow> (nat \<Rightarrow> nat) \<Rightarrow>
    address list \<times> (address \<times> Account) list \<times> (nat \<Rightarrow> nat)" where
  "evict es c rng =
    (if 1000 < length es then
       let (randomIndex, rng) = drawRandom (length es) rng;
           addr = es ! randomIndex;
           es = butlast (es[randomIndex := last es]);
           c = (case map_of c addr of
                  Some x \<Rightarrow> if \<not> isDirty x then AList.delete addr c else c
                | None \<Rightarrow> c)
       in evict es c rng
     else (es, c, rng))"
  by pat_completeness auto

termination
  by (relation "measure (\<lambda>(es, c, rng). length es)") (auto simp: drawRandom_def)

declare evict.simps [simp del]

definition clearCacheIfTooLarge :: "'d State \<Rightarrow> 'd State" where
  "clearCacheIfTooLarge s =
    (let (es, c, rng) = evict (m_unchangedCacheEntries s) (m_cache s) (s_fixedHashEngine s) in
     s\<lparr>m_unchangedCacheEntries := es, m_cache := c, s_fixedHashEngine := rng\<rparr>)"

text \<open>The account that a record of the database stands for.\<close>

definition decodeAccount :: "'d Env \<Rightarrow> bytes \<Rightarrow> rlp_error + Account" where
  "decodeAccount E stateBack =
    bindE (RLP_ctor VeryStrict stateBack) (\<lambda>d.
    bindE (subscript d 0 initCache) (\<lambda>(r0, c0). bindE (toInt 32 Strict r0) (\<lambda>nonce.
    bindE (subscript d 1 c0) (\<lambda>(r1, c1). bindE (toInt 32 Strict r1) (\<lambda>balance.
    bindE (subscript d 2 c1) (\<lambda>(r2, c2). bindE (toInt 32 Strict r2) (\<lambda>codeHash.
    bindE (subscript d 3 c2) (\<lambda>(r3, c3). bindE (toInt (s256_size E) Strict r3) (\<lambda>storageUsed.
    bindE (subscript d 4 c3) (\<lambda>(r4, c4).
    bindE (if \<not> isNull r4 then toInt 32 Strict r4 else Inr 0) (\<lambda>version.
    Inr (Account_full (sha3 E) (of_nat nonce) (of_nat balance) (EmptyTrie (sha3 E))
      (of_nat codeHash) (of_nat version) Unchanged (int storageUsed)))))))))))))"

definition mapErr :: "('e \<Rightarrow> 'f) \<Rightarrow> 'e + 'a \<Rightarrow> 'f + 'a" where
  "mapErr f r = (case r of Inl e \<Rightarrow> Inl (f e) | Inr x \<Rightarrow> Inr x)"

definition State_account :: "'d Env \<Rightarrow> address \<Rightarrow> ('d, Account option) stm" where
  "State_account E a = bindS getS (\<lambda>s. case map_of (m_cache s) a of
     Some x \<Rightarrow> retS (Some x)
   | None \<Rightarrow>
       if a \<in> m_nonExistingAccountsCache s then retS None
       else bindS (if checkVersion s then retS () else throwS AttemptToReadFromStateInThePast) (\<lambda>_.
         let stateBack = OverlayDB_lookup E (m_db s) a in
         if stateBack = [] then
           bindS (modS (\<lambda>s. s\<lparr>m_nonExistingAccountsCache := insert a (m_nonExistingAccountsCache s)\<rparr>))
             (\<lambda>_. retS None)
         else bindS (modS clearCacheIfTooLarge) (\<lambda>_.
           bindS (liftS (mapErr StateRLP (decodeAccount E stateBack))) (\<lambda>x.
           bindS (modS (\<lambda>s. s\<lparr>m_cache := AList.update a x (m_cache s),
               m_unchangedCacheEntries := m_unchangedCacheEntries s @ [a]\<rparr>)) (\<lambda>_.
           retS (Some x))))))"

subsection \<open>Balances and nonces\<close>

definition State_addressInUse :: "'d Env \<Rightarrow> address \<Rightarrow> ('d, bool) stm" where
  "State_addressInUse E a = bindS (State_account E a) (\<lambda>r. retS (r \<noteq> None))"

definition State_accountNonemptyAndExisting :: "'d Env \<Rightarrow> address \<Rightarrow> ('d, bool) stm" where
  "State_accountNonemptyAndExisting E a = bindS (State_account E a) (\<lambda>r. retS (case r of
     Some x \<Rightarrow> \<not> Account_isEmpty (sha3 E) x | None \<Rightarrow> False))"

definition State_addressHasCode :: "'d Env \<Rightarrow> address \<Rightarrow> ('d, bool) stm" where
  "State_addressHasCode E a = bindS (State_account E a) (\<lambda>r. retS (case r of
     Some x \<Rightarrow> m_codeHash x \<noteq> EmptySHA3 (sha3 E) | None \<Rightarrow> False))"

definition State_balance :: "'d Env \<Rightarrow> address \<Rightarrow> ('d, u256) stm" where
  "State_balance E a = bindS (State_account E a) (\<lambda>r. bindS getS (\<lambda>s. retS (case r of
     Some x \<Rightarrow> m_balance x | None \<Rightarrow> m_initial_funds s)))"

definition State_getNonce :: "'d Env \<Rightarrow> address \<Rightarrow> ('d, u256) stm" where
  "State_getNonce E a = bindS (State_account E a) (\<lambda>r. bindS getS (\<lambda>s. retS (case r of
     Some x \<Rightarrow> m_nonce x | None \<Rightarrow> m_accountStartNonce s)))"

definition State_createAccount :: "'d Env \<Rightarrow> address \<Rightarrow> Account \<Rightarrow> ('d, unit) stm" where
  "State_createAccount E a acc =
    bindS (State_addressInUse E a) (\<lambda>used. bindS (assertS AssertionFailed (\<not> used)) (\<lambda>_.
    bindS (modS (\<lambda>s. s\<lparr>m_cache := AList.update a acc (m_cache s),
      m_nonExistingAccountsCache := m_nonExistingAccountsCache s - {a}\<rparr>)) (\<lambda>_.
    logChange (Create a))))"

definition State_incNonce :: "'d Env \<Rightarrow> address \<Rightarrow> ('d, unit) stm" where
  "State_incNonce E a = bindS (State_account E a) (\<lambda>r. case r of
     Some x \<Rightarrow> bindS (updAccount a Account_incNonce) (\<lambda>_. logChange (Nonce a (m_nonce x)))
   | None \<Rightarrow> bindS requireAccountStartNonce (\<lambda>n. bindS getS (\<lambda>s.
       State_createAccount E a (Account_new (sha3 E) (n + 1) (m_initial_funds s) Changed))))"

definition State_setNonce :: "'d Env \<Rightarrow> address \<Rightarrow> u256 \<Rightarrow> ('d, unit) stm" where
  "State_setNonce E a newNonce = bindS (State_account E a) (\<lambda>r. case r of
     Some x \<Rightarrow> bindS (updAccount a (Account_setNonce newNonce)) (\<lambda>_. logChange (Nonce a (m_nonce x)))
   | None \<Rightarrow> bindS getS (\<lambda>s.
       State_createAccount E a (Account_new (sha3 E) newNonce (m_initial_funds s) Changed)))"

definition State_addBalance :: "'d Env \<Rightarrow> address \<Rightarrow> u256 \<Rightarrow> ('d, unit) stm" where
  "State_addBalance E a amount =
    bindS (State_account E a) (\<lambda>r. bindS (case r of
       Some x \<Rightarrow> bindS (if \<not> isDirty x \<and> Account_isEmpty (sha3 E) x then logChange (Touch a) else retS ())
         (\<lambda>_. updAccount a (Account_addBalance amount))
     | None \<Rightarrow> bindS requireAccountStartNonce (\<lambda>n. bindS getS (\<lambda>s.
         State_createAccount E a (Account_new (sha3 E) n (m_initial_funds s + amount) Changed))))
    (\<lambda>_. if amount \<noteq> 0 then logChange (Balance a amount) else retS ()))"

definition State_subBalance :: "'d Env \<Rightarrow> address \<Rightarrow> u256 \<Rightarrow> ('d, unit) stm" where
  "State_subBalance E a v =
    (if v = 0 then retS ()
     else bindS (State_account E a) (\<lambda>r. case r of
       None \<Rightarrow> throwS NotEnoughCash
     | Some x \<Rightarrow> if m_balance x < v then throwS NotEnoughCash else State_addBalance E a (0 - v)))"

definition State_setBalance :: "'d Env \<Rightarrow> address \<Rightarrow> u256 \<Rightarrow> ('d, unit) stm" where
  "State_setBalance E a v = bindS (State_account E a) (\<lambda>r.
    let original = (case r of Some x \<Rightarrow> m_balance x | None \<Rightarrow> 0) in State_addBalance E a (v - original))"

definition State_transferBalance :: "'d Env \<Rightarrow> address \<Rightarrow> address \<Rightarrow> u256 \<Rightarrow> ('d, unit) stm" where
  "State_transferBalance E src dst v =
    bindS (State_subBalance E src v) (\<lambda>_. State_addBalance E dst v)"

definition State_createContract :: "'d Env \<Rightarrow> address \<Rightarrow> ('d, unit) stm" where
  "State_createContract E a = bindS requireAccountStartNonce (\<lambda>n. bindS getS (\<lambda>s.
    State_createAccount E a (Account_new (sha3 E) n (m_initial_funds s) Changed)))"

definition State_kill :: "'d Env \<Rightarrow> address \<Rightarrow> ('d, unit) stm" where
  "State_kill E a = bindS (State_account E a) (\<lambda>r. case r of
     Some _ \<Rightarrow> updAccount a (Account_kill (sha3 E)) | None \<Rightarrow> retS ())"

subsection \<open>Storage\<close>

text \<open>A read of the database, remembered in the account's cache of original values.\<close>

definition loadStorage :: "'d Env \<Rightarrow> address \<Rightarrow> u256 \<Rightarrow> ('d, u256) stm" where
  "loadStorage E a k = bindS getS (\<lambda>s.
    if \<not> checkVersion s then throwS AttemptToReadFromStateInThePast
    else let v = OverlayDB_lookupStorage E (m_db s) a k in
      bindS (updAccount a (Account_setStorageCache k v)) (\<lambda>_. retS v))"

definition State_originalStorageValue :: "'d Env \<Rightarrow> address \<Rightarrow> u256 \<Rightarrow> ('d, u256) stm" where
  "State_originalStorageValue E a k = bindS (State_account E a) (\<lambda>r. case r of
     None \<Rightarrow> retS 0
   | Some x \<Rightarrow> (case map_of (m_storageOriginal x) k of Some v \<Rightarrow> retS v | None \<Rightarrow> loadStorage E a k))"

definition State_storage :: "'d Env \<Rightarrow> address \<Rightarrow> u256 \<Rightarrow> ('d, u256) stm" where
  "State_storage E a k = bindS (State_account E a) (\<lambda>r. case r of
     None \<Rightarrow> retS 0
   | Some x \<Rightarrow> (case map_of (m_storageOverlay x) k of
       Some v \<Rightarrow> retS v
     | None \<Rightarrow> (case map_of (m_storageOriginal x) k of
         Some v \<Rightarrow> retS v | None \<Rightarrow> loadStorage E a k)))"

text \<open>The change in the number of used slots when a value is overwritten.\<close>

definition slotCount :: "u256 \<Rightarrow> u256 \<Rightarrow> int" where
  "slotCount current v =
    (if (0 < v \<and> 0 < current) \<or> (v = 0 \<and> current = 0) then 0 else if v = 0 then - 1 else 1)"

definition usageOf :: "(address \<times> int) list \<Rightarrow> address \<Rightarrow> int" where
  "usageOf u a = (case map_of u a of Some n \<Rightarrow> n | None \<Rightarrow> 0)"

definition addUsage :: "address \<Rightarrow> int \<Rightarrow> 'd State \<Rightarrow> 'd State" where
  "addUsage a n s = s\<lparr>storageUsage := AList.update a (usageOf (storageUsage s) a + n) (storageUsage s),
     currentStorageUsed := currentStorageUsed s + n\<rparr>"

definition State_setStorage :: "'d Env \<Rightarrow> address \<Rightarrow> u256 \<Rightarrow> u256 \<Rightarrow> ('d, unit) stm" where
  "State_setStorage E a k v = bindS (State_storage E a k) (\<lambda>current.
    bindS (logChange (Storage a k current)) (\<lambda>_.
    bindS (cacheAt E a (Account_setStorage k v)) (\<lambda>_.
    bindS (modS (addUsage a (slotCount current v * 32))) (\<lambda>_.
    bindS getS (\<lambda>s.
    if contractStorageLimit s < totalStorageUsed s + currentStorageUsed s
    then throwS StorageOverflowError else retS ())))))"

definition State_clearStorageValue :: "'d Env \<Rightarrow> address \<Rightarrow> u256 \<Rightarrow> u256 \<Rightarrow> ('d, unit) stm" where
  "State_clearStorageValue E a k current =
    bindS (logChange (Storage a k current)) (\<lambda>_.
    bindS (cacheAt E a (Account_setStorage k 0)) (\<lambda>_.
    modS (addUsage a ((if current = 0 then 0 else - 1) * 32))))"

text \<open>
  \<open>storage_WITHOUT_LOCK\<close>: keyed by the hash of the slot, the committed records first, then
  the overlay of a changed account.
\<close>

definition hashedSlots :: "'d Env \<Rightarrow> storage_map \<Rightarrow> (h256, u256 \<times> u256) omap \<Rightarrow> (h256, u256 \<times> u256) omap" where
  "hashedSlots E kvs m = fold (\<lambda>(k, v). omap_put (sha3 E (h256_bytes k)) (k, v)) kvs m"

definition storage_WITHOUT_LOCK :: "'d Env \<Rightarrow> address \<Rightarrow> ('d, (h256, u256 \<times> u256) omap) stm" where
  "storage_WITHOUT_LOCK E a = bindS getS (\<lambda>s.
    if \<not> checkVersion s then throwS AttemptToReadFromStateInThePast
    else retS (fold (\<lambda>(b, x) m. if isDirty x \<and> b = a then hashedSlots E (m_storageOverlay x) m else m)
      (m_cache s) (hashedSlots E (OverlayDB_storage E (m_db s) a) [])))"

text \<open>\<open>storageUsage[a]\<close> as an expression: a missing entry is created.\<close>

definition usageAt :: "address \<Rightarrow> ('d, int) stm" where
  "usageAt a = bindS getS (\<lambda>s. bindS (modS (\<lambda>s. s\<lparr>storageUsage :=
     AList.update a (usageOf (storageUsage s) a) (storageUsage s)\<rparr>)) (\<lambda>_.
     retS (usageOf (storageUsage s) a)))"

text \<open>The loop takes the key for the current value (\<open>hashPairPair.second.first\<close> twice).\<close>

definition State_clearStorage :: "'d Env \<Rightarrow> address \<Rightarrow> ('d, unit) stm" where
  "State_clearStorage E a = bindS (State_account E a) (\<lambda>r. case r of
     None \<Rightarrow> throwS NullPointer
   | Some x \<Rightarrow> let accStorageUsed = m_storageUsed x in
       bindS (if accStorageUsed = 0 then usageAt a else retS 1) (\<lambda>used.
       if accStorageUsed = 0 \<and> used = 0 then retS ()
       else bindS (storage_WITHOUT_LOCK E a) (\<lambda>slots.
         bindS (forS slots (\<lambda>(hk, key, _).
           let value = key in
           bindS (State_clearStorageValue E a key value) (\<lambda>_.
           bindS (updAccount a (Account_setStorageCache key 0)) (\<lambda>_.
           modS (\<lambda>s. s\<lparr>m_db := OverlayDB_insertStorage a key 0 (m_db s)\<rparr>))))) (\<lambda>_.
         bindS (usageAt a) (\<lambda>used.
         bindS (modS (\<lambda>s. s\<lparr>totalStorageUsed := totalStorageUsed s - (accStorageUsed + used)\<rparr>)) (\<lambda>_.
         updAccount a (Account_updateStorageUsage (- accStorageUsed))))))))"

subsection \<open>Code\<close>

text \<open>\<open>CodeSizeCache::store\<close>; a full cache loses the entry at a random position.\<close>

definition removeRandomElement :: "h256 \<Rightarrow> (h256, nat) omap \<Rightarrow> (h256, nat) omap" where
  "removeRandomElement r m = (case omap_from r m of (k, _) # _ \<Rightarrow> omap_erase k m | [] \<Rightarrow> tl m)"

definition CodeSizeCache_store :: "h256 \<Rightarrow> nat \<Rightarrow> 'd State \<Rightarrow> 'd State" where
  "CodeSizeCache_store hk n s =
    (let s = (if 50000 \<le> length (codeSizeCache s)
              then s\<lparr>codeSizeCache := removeRandomElement (of_nat (s_fixedHashEngine s 0)) (codeSizeCache s),
                     s_fixedHashEngine := (\<lambda>i. s_fixedHashEngine s (Suc i))\<rparr> else s)
     in s\<lparr>codeSizeCache := omap_put hk n (codeSizeCache s)\<rparr>)"

definition CODE :: byte where
  "CODE = 1"

definition State_code :: "'d Env \<Rightarrow> address \<Rightarrow> ('d, bytes) stm" where
  "State_code E a = bindS (State_account E a) (\<lambda>r. case r of
     None \<Rightarrow> retS []
   | Some x \<Rightarrow>
       if m_codeHash x = EmptySHA3 (sha3 E) then retS []
       else if m_codeCache x = [] then bindS getS (\<lambda>s.
         if \<not> checkVersion s then throwS AttemptToReadFromStateInThePast
         else let code = OverlayDB_lookupAuxiliary E (m_db s) a CODE in
           bindS (assertS AssertionFailed (sha3 E code = m_codeHash x)) (\<lambda>_.
           bindS (updAccount a (Account_noteCode code)) (\<lambda>_.
           bindS (modS (CodeSizeCache_store (m_codeHash x) (length code))) (\<lambda>_. retS code))))
       else retS (m_codeCache x))"

definition State_setCode :: "'d Env \<Rightarrow> address \<Rightarrow> bytes \<Rightarrow> u256 \<Rightarrow> ('d, unit) stm" where
  "State_setCode E a code version =
    bindS (State_addressHasCode E a) (\<lambda>has. bindS (assertS AssertionFailed (\<not> has)) (\<lambda>_.
    bindS (State_code E a) (\<lambda>oldCode. bindS (logChange (Code a oldCode)) (\<lambda>_.
    cacheAt E a (Account_setCode (sha3 E) code version)))))"

definition State_codeHash :: "'d Env \<Rightarrow> address \<Rightarrow> ('d, h256) stm" where
  "State_codeHash E a = bindS (State_account E a) (\<lambda>r. retS (case r of
     Some x \<Rightarrow> m_codeHash x | None \<Rightarrow> EmptySHA3 (sha3 E)))"

definition State_codeSize :: "'d Env \<Rightarrow> address \<Rightarrow> ('d, nat) stm" where
  "State_codeSize E a = bindS (State_account E a) (\<lambda>r. case r of
     None \<Rightarrow> retS 0
   | Some x \<Rightarrow>
       if m_hasNewCode x then retS (length (m_codeCache x))
       else bindS getS (\<lambda>s. case map_of (codeSizeCache s) (m_codeHash x) of
         Some n \<Rightarrow> retS n
       | None \<Rightarrow> bindS (State_code E a) (\<lambda>code.
           bindS (modS (CodeSizeCache_store (m_codeHash x) (length code))) (\<lambda>_. retS (length code)))))"

definition State_version :: "'d Env \<Rightarrow> address \<Rightarrow> ('d, u256) stm" where
  "State_version E a = bindS (State_account E a) (\<lambda>r. retS (case r of
     Some x \<Rightarrow> m_version x | None \<Rightarrow> 0))"

subsection \<open>Savepoints\<close>

definition savepoint :: "'d State \<Rightarrow> nat" where
  "savepoint s = length (m_changeLog s)"

definition resetStorageChanges :: "'d State \<Rightarrow> 'd State" where
  "resetStorageChanges s = s\<lparr>storageUsage := [], currentStorageUsed := 0\<rparr>"

definition clearFileStorageCache :: "'d State \<Rightarrow> 'd State" where
  "clearFileStorageCache s = s\<lparr>m_fs := map_option fs_reset (m_fs s)\<rparr>"

definition rollbackStorageChange :: "'d Env \<Rightarrow> address \<Rightarrow> u256 \<Rightarrow> u256 \<Rightarrow> ('d, unit) stm" where
  "rollbackStorageChange E a k v = bindS (State_storage E a k) (\<lambda>current.
    bindS (modS (addUsage a (slotCount current v * 32))) (\<lambda>_.
    updAccount a (Account_setStorage k v)))"

fun changeAddress :: "Change \<Rightarrow> address" where
  "changeAddress (Balance a _) = a"
| "changeAddress (Storage a _ _) = a"
| "changeAddress (StorageRoot a _) = a"
| "changeAddress (Nonce a _) = a"
| "changeAddress (Create a) = a"
| "changeAddress (Code a _) = a"
| "changeAddress (Touch a) = a"

text \<open>The switch of \<open>rollback\<close>.\<close>

definition undoChange :: "'d Env \<Rightarrow> Change \<Rightarrow> ('d, unit) stm" where
  "undoChange E c = (case c of
     Storage a k v \<Rightarrow> if working E ContractStoragePatch then rollbackStorageChange E a k v
                     else updAccount a (Account_setStorage k v)
   | StorageRoot a v \<Rightarrow> updAccount a (Account_setStorageRoot v)
   | Balance a v \<Rightarrow> updAccount a (Account_addBalance (0 - v))
   | Nonce a v \<Rightarrow> updAccount a (Account_setNonce v)
   | Create a \<Rightarrow> modS (\<lambda>s. s\<lparr>m_cache := AList.delete a (m_cache s)\<rparr>)
   | Code a _ \<Rightarrow> updAccount a (Account_resetCode (sha3 E))
   | Touch a \<Rightarrow> bindS (updAccount a Account_untouch) (\<lambda>_.
       modS (\<lambda>s. s\<lparr>m_unchangedCacheEntries := m_unchangedCacheEntries s @ [a]\<rparr>)))"

text \<open>One iteration: the newest change is undone and removed.\<close>

definition rollbackOne :: "'d Env \<Rightarrow> ('d, unit) stm" where
  "rollbackOne E = bindS getS (\<lambda>s. let change = last (m_changeLog s) in
    bindS (State_account E (changeAddress change)) (\<lambda>r.
    bindS (assertS AssertionFailed (r \<noteq> None)) (\<lambda>_.
    bindS (undoChange E change) (\<lambda>_.
    modS (\<lambda>s. s\<lparr>m_changeLog := butlast (m_changeLog s)\<rparr>)))))"

text \<open>Every iteration removes one entry, so the loop runs as often as there are entries to remove.\<close>

fun rollbackLoop :: "'d Env \<Rightarrow> nat \<Rightarrow> ('d, unit) stm" where
  "rollbackLoop E 0 = retS ()"
| "rollbackLoop E (Suc n) = bindS (rollbackOne E) (\<lambda>_. rollbackLoop E n)"

definition State_rollback :: "'d Env \<Rightarrow> nat \<Rightarrow> ('d, unit) stm" where
  "State_rollback E sp = bindS getS (\<lambda>s.
    bindS (assertS AssertionFailed (sp \<le> length (m_changeLog s))) (\<lambda>_.
    bindS (rollbackLoop E (length (m_changeLog s) - sp)) (\<lambda>_.
    bindS (modS clearFileStorageCache) (\<lambda>_.
    if \<not> working E ContractStoragePatch then modS resetStorageChanges else retS ()))))"

subsection \<open>Commit\<close>

datatype CommitBehaviour = KeepEmptyAccounts | RemoveEmptyAccounts

definition removeEmptyAccounts :: "'d Env \<Rightarrow> 'd State \<Rightarrow> 'd State" where
  "removeEmptyAccounts E s = s\<lparr>m_cache := map (\<lambda>(a, x).
     (a, if isDirty x \<and> Account_isEmpty (sha3 E) x then Account_kill (sha3 E) x else x)) (m_cache s)\<rparr>"

text \<open>
  The record of an account.  A negative counter cannot be converted to a byte: boost throws
  \<open>std::range_error\<close>.
\<close>

definition encodeAccount :: "Account \<Rightarrow> state_error + bytes" where
  "encodeAccount x =
    (if m_storageUsed x < 0 then Inl RangeError
     else mapErr StateRLP
       (bindE (appendList 4 RLPStream_new) (\<lambda>r. bindE (append_int (unat (m_nonce x)) r) (\<lambda>r.
        bindE (append_int (unat (m_balance x)) r) (\<lambda>r. bindE (append_int (unat (m_codeHash x)) r) (\<lambda>r.
        bindE (append_int (nat (m_storageUsed x)) r) stream_out))))))"

definition updDb :: "('d OverlayDB \<Rightarrow> 'd OverlayDB) \<Rightarrow> ('d, unit) stm" where
  "updDb f = modS (\<lambda>s. s\<lparr>m_db := f (m_db s)\<rparr>)"

definition commitAccount :: "'d Env \<Rightarrow> address \<Rightarrow> ('d, unit) stm" where
  "commitAccount E a = bindS getS (\<lambda>s. case map_of (m_cache s) a of
     None \<Rightarrow> retS ()
   | Some x \<Rightarrow>
       if \<not> isDirty x then retS ()
       else if \<not> m_isAlive x then
         bindS (updDb (OverlayDB_kill E a)) (\<lambda>_. bindS (updDb (OverlayDB_killAuxiliary E a CODE)) (\<lambda>_.
         if working E StorageDestructionPatch then State_clearStorage E a else retS ()))
       else
         bindS (liftS (encodeAccount x)) (\<lambda>rawValue. bindS (updDb (OverlayDB_insert a rawValue)) (\<lambda>_.
         bindS (updDb (fold (\<lambda>(k, v). OverlayDB_insertStorage a k v) (m_storageOverlay x))) (\<lambda>_.
         if m_hasNewCode x then updDb (OverlayDB_insertAuxiliary a (m_codeCache x) CODE) else retS ()))))"

definition State_commit :: "'d Env \<Rightarrow> CommitBehaviour \<Rightarrow> ('d, unit) stm" where
  "State_commit E behaviour =
    bindS (if behaviour = RemoveEmptyAccounts then modS (removeEmptyAccounts E) else retS ()) (\<lambda>_.
    bindS getS (\<lambda>s.
    if \<not> m_db_write_lock s then throwS AttemptToWriteToNotLockedStateObject
    else if \<not> checkVersion s then throwS AttemptToWriteToStateInThePast
    else bindS (forS (map fst (m_cache s)) (commitAccount E)) (\<lambda>_.
      bindS (modS (\<lambda>s. s\<lparr>m_db := OverlayDB_updateStorageUsage (totalStorageUsed s) (m_db s),
        m_storedVersion := m_storedVersion s + 1\<rparr>)) (\<lambda>_.
      bindS getS (\<lambda>s. case OverlayDB_commit E (m_db s) of
        None \<Rightarrow> throwS ProcessExit
      | Some db \<Rightarrow> modS (\<lambda>s. s\<lparr>m_db := db, m_currentVersion := m_storedVersion s, m_changeLog := [],
          m_cache := [], m_unchangedCacheEntries := []\<rparr>))))))"

subsection \<open>Storage accounting and genesis\<close>

definition State_updateStorageUsage :: "'d Env \<Rightarrow> ('d, unit) stm" where
  "State_updateStorageUsage E = bindS getS (\<lambda>s.
    bindS (forS (storageUsage s) (\<lambda>(a, v). bindS (State_account E a) (\<lambda>r. case r of
      Some _ \<Rightarrow> updAccount a (Account_updateStorageUsage v) | None \<Rightarrow> retS ()))) (\<lambda>_.
    modS resetStorageChanges))"

definition State_storageUsed :: "'d Env \<Rightarrow> address \<Rightarrow> ('d, int) stm" where
  "State_storageUsed E a = bindS (State_account E a) (\<lambda>r. retS (case r of
     Some x \<Rightarrow> m_storageUsed x | None \<Rightarrow> 0))"

definition populateAccount :: "'d Env \<Rightarrow> address \<times> Account \<Rightarrow> ('d, unit) stm" where
  "populateAccount E = (\<lambda>(a, x).
    if \<not> isDirty x then retS ()
    else if \<not> m_isAlive x then throwS LogicError
    else bindS (State_setNonce E a (m_nonce x)) (\<lambda>_.
      bindS (State_setBalance E a (m_balance x)) (\<lambda>_.
      bindS (forS (m_storageOverlay x) (\<lambda>(k, v). State_setStorage E a k v)) (\<lambda>_.
      bindS (if m_hasNewCode x then State_setCode E a (m_codeCache x) (m_version x) else retS ()) (\<lambda>_.
      bindS (modS (\<lambda>s. s\<lparr>totalStorageUsed := totalStorageUsed s + currentStorageUsed s\<rparr>)) (\<lambda>_.
      State_updateStorageUsage E))))))"

definition State_populateFrom :: "'d Env \<Rightarrow> (address \<times> Account) list \<Rightarrow> ('d, unit) stm" where
  "State_populateFrom E m =
    bindS (forS m (populateAccount E)) (\<lambda>_. State_commit E KeepEmptyAccounts)"

subsection \<open>Enumeration\<close>

definition recordBalance :: "bytes \<Rightarrow> rlp_error + u256" where
  "recordBalance raw = bindE (RLP_ctor VeryStrict raw) (\<lambda>d.
    bindE (subscript d 1 initCache) (\<lambda>(r, c). bindE (toInt 32 Strict r) (\<lambda>n. Inr (of_nat n))))"

definition State_addresses :: "'d Env \<Rightarrow> ('d, (address \<times> u256) list) stm" where
  "State_addresses E = bindS getS (\<lambda>s.
    if \<not> checkVersion s then throwS AttemptToReadFromStateInThePast
    else bindS (liftS (mapErr StateRLP (foldE (\<lambda>(a, raw) m. bindE (recordBalance raw) (\<lambda>b.
        Inr (AList.update a b m))) (OverlayDB_accounts E (m_db s)) []))) (\<lambda>m.
      retS (fold (\<lambda>(a, x). AList.update a (m_balance x)) (m_cache s) m)))"

text \<open>A page of the addresses in the order of their hashes, and the hash at which the next one starts.\<close>

definition State_addressesFrom ::
    "'d Env \<Rightarrow> h256 \<Rightarrow> nat \<Rightarrow> ('d, (h256, address) omap \<times> h256) stm" where
  "State_addressesFrom E begin' maxResults = bindS (State_addresses E) (\<lambda>balances. bindS getS (\<lambda>s.
    let alive = filter (\<lambda>(a, _). case map_of (m_cache s) a of Some x \<Rightarrow> m_isAlive x | None \<Rightarrow> True) balances;
        m = omap_from begin' (fold (\<lambda>(a, _). omap_put (sha3 E (h160_bytes a)) a) alive [])
    in retS (if maxResults < length m then (take maxResults m, fst (m ! maxResults)) else (m, 0))))"

subsection \<open>Copies\<close>

definition updateToLatestVersion :: "'d State \<Rightarrow> 'd State" where
  "updateToLatestVersion s = s\<lparr>m_changeLog := [], m_cache := [], m_unchangedCacheEntries := [],
     m_nonExistingAccountsCache := {}, m_currentVersion := m_storedVersion s\<rparr>"

text \<open>
  The copy constructor: the counters of the transaction start anew, the total is read
  from the database, and the file-system overlay is not copied.
\<close>

definition State_copy :: "'d Env \<Rightarrow> 'd State \<Rightarrow> 'd State" where
  "State_copy E s = s\<lparr>m_db_write_lock := False, m_fs := None, storageUsage := [],
     currentStorageUsed := 0, totalStorageUsed := OverlayDB_storageUsed E (m_db s)\<rparr>"

definition createStateReadOnlyCopy :: "'d Env \<Rightarrow> 'd State \<Rightarrow> 'd State" where
  "createStateReadOnlyCopy E s = updateToLatestVersion (State_copy E s)"

definition createStateModifyCopy :: "'d Env \<Rightarrow> 'd State \<Rightarrow> 'd State" where
  "createStateModifyCopy E s = updateToLatestVersion ((State_copy E s)\<lparr>m_db_write_lock := True\<rparr>)"

definition releaseWriteLock :: "'d State \<Rightarrow> 'd State" where
  "releaseWriteLock s = s\<lparr>m_db_write_lock := False\<rparr>"

text \<open>The original, which gives up its lock, and the copy.\<close>

definition createStateModifyCopyAndPassLock :: "'d Env \<Rightarrow> 'd State \<Rightarrow> 'd State \<times> 'd State" where
  "createStateModifyCopyAndPassLock E s =
    (if m_db_write_lock s
     then (s\<lparr>m_db_write_lock := False\<rparr>, (State_copy E s)\<lparr>m_db_write_lock := True\<rparr>)
     else (s, createStateModifyCopy E s))"

definition createNewCopyWithLocks :: "'d Env \<Rightarrow> 'd State \<Rightarrow> 'd State \<times> 'd State" where
  "createNewCopyWithLocks E s =
    (let (s, copy) = (if m_db_write_lock s then createStateModifyCopyAndPassLock E s else (s, State_copy E s))
     in (s, updateToLatestVersion copy))"

text \<open>\<open>operator=\<close>: lock and transaction counters of the target stay.\<close>

definition State_assign :: "'d Env \<Rightarrow> 'd State \<Rightarrow> 'd State \<Rightarrow> 'd State" where
  "State_assign E t s = s\<lparr>m_db_write_lock := m_db_write_lock t, storageUsage := storageUsage t,
     currentStorageUsed := currentStorageUsed t, totalStorageUsed := OverlayDB_storageUsed E (m_db s)\<rparr>"

definition setStorageLimit :: "int \<Rightarrow> 'd State \<Rightarrow> 'd State" where
  "setStorageLimit n s = s\<lparr>contractStorageLimit := n\<rparr>"

definition resetOverlayFS :: "bool \<Rightarrow> 'd State \<Rightarrow> 'd State" where
  "resetOverlayFS enableCache s = s\<lparr>m_fs := Some (OverlayFS_new enableCache)\<rparr>"

definition safeLastExecutedTransactionHash :: "'d Env \<Rightarrow> 'd State \<Rightarrow> h256 \<times> 'd State" where
  "safeLastExecutedTransactionHash E s =
    (let (h, db) = getLastExecutedTransactionHash E (m_db s) in (h, s\<lparr>m_db := db\<rparr>))"

definition State_connected :: "'d State \<Rightarrow> bool" where
  "State_connected s = OverlayDB_connected (m_db s)"

definition State_empty :: "'d Env \<Rightarrow> 'd State \<Rightarrow> bool" where
  "State_empty E s = (m_cache s = [] \<and> OverlayDB_empty E (m_db s))"

datatype BaseState = PreExisting | Empty

definition State_new ::
    "'d Env \<Rightarrow> u256 \<Rightarrow> 'd OverlayDB \<Rightarrow> BaseState \<Rightarrow> u256 \<Rightarrow> int \<Rightarrow> (nat \<Rightarrow> nat) \<Rightarrow> 'd State option" where
  "State_new E accountStartNonce db bs initialFunds limit rng =
    map_option (\<lambda>db'. \<lparr>m_db = db', m_fs = None, m_db_write_lock = False, m_storedVersion = 0,
      m_currentVersion = 0, m_cache = [], m_unchangedCacheEntries = [],
      m_nonExistingAccountsCache = {}, m_accountStartNonce = accountStartNonce, m_changeLog = [],
      m_initial_funds = initialFunds, contractStorageLimit = limit, storageUsage = [],
      totalStorageUsed = OverlayDB_storageUsed E db, currentStorageUsed = 0, codeSizeCache = [],
      s_fixedHashEngine = rng\<rparr>)
    (if bs = Empty then OverlayDB_clearDB E db else Some db)"

end
