(* ===== verification/State_View.thy ===== *)
theory State_View
  imports State
begin

text \<open>
  What a \<open>State\<close> stands for.  The cache, the list of its clean entries, the set of addresses
  known not to exist and the cache of original values only hold copies: the view of a state
  maps each address to the nonce, balance, code, storage and used storage of its account, and \<open>state_ok\<close> says
  that every copy agrees with the database.  Loading and evicting accounts then keep the view.
\<close>

record AccountView =
  v_nonce :: u256
  v_balance :: u256
  v_codeHash :: h256
  v_code :: bytes
  v_storage :: "u256 \<Rightarrow> u256"
  v_used :: int

type_synonym views = "address \<Rightarrow> AccountView option"

subsection \<open>Views\<close>

definition accStorage :: "'d Env \<Rightarrow> 'd OverlayDB \<Rightarrow> address \<Rightarrow> Account \<Rightarrow> u256 \<Rightarrow> u256" where
  "accStorage E db a x k = (case map_of (m_storageOverlay x) k of
     Some v \<Rightarrow> v
   | None \<Rightarrow> (case map_of (m_storageOriginal x) k of
       Some v \<Rightarrow> v | None \<Rightarrow> OverlayDB_lookupStorage E db a k))"

definition accCode :: "'d Env \<Rightarrow> 'd OverlayDB \<Rightarrow> address \<Rightarrow> Account \<Rightarrow> bytes" where
  "accCode E db a x =
    (if m_codeHash x = EmptySHA3 (sha3 E) then []
     else if m_codeCache x = [] then OverlayDB_lookupAuxiliary E db a CODE else m_codeCache x)"

definition viewOf :: "'d Env \<Rightarrow> 'd OverlayDB \<Rightarrow> address \<Rightarrow> Account \<Rightarrow> AccountView" where
  "viewOf E db a x = \<lparr>v_nonce = m_nonce x, v_balance = m_balance x, v_codeHash = m_codeHash x,
     v_code = accCode E db a x, v_storage = accStorage E db a x, v_used = m_storageUsed x\<rparr>"

text \<open>The account the database holds.\<close>

definition dbAccount :: "'d Env \<Rightarrow> 'd OverlayDB \<Rightarrow> address \<Rightarrow> Account option" where
  "dbAccount E db a = (let r = OverlayDB_lookup E db a in if r = [] then None
    else case decodeAccount E r of Inl _ \<Rightarrow> None | Inr x \<Rightarrow> Some x)"

definition peek :: "'d Env \<Rightarrow> 'd State \<Rightarrow> address \<Rightarrow> Account option" where
  "peek E s a = (case map_of (m_cache s) a of Some x \<Rightarrow> Some x | None \<Rightarrow> dbAccount E (m_db s) a)"

definition view :: "'d Env \<Rightarrow> 'd State \<Rightarrow> views" where
  "view E s a = map_option (viewOf E (m_db s) a) (peek E s a)"

definition dbView :: "'d Env \<Rightarrow> 'd OverlayDB \<Rightarrow> views" where
  "dbView E db a = map_option (viewOf E db a) (dbAccount E db a)"

subsection \<open>The invariant\<close>

definition db_ok :: "'d Env \<Rightarrow> 'd OverlayDB \<Rightarrow> bool" where
  "db_ok E db \<longleftrightarrow> (\<forall>a. OverlayDB_lookup E db a \<noteq> [] \<longrightarrow>
    (\<exists>x. decodeAccount E (OverlayDB_lookup E db a) = Inr x \<and>
      (m_codeHash x \<noteq> EmptySHA3 (sha3 E) \<longrightarrow>
        sha3 E (OverlayDB_lookupAuxiliary E db a CODE) = m_codeHash x)))"

definition acc_ok :: "'d Env \<Rightarrow> 'd OverlayDB \<Rightarrow> address \<Rightarrow> Account \<Rightarrow> bool" where
  "acc_ok E db a x \<longleftrightarrow>
    (m_isUnchanged x \<longrightarrow> dbView E db a = Some (viewOf E db a x)) \<and>
    (\<forall>k v. map_of (m_storageOriginal x) k = Some v \<longrightarrow> v = OverlayDB_lookupStorage E db a k) \<and>
    distinct (map fst (m_storageOverlay x)) \<and>
    sha3 E (accCode E db a x) = m_codeHash x \<and>
    (m_codeHash x \<noteq> EmptySHA3 (sha3 E) \<longrightarrow>
      (if m_hasNewCode x then m_codeCache x \<noteq> []
       else m_codeCache x \<in> {[], OverlayDB_lookupAuxiliary E db a CODE}))"

definition state_ok :: "'d Env \<Rightarrow> 'd State \<Rightarrow> bool" where
  "state_ok E s \<longleftrightarrow>
    checkVersion s \<and> db_ok E (m_db s) \<and> distinct (map fst (m_cache s)) \<and>
    (\<forall>a\<in>m_nonExistingAccountsCache s. OverlayDB_lookup E (m_db s) a = [] \<and> map_of (m_cache s) a = None) \<and>
    (\<forall>a x. map_of (m_cache s) a = Some x \<longrightarrow> acc_ok E (m_db s) a x)"

text \<open>The accounts with changes that are not in the database.\<close>

definition dirtyIn :: "'d State \<Rightarrow> address set" where
  "dirtyIn s = {a. \<exists>x. map_of (m_cache s) a = Some x \<and> isDirty x}"

text \<open>\<open>t\<close> differs from \<open>s\<close> in what it has cached only.\<close>

definition cached :: "'d State \<Rightarrow> 'd State \<Rightarrow> bool" where
  "cached s t \<longleftrightarrow> m_db t = m_db s \<and> m_changeLog t = m_changeLog s \<and>
     m_initial_funds t = m_initial_funds s \<and> m_accountStartNonce t = m_accountStartNonce s \<and>
     storageUsage t = storageUsage s \<and> totalStorageUsed t = totalStorageUsed s \<and>
     currentStorageUsed t = currentStorageUsed s \<and> contractStorageLimit t = contractStorageLimit s \<and>
     m_storedVersion t = m_storedVersion s \<and> m_currentVersion t = m_currentVersion s \<and>
     m_db_write_lock t = m_db_write_lock s \<and> m_fs t = m_fs s \<and> dirtyIn s \<subseteq> dirtyIn t"

lemma cached_refl [simp]: "cached s s"
  by (simp add: cached_def)

lemma cached_fields:
  "cached s t \<Longrightarrow> m_db t = m_db s" "cached s t \<Longrightarrow> m_changeLog t = m_changeLog s"
  "cached s t \<Longrightarrow> m_initial_funds t = m_initial_funds s"
  "cached s t \<Longrightarrow> m_accountStartNonce t = m_accountStartNonce s"
  "cached s t \<Longrightarrow> storageUsage t = storageUsage s"
  "cached s t \<Longrightarrow> totalStorageUsed t = totalStorageUsed s"
  "cached s t \<Longrightarrow> currentStorageUsed t = currentStorageUsed s"
  "cached s t \<Longrightarrow> contractStorageLimit t = contractStorageLimit s"
  "cached s t \<Longrightarrow> m_storedVersion t = m_storedVersion s"
  "cached s t \<Longrightarrow> m_currentVersion t = m_currentVersion s"
  "cached s t \<Longrightarrow> m_db_write_lock t = m_db_write_lock s"
  "cached s t \<Longrightarrow> m_fs t = m_fs s"
  "cached s t \<Longrightarrow> dirtyIn s \<subseteq> dirtyIn t"
  by (simp_all add: cached_def)

lemma dbView_Some:
  "db_ok E db \<Longrightarrow> OverlayDB_lookup E db a \<noteq> [] \<Longrightarrow>
   \<exists>x. decodeAccount E (OverlayDB_lookup E db a) = Inr x \<and> dbAccount E db a = Some x"
  unfolding db_ok_def dbAccount_def Let_def by (metis sum.simps(6))

lemma decodeAccount_fresh:
  "decodeAccount E r = Inr x \<Longrightarrow> m_isUnchanged x \<and> m_isAlive x \<and> m_codeCache x = [] \<and>
    m_storageOriginal x = [] \<and> m_storageOverlay x = [] \<and> \<not> m_hasNewCode x"
  by (auto simp: decodeAccount_def res_simps account_defs split: prod.splits)

lemma acc_ok_db:
  assumes "db_ok E db" "OverlayDB_lookup E db a \<noteq> []" "decodeAccount E (OverlayDB_lookup E db a) = Inr x"
  shows "acc_ok E db a x"
  using assms decodeAccount_fresh [OF assms(3)]
  by (auto simp: acc_ok_def dbView_def dbAccount_def Let_def db_ok_def accCode_def EmptySHA3_def)

text \<open>A state whose cache maps one address anew.\<close>

lemma view_put:
  assumes "map_of (m_cache t) = (map_of (m_cache s))(a \<mapsto> y)" "m_db t = m_db s"
  shows "view E t = (view E s)(a \<mapsto> viewOf E (m_db s) a y)"
  using assms by (auto simp: view_def peek_def fun_eq_iff split: option.split)

lemma state_ok_put:
  assumes "state_ok E s" "map_of (m_cache t) = (map_of (m_cache s))(a \<mapsto> y)"
    "distinct (map fst (m_cache t))" "m_db t = m_db s"
    "m_nonExistingAccountsCache t \<subseteq> m_nonExistingAccountsCache s" "a \<notin> m_nonExistingAccountsCache t"
    "m_storedVersion t = m_storedVersion s" "m_currentVersion t = m_currentVersion s"
    "acc_ok E (m_db s) a y"
  shows "state_ok E t"
  using assms by (auto simp: state_ok_def checkVersion_def split: if_splits)

subsection \<open>Loading\<close>

definition evictedFrom :: "('k \<times> Account) list \<Rightarrow> ('k \<times> Account) list \<Rightarrow> bool" where
  "evictedFrom c c' \<longleftrightarrow> (\<forall>a. map_of c' a = map_of c a \<or>
    map_of c' a = None \<and> (\<exists>x. map_of c a = Some x \<and> m_isUnchanged x))"

lemma evictedFrom_trans: "evictedFrom c d \<Longrightarrow> evictedFrom d e \<Longrightarrow> evictedFrom c e"
  unfolding evictedFrom_def by metis

lemma evict_keeps:
  assumes "evict es c rng = (es', c', rng')" "distinct (map fst c)"
  shows "distinct (map fst c') \<and> evictedFrom c c'"
  using assms
proof (induction es c rng rule: evict.induct)
  case (1 es c rng)
  show ?case
  proof (cases "1000 < length es")
    case False
    then show ?thesis using 1(2,3) by (simp add: evict.simps [of es] evictedFrom_def)
  next
    case True
    obtain i rng1 where d: "drawRandom (length es) rng = (i, rng1)" by fastforce
    define c1 where "c1 = (case map_of c (es ! i) of
      Some x \<Rightarrow> if \<not> isDirty x then AList.delete (es ! i) c else c | None \<Rightarrow> c)"
    have e: "evict (butlast (es[i := last es])) c1 rng1 = (es', c', rng')"
      using 1(2) True d by (simp add: evict.simps [of es] Let_def c1_def)
    have "distinct (map fst c1)"
      using 1(3) by (auto simp: c1_def distinct_delete split: option.split)
    then have "distinct (map fst c') \<and> evictedFrom c1 c'"
      using 1(1) [OF True refl d [symmetric] refl refl _ e] by (simp add: c1_def)
    moreover have "evictedFrom c c1"
      by (auto simp: c1_def evictedFrom_def delete_conv' isDirty_def split: option.split)
    ultimately show ?thesis using evictedFrom_trans by blast
  qed
qed

text \<open>The state after \<open>account(a)\<close> returned \<open>r\<close>.\<close>

definition loaded :: "'d Env \<Rightarrow> address \<Rightarrow> 'd State \<Rightarrow> Account option \<Rightarrow> 'd State \<Rightarrow> bool" where
  "loaded E a s r t \<longleftrightarrow> state_ok E t \<and> cached s t \<and> view E t = view E s \<and>
    map_of (m_cache t) a = r \<and> (r = None \<longrightarrow> view E s a = None)"

lemma clearCache_loaded:
  assumes "state_ok E s"
  shows "state_ok E (clearCacheIfTooLarge s)" "cached s (clearCacheIfTooLarge s)"
    "view E (clearCacheIfTooLarge s) = view E s"
    "map_of (m_cache s) a = None \<Longrightarrow> map_of (m_cache (clearCacheIfTooLarge s)) a = None"
proof -
  let ?t = "clearCacheIfTooLarge s"
  obtain es' c' rng' where e: "evict (m_unchangedCacheEntries s) (m_cache s) (s_fixedHashEngine s) = (es', c', rng')"
    by (metis prod_cases3)
  have t: "?t = s\<lparr>m_unchangedCacheEntries := es', m_cache := c', s_fixedHashEngine := rng'\<rparr>"
    by (simp add: clearCacheIfTooLarge_def e)
  have k: "distinct (map fst c')"
    "\<And>a. map_of c' a = map_of (m_cache s) a \<or>
      map_of c' a = None \<and> (\<exists>x. map_of (m_cache s) a = Some x \<and> m_isUnchanged x)"
    using evict_keeps [OF e] assms unfolding state_ok_def evictedFrom_def by blast+
  have "map_of c' a = Some x" if "map_of (m_cache s) a = Some x" "\<not> m_isUnchanged x" for a x
    using k(2) [of a] that by auto
  then show "cached s ?t"
    by (auto simp: t cached_def dirtyIn_def isDirty_def)
  show "state_ok E ?t"
  proof -
    have "map_of (m_cache s) a = Some x" if "map_of c' a = Some x" for a x
      using k(2) [of a] that by auto
    moreover have "map_of c' a = None" if "map_of (m_cache s) a = None" for a
      using k(2) [of a] that by auto
    ultimately show ?thesis
      using assms k(1) unfolding state_ok_def by (simp add: t checkVersion_def)
  qed
  show "view E ?t = view E s"
  proof
    fix a
    show "view E ?t a = view E s a"
    proof (cases "map_of c' a = map_of (m_cache s) a")
      case True
      then show ?thesis by (simp add: t view_def peek_def split: option.split)
    next
      case False
      with k(2) [of a] obtain x where x: "map_of c' a = None" "map_of (m_cache s) a = Some x" "m_isUnchanged x"
        by auto
      then have "acc_ok E (m_db s) a x" using assms by (simp add: state_ok_def)
      with x show ?thesis by (simp add: t view_def peek_def acc_ok_def dbView_def)
    qed
  qed
  show "map_of (m_cache s) a = None \<Longrightarrow> map_of (m_cache ?t) a = None"
    using k(2) [of a] by (simp add: t)
qed

lemma cached_trans: "cached s t \<Longrightarrow> cached t u \<Longrightarrow> cached s u"
  by (auto simp: cached_def)

lemma account_wp:
  assumes ok: "state_ok E s"
  shows "wpS (State_account E a) (\<lambda>e t. False) (loaded E a s) s"
proof (cases "map_of (m_cache s) a")
  case (Some x)
  then show ?thesis using ok by (simp add: State_account_def effS loaded_def)
next
  case None
  let ?r = "OverlayDB_lookup E (m_db s) a"
  have ver: "checkVersion s" using ok by (simp add: state_ok_def)
  show ?thesis
  proof (cases "?r = []")
    case True
    let ?t = "s\<lparr>m_nonExistingAccountsCache := insert a (m_nonExistingAccountsCache s)\<rparr>"
    have "view E ?t = view E s" by (simp add: view_def peek_def fun_eq_iff split: option.split)
    moreover have "state_ok E ?t" using ok True None by (simp add: state_ok_def checkVersion_def)
    moreover have "view E s a = None" using None True by (simp add: view_def peek_def dbAccount_def)
    ultimately show ?thesis
      using None True ver ok by (simp add: State_account_def effS loaded_def cached_def dirtyIn_def)
  next
    case False
    have new: "a \<notin> m_nonExistingAccountsCache s" using ok False by (auto simp: state_ok_def)
    obtain x where x: "decodeAccount E ?r = Inr x" "dbAccount E (m_db s) a = Some x"
      using ok False dbView_Some [of E "m_db s" a] by (auto simp: state_ok_def)
    let ?c = "clearCacheIfTooLarge s"
    let ?t = "?c\<lparr>m_cache := AList.update a x (m_cache ?c),
        m_unchangedCacheEntries := m_unchangedCacheEntries ?c @ [a]\<rparr>"
    note c = clearCache_loaded [OF ok]
    have N: "m_nonExistingAccountsCache ?c = m_nonExistingAccountsCache s"
      by (simp add: clearCacheIfTooLarge_def split: prod.split)
    have db: "m_db ?c = m_db s" using cached_fields(1) [OF c(2)] .
    have "acc_ok E (m_db s) a x"
      using ok False x(1) by (intro acc_ok_db) (auto simp: state_ok_def)
    moreover have "distinct (map fst (m_cache ?c))" using c(1) by (simp add: state_ok_def)
    ultimately have "state_ok E ?t"
      by (intro state_ok_put [OF c(1), where a = a and y = x])
        (use new N in \<open>simp_all add: db update_conv' distinct_update\<close>)
    moreover have "view E ?t = view E s"
    proof -
      have "view E s a = Some (viewOf E (m_db s) a x)"
        using None x(2) by (simp add: view_def peek_def)
      moreover have "view E ?t = (view E ?c)(a \<mapsto> viewOf E (m_db ?c) a x)"
        by (rule view_put) (simp_all add: update_conv')
      ultimately show ?thesis by (simp add: db c(3) fun_upd_idem)
    qed
    moreover have "cached s ?t"
      using c(2) None by (auto simp: cached_def dirtyIn_def update_conv')
    ultimately show ?thesis
      using None False ver new x(1)
      by (simp add: State_account_def effS mapErr_def loaded_def update_conv')
  qed
qed

text \<open>A rule to step over a load in a larger computation.\<close>

lemma account_step:
  assumes "state_ok E s"
    "\<And>r t. loaded E a s r t \<Longrightarrow> Q r t"
  shows "wpS (State_account E a) F Q s"
  by (rule wpS_mono [OF account_wp [OF assms(1)]]) (use assms(2) in auto)

end
