(* ===== verification/State_Journal.thy ===== *)
theory State_Journal
  imports State_View
begin

text \<open>
  The change log as a journal over views.  \<open>undoView\<close> is what undoing an entry does to the view,
  \<open>jvalid\<close> says that a log (newest entry first) can be undone entry by entry, and \<open>jinv\<close> is the
  invariant of a state: its caches agree with the database and its whole log can be undone.
  \<open>grows E s t\<close> relates a state to any later one: the log has only become longer, undoing the
  new entries leads back to the view of \<open>s\<close>, and does not clean an account that was dirty in \<open>s\<close>.
\<close>

definition atView :: "address \<Rightarrow> (AccountView \<Rightarrow> AccountView) \<Rightarrow> views \<Rightarrow> views" where
  "atView a f V = V(a := map_option f (V a))"

fun undoView :: "hashfun \<Rightarrow> Change \<Rightarrow> views \<Rightarrow> views" where
  "undoView h (Balance a v) V = atView a (\<lambda>x. x\<lparr>v_balance := v_balance x - v\<rparr>) V"
| "undoView h (Storage a k v) V = atView a (\<lambda>x. x\<lparr>v_storage := (v_storage x)(k := v)\<rparr>) V"
| "undoView h (StorageRoot a v) V = V"
| "undoView h (Nonce a n) V = atView a (\<lambda>x. x\<lparr>v_nonce := n\<rparr>) V"
| "undoView h (Create a) V = V(a := None)"
| "undoView h (Code a c) V = atView a (\<lambda>x. x\<lparr>v_codeHash := EmptySHA3 h, v_code := []\<rparr>) V"
| "undoView h (Touch a) V = V"

fun cleans :: "Change \<Rightarrow> address set" where
  "cleans (Create a) = {a}"
| "cleans (Touch a) = {a}"
| "cleans _ = {}"

text \<open>
  When an entry can be undone; \<open>B\<close> is the view of the database, to which a created or touched
  account returns, and \<open>D\<close> are the dirty accounts: code is only reset in one of them, since
  \<open>resetCode\<close> does not mark the account.  The code never logs a \<open>StorageRoot\<close>.
\<close>

fun canUndo :: "views \<Rightarrow> Change \<Rightarrow> views \<Rightarrow> address set \<Rightarrow> bool" where
  "canUndo B (Create a) V D \<longleftrightarrow> V a \<noteq> None \<and> B a = None"
| "canUndo B (Touch a) V D \<longleftrightarrow> B a \<noteq> None \<and> V a = B a"
| "canUndo B (Code a c) V D \<longleftrightarrow> V a \<noteq> None \<and> a \<in> D"
| "canUndo B (StorageRoot a v) V D \<longleftrightarrow> False"
| "canUndo B c V D \<longleftrightarrow> V (changeAddress c) \<noteq> None"

fun junwind :: "hashfun \<Rightarrow> Change list \<Rightarrow> views \<Rightarrow> views" where
  "junwind h [] V = V"
| "junwind h (c # cs) V = junwind h cs (undoView h c V)"

fun jvalid :: "hashfun \<Rightarrow> views \<Rightarrow> Change list \<Rightarrow> views \<Rightarrow> address set \<Rightarrow> bool" where
  "jvalid h B [] V D \<longleftrightarrow> True"
| "jvalid h B (c # cs) V D \<longleftrightarrow> canUndo B c V D \<and> jvalid h B cs (undoView h c V) (D - cleans c)"

lemma junwind_append: "junwind h (cs @ ds) V = junwind h ds (junwind h cs V)"
  by (induction cs arbitrary: V) auto

lemma jvalid_append:
  "jvalid h B (cs @ ds) V D \<longleftrightarrow>
   jvalid h B cs V D \<and> jvalid h B ds (junwind h cs V) (D - (\<Union>c\<in>set cs. cleans c))"
  by (induction cs arbitrary: V D) (auto simp: Diff_eq Int_assoc)

lemma canUndo_mono: "canUndo B c V D \<Longrightarrow> D \<subseteq> D' \<Longrightarrow> canUndo B c V D'"
  by (induction B c V D rule: canUndo.induct) auto

lemma jvalid_mono: "jvalid h B cs V D \<Longrightarrow> D \<subseteq> D' \<Longrightarrow> jvalid h B cs V D'"
proof (induction cs arbitrary: V D D')
  case (Cons c cs)
  have "jvalid h B cs (undoView h c V) (D - cleans c)" "D - cleans c \<subseteq> D' - cleans c"
    using Cons.prems by auto
  then have "jvalid h B cs (undoView h c V) (D' - cleans c)" by (rule Cons.IH)
  with Cons.prems canUndo_mono [of B c V D D'] show ?case by simp
qed simp

text \<open>The counters of used storage, which a rollback restores under the contract storage patch.\<close>

type_synonym usage = "(address \<Rightarrow> int) \<times> int"

definition use :: "'d State \<Rightarrow> usage" where
  "use s = (usageOf (storageUsage s), currentStorageUsed s)"

fun addUse :: "address \<Rightarrow> int \<Rightarrow> usage \<Rightarrow> usage" where
  "addUse a n (f, c) = (f(a := f a + n), c + n)"

fun undoUse :: "Change \<Rightarrow> views \<Rightarrow> usage \<Rightarrow> usage" where
  "undoUse (Storage a k v) V u = (case V a of None \<Rightarrow> u
    | Some x \<Rightarrow> addUse a (slotCount (v_storage x k) v * 32) u)"
| "undoUse _ V u = u"

fun uwind :: "hashfun \<Rightarrow> Change list \<Rightarrow> views \<Rightarrow> usage \<Rightarrow> usage" where
  "uwind h [] V u = u"
| "uwind h (c # cs) V u = uwind h cs (undoView h c V) (undoUse c V u)"

lemma uwind_append: "uwind h (cs @ ds) V u = uwind h ds (junwind h cs V) (uwind h cs V u)"
  by (induction cs arbitrary: V u) auto

definition jinv :: "'d Env \<Rightarrow> 'd State \<Rightarrow> bool" where
  "jinv E s \<longleftrightarrow> state_ok E s \<and>
    jvalid (sha3 E) (dbView E (m_db s)) (rev (m_changeLog s)) (view E s) (dirtyIn s)"

definition grows :: "'d Env \<Rightarrow> 'd State \<Rightarrow> 'd State \<Rightarrow> bool" where
  "grows E s t \<longleftrightarrow> jinv E t \<and> m_db t = m_db s \<and> m_initial_funds t = m_initial_funds s \<and>
    m_accountStartNonce t = m_accountStartNonce s \<and>
    dirtyIn s \<subseteq> dirtyIn t \<and>
    (\<exists>new. m_changeLog t = m_changeLog s @ new \<and> junwind (sha3 E) (rev new) (view E t) = view E s \<and>
      (working E ContractStoragePatch \<longrightarrow> uwind (sha3 E) (rev new) (view E t) (use t) = use s) \<and>
      (\<forall>c\<in>set new. cleans c \<inter> dirtyIn s = {}))"

lemma grows_refl: "jinv E s \<Longrightarrow> grows E s s"
  by (simp add: grows_def)

lemma grows_jinv: "grows E s t \<Longrightarrow> jinv E t"
  by (simp add: grows_def)

lemma grows_trans: "grows E s t \<Longrightarrow> grows E t u \<Longrightarrow> grows E s u"
  unfolding grows_def
  apply (elim conjE exE)
  subgoal for new new'
    by (intro conjI exI [of _ "new @ new'"]) (auto simp: junwind_append uwind_append, blast+)
  done

subsection \<open>Fields that the view does not depend on\<close>

lemma view_fields [simp]:
  "view E (s\<lparr>m_changeLog := l\<rparr>) = view E s"
  "view E (s\<lparr>m_unchangedCacheEntries := es\<rparr>) = view E s"
  "view E (s\<lparr>storageUsage := u\<rparr>) = view E s"
  "view E (s\<lparr>currentStorageUsed := n\<rparr>) = view E s"
  "view E (s\<lparr>totalStorageUsed := n\<rparr>) = view E s"
  "view E (s\<lparr>m_fs := fs\<rparr>) = view E s"
  "view E (s\<lparr>m_nonExistingAccountsCache := N\<rparr>) = view E s"
  by (simp_all add: view_def peek_def fun_eq_iff split: option.split)

lemma state_ok_fields [simp]:
  "state_ok E (s\<lparr>m_changeLog := l\<rparr>) = state_ok E s"
  "state_ok E (s\<lparr>m_unchangedCacheEntries := es\<rparr>) = state_ok E s"
  "state_ok E (s\<lparr>storageUsage := u\<rparr>) = state_ok E s"
  "state_ok E (s\<lparr>currentStorageUsed := n\<rparr>) = state_ok E s"
  "state_ok E (s\<lparr>totalStorageUsed := n\<rparr>) = state_ok E s"
  "state_ok E (s\<lparr>m_fs := fs\<rparr>) = state_ok E s"
  by (simp_all add: state_ok_def checkVersion_def)

lemma dirtyIn_fields [simp]:
  "dirtyIn (s\<lparr>m_changeLog := l\<rparr>) = dirtyIn s"
  "dirtyIn (s\<lparr>m_unchangedCacheEntries := es\<rparr>) = dirtyIn s"
  "dirtyIn (s\<lparr>storageUsage := u\<rparr>) = dirtyIn s"
  "dirtyIn (s\<lparr>currentStorageUsed := n\<rparr>) = dirtyIn s"
  "dirtyIn (s\<lparr>totalStorageUsed := n\<rparr>) = dirtyIn s"
  "dirtyIn (s\<lparr>m_fs := fs\<rparr>) = dirtyIn s"
  by (simp_all add: dirtyIn_def)

lemma use_fields [simp]:
  "use (s\<lparr>m_changeLog := l\<rparr>) = use s"
  "use (s\<lparr>m_unchangedCacheEntries := es\<rparr>) = use s"
  "use (s\<lparr>m_cache := c\<rparr>) = use s"
  "use (s\<lparr>m_nonExistingAccountsCache := N\<rparr>) = use s"
  "use (s\<lparr>m_fs := fs\<rparr>) = use s"
  by (simp_all add: use_def)

lemma jinv_ok: "jinv E s \<Longrightarrow> state_ok E s"
  by (simp add: jinv_def)

text \<open>A computation that only fills caches.\<close>

lemma jinv_cached:
  assumes "jinv E s" "state_ok E t" "cached s t" "view E t = view E s"
  shows "grows E s t" "jinv E t"
proof -
  have "jvalid (sha3 E) (dbView E (m_db s)) (rev (m_changeLog s)) (view E s) (dirtyIn t)"
    using assms(1,3) unfolding jinv_def cached_def by (blast intro: jvalid_mono)
  then show "grows E s t" "jinv E t"
    using assms by (auto simp: grows_def jinv_def cached_def use_def)
qed

lemma jinv_loaded: "jinv E s \<Longrightarrow> loaded E a s r t \<Longrightarrow> grows E s t \<and> jinv E t"
  using jinv_cached [of E s t] by (simp add: loaded_def)

text \<open>A computation that adds entries.\<close>

lemma growsI:
  assumes "jinv E s" "state_ok E t" "m_db t = m_db s" "m_initial_funds t = m_initial_funds s"
    "m_accountStartNonce t = m_accountStartNonce s" "m_changeLog t = m_changeLog s @ new"
    "jvalid (sha3 E) (dbView E (m_db s)) (rev new) (view E t) (dirtyIn t)"
    "junwind (sha3 E) (rev new) (view E t) = view E s"
    "uwind (sha3 E) (rev new) (view E t) (use t) = use s"
    "dirtyIn s \<subseteq> dirtyIn t" "\<forall>c\<in>set new. cleans c \<inter> dirtyIn s = {}"
  shows "grows E s t"
proof -
  have "dirtyIn s \<subseteq> dirtyIn t - (\<Union>c\<in>set new. cleans c)" using assms(10,11) by auto
  then have "jvalid (sha3 E) (dbView E (m_db s)) (rev (m_changeLog s)) (view E s)
      (dirtyIn t - (\<Union>c\<in>set new. cleans c))"
    using assms(1) unfolding jinv_def by (blast intro: jvalid_mono)
  then show ?thesis using assms by (auto simp: grows_def jinv_def jvalid_append)
qed

subsection \<open>Updates of one account\<close>

lemma wpS_updAccount [effS]:
  "wpS (updAccount a f) F Q = (\<lambda>s. Q () (s\<lparr>m_cache := AList.map_entry a f (m_cache s)\<rparr>))"
  by (simp add: updAccount_def effS)

lemma wpS_logChange [effS]:
  "wpS (logChange c) F Q = (\<lambda>s. Q () (s\<lparr>m_changeLog := m_changeLog s @ [c]\<rparr>))"
  by (simp add: logChange_def effS)

lemma map_of_map_entry:
  "map_of xs a = Some x \<Longrightarrow> map_of (AList.map_entry a f xs) = (map_of xs)(a \<mapsto> f x)"
  by (induction xs) (auto simp: fun_eq_iff)

lemma upd_dirty:
  assumes "map_of (m_cache s) a = Some x" "isDirty x \<Longrightarrow> isDirty (f x)"
  shows "dirtyIn s \<subseteq> dirtyIn (s\<lparr>m_cache := AList.map_entry a f (m_cache s)\<rparr>)"
  using assms by (auto simp: dirtyIn_def map_of_map_entry)

lemma upd_ok:
  assumes "state_ok E s" "map_of (m_cache s) a = Some x" "acc_ok E (m_db s) a (f x)"
  shows "state_ok E (s\<lparr>m_cache := AList.map_entry a f (m_cache s)\<rparr>)"
    "view E (s\<lparr>m_cache := AList.map_entry a f (m_cache s)\<rparr>) = (view E s)(a \<mapsto> viewOf E (m_db s) a (f x))"
proof -
  let ?t = "s\<lparr>m_cache := AList.map_entry a f (m_cache s)\<rparr>"
  have d: "distinct (map fst (m_cache s))" using assms(1) by (simp add: state_ok_def)
  have m: "map_of (m_cache ?t) = (map_of (m_cache s))(a \<mapsto> f x)"
    using map_of_map_entry [OF assms(2)] by simp
  have "distinct (map fst (m_cache ?t))" using d by (simp add: distinct_map_entry)
  then show "state_ok E ?t"
    using m assms by (intro state_ok_put [OF assms(1), where a = a and y = "f x"]) (auto simp: state_ok_def)
  show "view E ?t = (view E s)(a \<mapsto> viewOf E (m_db s) a (f x))"
    using m by (intro view_put) simp_all
qed

lemma view_at: "map_of (m_cache s) a = Some x \<Longrightarrow> view E s a = Some (viewOf E (m_db s) a x)"
  by (simp add: view_def peek_def)

lemma loaded_view: "loaded E a s (Some x) t \<Longrightarrow> view E s a = Some (viewOf E (m_db s) a x)"
  using view_at [of t a x E] by (simp add: loaded_def cached_def)

end
