(* ===== verification/State_Ops.thy ===== *)
theory State_Ops
  imports State_Journal
begin

text \<open>
  The operations of \<open>State\<close> on views: each either throws a documented exception or does to the view
  what its name says, and in both cases the log can be undone to where it was.
\<close>

lemmas account_view = viewOf_def accStorage_def accCode_def account_defs

lemma acc_ok_same:
  assumes "acc_ok E db a x" "m_isUnchanged y \<Longrightarrow> dbView E db a = Some (viewOf E db a y)" "m_codeHash y = m_codeHash x" "m_codeCache y = m_codeCache x"
    "m_hasNewCode y = m_hasNewCode x" "m_storageOriginal y = m_storageOriginal x"
    "distinct (map fst (m_storageOverlay y))"
  shows "acc_ok E db a y"
proof -
  have "accCode E db a y = accCode E db a x" using assms by (simp add: accCode_def)
  with assms show ?thesis unfolding acc_ok_def by auto
qed

lemma acc_ok_basic:
  assumes "acc_ok E db a x"
  shows "acc_ok E db a (Account_incNonce x)" "acc_ok E db a (Account_setNonce n x)"
    "acc_ok E db a (Account_addBalance v x)" "acc_ok E db a (Account_setStorage k v x)"
    "acc_ok E db a (Account_updateStorageUsage i x)" "acc_ok E db a (Account_changed x)"
  by (rule acc_ok_same [OF assms]; use assms in \<open>simp add: account_defs acc_ok_def distinct_update\<close>)+

lemma isDirty_ops [simp]:
  "isDirty (Account_incNonce x)" "isDirty (Account_setNonce n x)" "isDirty (Account_addBalance v x)"
  "isDirty (Account_setStorage k v x)" "isDirty (Account_new h n b Changed)"
  "isDirty (Account_setStorageCache k v x) = isDirty x" "isDirty (Account_noteCode c x) = isDirty x"
  "isDirty (Account_setCode h c w x) = isDirty x" "isDirty (Account_resetCode h x) = isDirty x"
  by (simp_all add: account_defs Let_def)

lemma acc_ok_new: "acc_ok E db a (Account_new (sha3 E) n b Changed)"
  by (simp add: acc_ok_def accCode_def account_defs EmptySHA3_def)

lemma loaded_acc_ok: "loaded E a s (Some x) t \<Longrightarrow> acc_ok E (m_db s) a x"
  by (auto simp: loaded_def cached_def state_ok_def)

lemma viewOf_basic:
  "viewOf E db a (Account_incNonce x) = (viewOf E db a x)\<lparr>v_nonce := m_nonce x + 1\<rparr>"
  "viewOf E db a (Account_setNonce n x) = (viewOf E db a x)\<lparr>v_nonce := n\<rparr>"
  "viewOf E db a (Account_addBalance v x) = (viewOf E db a x)\<lparr>v_balance := m_balance x + v\<rparr>"
  "viewOf E db a (Account_setStorage k v x) = (viewOf E db a x)\<lparr>v_storage := (accStorage E db a x)(k := v)\<rparr>"
  "viewOf E db a (Account_updateStorageUsage i x) = (viewOf E db a x)\<lparr>v_used := m_storageUsed x + i\<rparr>"
  "viewOf E db a (Account_untouch x) = viewOf E db a x"
  by (auto simp: account_view update_conv' fun_eq_iff split: option.split)

lemma viewOf_sel [simp]:
  "v_nonce (viewOf E db a x) = m_nonce x" "v_balance (viewOf E db a x) = m_balance x"
  "v_codeHash (viewOf E db a x) = m_codeHash x" "v_code (viewOf E db a x) = accCode E db a x"
  "v_storage (viewOf E db a x) = accStorage E db a x" "v_used (viewOf E db a x) = m_storageUsed x"
  by (simp_all add: viewOf_def)

text \<open>The fresh account that \<open>createAccount\<close> puts into the cache: its storage is what the database has.\<close>

definition newView :: "'d Env \<Rightarrow> 'd OverlayDB \<Rightarrow> address \<Rightarrow> u256 \<Rightarrow> u256 \<Rightarrow> AccountView" where
  "newView E db a n b = \<lparr>v_nonce = n, v_balance = b, v_codeHash = EmptySHA3 (sha3 E), v_code = [],
     v_storage = OverlayDB_lookupStorage E db a, v_used = 0\<rparr>"

lemma viewOf_new: "viewOf E db a (Account_new (sha3 E) n b c) = newView E db a n b"
  by (auto simp: account_view newView_def fun_eq_iff)

subsection \<open>Reading\<close>

lemma load_step:
  assumes "jinv E s"
    and "\<And>x t. loaded E a s (Some x) t \<Longrightarrow> grows E s t \<Longrightarrow> cached s t \<Longrightarrow> m_db t = m_db s \<Longrightarrow>
      view E s a = Some (viewOf E (m_db s) a x) \<Longrightarrow> Q (Some x) t"
    and "\<And>t. loaded E a s None t \<Longrightarrow> grows E s t \<Longrightarrow> cached s t \<Longrightarrow> m_db t = m_db s \<Longrightarrow>
      view E s a = None \<Longrightarrow> m_initial_funds t = m_initial_funds s \<Longrightarrow>
      m_accountStartNonce t = m_accountStartNonce s \<Longrightarrow> Q None t"
  shows "wpS (State_account E a) F Q s"
proof (rule account_step [OF jinv_ok [OF assms(1)]])
  fix r t
  assume l: "loaded E a s r t"
  then have c: "cached s t" by (simp add: loaded_def)
  note f = cached_fields [OF c] and g = jinv_loaded [OF assms(1) l]
  show "Q r t"
  proof (cases r)
    case None
    with l have "loaded E a s None t" "view E s a = None" by (auto simp: loaded_def)
    with None c f g assms(3) show ?thesis by blast
  next
    case (Some x)
    with l have "loaded E a s (Some x) t" by simp
    with Some c f g assms(2) loaded_view show ?thesis by blast
  qed
qed

text \<open>A result that depends on the view only, computed without a visible change.\<close>

definition reads :: "'d Env \<Rightarrow> 'd State \<Rightarrow> 'a \<Rightarrow> ('a \<Rightarrow> 'd State \<Rightarrow> bool)" where
  "reads E s v = (\<lambda>x t. x = v \<and> grows E s t \<and> cached s t \<and> view E t = view E s)"

lemma readsI: "loaded E a s r t \<Longrightarrow> grows E s t \<Longrightarrow> w = v \<Longrightarrow> reads E s v w t"
  by (simp add: reads_def loaded_def)

definition balanceOf :: "'d Env \<Rightarrow> 'd State \<Rightarrow> address \<Rightarrow> u256" where
  "balanceOf E s a = (case view E s a of Some x \<Rightarrow> v_balance x | None \<Rightarrow> m_initial_funds s)"

definition nonceOf :: "'d Env \<Rightarrow> 'd State \<Rightarrow> address \<Rightarrow> u256" where
  "nonceOf E s a = (case view E s a of Some x \<Rightarrow> v_nonce x | None \<Rightarrow> m_accountStartNonce s)"

definition storageOf :: "'d Env \<Rightarrow> 'd State \<Rightarrow> address \<Rightarrow> u256 \<Rightarrow> u256" where
  "storageOf E s a k = (case view E s a of Some x \<Rightarrow> v_storage x k | None \<Rightarrow> 0)"

definition codeOf :: "'d Env \<Rightarrow> 'd State \<Rightarrow> address \<Rightarrow> bytes" where
  "codeOf E s a = (case view E s a of Some x \<Rightarrow> v_code x | None \<Rightarrow> [])"

definition codeHashOf :: "'d Env \<Rightarrow> 'd State \<Rightarrow> address \<Rightarrow> h256" where
  "codeHashOf E s a = (case view E s a of Some x \<Rightarrow> v_codeHash x | None \<Rightarrow> EmptySHA3 (sha3 E))"

definition emptyView :: "'d Env \<Rightarrow> AccountView \<Rightarrow> bool" where
  "emptyView E x \<longleftrightarrow> v_nonce x = 0 \<and> v_balance x = 0 \<and> v_codeHash x = EmptySHA3 (sha3 E)"

lemma balance_wp: "jinv E s \<Longrightarrow> wpS (State_balance E a) F (reads E s (balanceOf E s a)) s"
  unfolding State_balance_def wpS_bind
  by (rule load_step) (auto simp: effS balanceOf_def intro: readsI)

lemma getNonce_wp: "jinv E s \<Longrightarrow> wpS (State_getNonce E a) F (reads E s (nonceOf E s a)) s"
  unfolding State_getNonce_def wpS_bind
  by (rule load_step) (auto simp: effS nonceOf_def intro: readsI)

lemma codeHash_wp: "jinv E s \<Longrightarrow> wpS (State_codeHash E a) F (reads E s (codeHashOf E s a)) s"
  unfolding State_codeHash_def wpS_bind
  by (rule load_step) (auto simp: effS codeHashOf_def intro: readsI)

lemma addressInUse_wp: "jinv E s \<Longrightarrow> wpS (State_addressInUse E a) F (reads E s (view E s a \<noteq> None)) s"
  unfolding State_addressInUse_def wpS_bind
  by (rule load_step) (auto simp: effS intro: readsI)

lemma addressHasCode_wp:
  "jinv E s \<Longrightarrow> wpS (State_addressHasCode E a) F (reads E s (codeHashOf E s a \<noteq> EmptySHA3 (sha3 E))) s"
  unfolding State_addressHasCode_def wpS_bind
  by (rule load_step) (auto simp: effS codeHashOf_def intro: readsI)

lemma accountNonemptyAndExisting_wp:
  "jinv E s \<Longrightarrow> wpS (State_accountNonemptyAndExisting E a) F
    (reads E s (\<exists>x. view E s a = Some x \<and> \<not> emptyView E x)) s"
  unfolding State_accountNonemptyAndExisting_def wpS_bind
  by (rule load_step) (auto simp: effS emptyView_def Account_isEmpty_def intro: readsI)

text \<open>Noting something in the loaded account.\<close>

lemma note_reads:
  assumes i: "jinv E s" and l: "loaded E a s (Some x) t"
    and f: "acc_ok E (m_db s) a (f x)" "viewOf E (m_db s) a (f x) = viewOf E (m_db s) a x"
      "isDirty x \<Longrightarrow> isDirty (f x)"
  shows "reads E s v v (t\<lparr>m_cache := AList.map_entry a f (m_cache t)\<rparr>)"
proof -
  let ?t = "t\<lparr>m_cache := AList.map_entry a f (m_cache t)\<rparr>"
  have t: "state_ok E t" "map_of (m_cache t) a = Some x" "cached s t" "view E t = view E s"
    using l by (simp_all add: loaded_def)
  note db = cached_fields(1) [OF t(3)]
  have ok: "state_ok E ?t" "view E ?t = view E s"
    using upd_ok [OF t(1,2), of f] f loaded_view [OF l] t(4)
    by (simp_all add: db fun_upd_idem)
  moreover have "cached s ?t" using t(3) upd_dirty [OF t(2), of f] f(3) by (auto simp: cached_def)
  ultimately show ?thesis
    using jinv_cached [OF i] by (simp add: reads_def)
qed

lemma checkVersion_loaded: "jinv E s \<Longrightarrow> loaded E a s r t \<Longrightarrow> checkVersion t"
  by (simp add: loaded_def state_ok_def)

lemma loadStorage_wp:
  assumes "jinv E s" "loaded E a s (Some x) t" "map_of (m_storageOriginal x) k = None"
  shows "wpS (loadStorage E a k) F (reads E s (OverlayDB_lookupStorage E (m_db s) a k)) t"
proof -
  let ?v = "OverlayDB_lookupStorage E (m_db s) a k"
  have db: "m_db t = m_db s" using assms(2) by (simp add: loaded_def cached_def)
  have "acc_ok E (m_db s) a (Account_setStorageCache k ?v x)"
    using loaded_acc_ok [OF assms(2)]
    by (auto simp: acc_ok_def Account_setStorageCache_def update_conv' account_view fun_eq_iff
        split: if_splits option.split)
  moreover have "viewOf E (m_db s) a (Account_setStorageCache k ?v x) = viewOf E (m_db s) a x"
    using assms(3) by (auto simp: account_view update_conv' fun_eq_iff split: option.split)
  ultimately show ?thesis
    using checkVersion_loaded [OF assms(1,2)] note_reads [OF assms(1,2), of "Account_setStorageCache k ?v"]
    by (simp add: loadStorage_def effS db Let_def)
qed

lemma storage_wp: "jinv E s \<Longrightarrow> wpS (State_storage E a k) F (reads E s (storageOf E s a k)) s"
  unfolding State_storage_def wpS_bind
proof (rule load_step, goal_cases)
  case (2 x t)
  then have st: "storageOf E s a k = accStorage E (m_db s) a x k" by (simp add: storageOf_def)
  show ?case
    using 2 readsI [OF 2(2,3) refl, of "storageOf E s a k"]
      loadStorage_wp [OF 2(1,2), of k F]
    by (auto simp: effS st accStorage_def split: option.split)
next
  case (3 t)
  then show ?case by (auto simp: effS storageOf_def intro: readsI)
qed

lemma originalStorageValue_wp:
  "jinv E s \<Longrightarrow> wpS (State_originalStorageValue E a k) F
    (reads E s (if view E s a = None then 0 else OverlayDB_lookupStorage E (m_db s) a k)) s"
  unfolding State_originalStorageValue_def wpS_bind
proof (rule load_step, goal_cases)
  case (2 x t)
  then have "map_of (m_storageOriginal x) k = Some v \<Longrightarrow> v = OverlayDB_lookupStorage E (m_db s) a k" for v
    using loaded_acc_ok [OF 2(2)] by (simp add: acc_ok_def)
  then show ?case
    using 2 readsI [OF 2(2,3) refl] loadStorage_wp [OF 2(1,2), of k F]
    by (auto simp: effS split: option.split)
next
  case (3 t)
  then show ?case by (auto simp: effS intro: readsI)
qed

lemma store_same:
  obtains c r where "CodeSizeCache_store hk n t = t\<lparr>codeSizeCache := c, s_fixedHashEngine := r\<rparr>"
proof -
  have "CodeSizeCache_store hk n t = t\<lparr>codeSizeCache := codeSizeCache (CodeSizeCache_store hk n t),
      s_fixedHashEngine := s_fixedHashEngine (CodeSizeCache_store hk n t)\<rparr>"
    by (simp add: CodeSizeCache_store_def Let_def)
  then show ?thesis by (rule that)
qed

lemma reads_store: "reads E s v w t \<Longrightarrow> reads E s v w (CodeSizeCache_store hk n t)"
proof (rule store_same [of hk n t])
  fix c r
  assume a: "reads E s v w t" "CodeSizeCache_store hk n t = t\<lparr>codeSizeCache := c, s_fixedHashEngine := r\<rparr>"
  let ?t = "t\<lparr>codeSizeCache := c, s_fixedHashEngine := r\<rparr>"
  have "view E ?t = view E t" by (simp add: view_def peek_def fun_eq_iff split: option.split)
  moreover have "state_ok E ?t = state_ok E t" by (simp add: state_ok_def checkVersion_def)
  moreover have "dirtyIn ?t = dirtyIn t" by (simp add: dirtyIn_def)
  ultimately show ?thesis
    using a by (auto simp: reads_def grows_def jinv_def cached_def use_def)
qed

lemma viewOf_noteCode:
  assumes "c = OverlayDB_lookupAuxiliary E db a CODE" "c \<noteq> []" "m_codeHash x \<noteq> EmptySHA3 (sha3 E)"
    "m_codeCache x = []"
  shows "viewOf E db a (Account_noteCode c x) = viewOf E db a x"
proof -
  have "accStorage E db a (Account_noteCode c x) = accStorage E db a x"
    by (simp add: accStorage_def Account_noteCode_def fun_eq_iff split: option.split)
  with assms show ?thesis by (simp add: viewOf_def accCode_def Account_noteCode_def)
qed

lemma acc_ok_noteCode:
  assumes "acc_ok E db a x" "viewOf E db a (Account_noteCode c x) = viewOf E db a x" "c \<noteq> []"
    "c = OverlayDB_lookupAuxiliary E db a CODE"
  shows "acc_ok E db a (Account_noteCode c x)"
proof -
  have "accCode E db a (Account_noteCode c x) = accCode E db a x" using assms(2) by (simp add: viewOf_def)
  with assms show ?thesis unfolding acc_ok_def assms(2) by (simp add: Account_noteCode_def)
qed

lemma code_wp: "jinv E s \<Longrightarrow> wpS (State_code E a) F (reads E s (codeOf E s a)) s"
  unfolding State_code_def wpS_bind
proof (rule load_step, goal_cases)
  case (2 x t)
  let ?c = "OverlayDB_lookupAuxiliary E (m_db s) a CODE"
  have code: "codeOf E s a = accCode E (m_db s) a x" using 2 by (simp add: codeOf_def)
  note rd = readsI [OF 2(2,3) refl, of "codeOf E s a"]
  show ?case
  proof (cases "m_codeHash x = EmptySHA3 (sha3 E) \<or> m_codeCache x \<noteq> []")
    case True
    then show ?thesis using rd by (auto simp: effS code accCode_def)
  next
    case False
    have ok: "sha3 E ?c = m_codeHash x" "acc_ok E (m_db s) a x"
      using loaded_acc_ok [OF 2(2)] False by (auto simp: acc_ok_def accCode_def)
    have h: "m_codeHash x \<noteq> EmptySHA3 (sha3 E)" "m_codeCache x = []" using False by simp_all
    have c: "?c \<noteq> []" using ok(1) h(1) unfolding EmptySHA3_def by metis
    note v = viewOf_noteCode [OF refl c h]
    note rd' = note_reads [where f = "Account_noteCode ?c" and v = "codeOf E s a",
        OF 2(1,2) acc_ok_noteCode [OF ok(2) v c refl] v, simplified]
    have "codeOf E s a = ?c" using h by (simp add: code accCode_def)
    with h ok(1) checkVersion_loaded [OF 2(1,2)] reads_store [OF rd'] show ?thesis
      by (simp add: effS 2(5) Let_def)
  qed
next
  case (3 t)
  then show ?case by (auto simp: effS codeOf_def intro: readsI)
qed

lemma reads_trans: "reads E s v v t \<Longrightarrow> reads E t w x u \<Longrightarrow> reads E s w x u"
  using grows_trans by (fastforce simp: reads_def intro: cached_trans)

lemma reads_grows: "reads E s v w t \<Longrightarrow> grows E s t \<and> jinv E t \<and> view E t = view E s"
  by (auto simp: reads_def grows_def)

lemma codeSize_wp: "jinv E s \<Longrightarrow> wpS (State_codeSize E a) F (\<lambda>n t. reads E s n n t) s"
  unfolding State_codeSize_def wpS_bind
proof (rule load_step, goal_cases)
  case (2 x t)
  note rd = readsI [OF 2(2,3) refl]
  have vw: "view E t = view E s" using 2(2) by (simp add: loaded_def)
  have "jinv E t" using 2 grows_jinv by blast
  from code_wp [OF this, of a F] have "wpS (State_code E a) F (\<lambda>c u. reads E s c c u) t"
    by (rule wpS_mono) (auto simp: reads_def vw intro: grows_trans [OF 2(3)] cached_trans [OF 2(4)])
  then have "wpS (State_code E a) F (\<lambda>c u. reads E s (length c) (length c) u) t"
    by (rule wpS_mono) (auto simp: reads_def)
  then have "wpS (State_code E a) F (\<lambda>c u. reads E s (length c) (length c)
      (CodeSizeCache_store (m_codeHash x) (length c) u)) t"
    by (rule wpS_mono) (auto intro: reads_store)
  then show ?case using rd by (auto simp: effS split: option.split)
next
  case (3 t)
  then show ?case by (auto simp: effS intro: readsI)
qed

lemma version_wp: "jinv E s \<Longrightarrow> wpS (State_version E a) F (\<lambda>n t. reads E s n n t) s"
  unfolding State_version_def wpS_bind
  by (rule load_step) (auto simp: effS intro: readsI)

end
