(* ===== verification/State_Writes.thy ===== *)
theory State_Writes
  imports State_Ops
begin

text \<open>
  The operations that change accounts: what each does to the view, and that the entries it logs
  lead back.  \<open>writes E s V\<close> is the postcondition \<open>the view is now V, and the log can be undone\<close>;
  it also describes the exceptional exits, whose changes stay until a rollback.
\<close>

definition writes :: "'d Env \<Rightarrow> 'd State \<Rightarrow> views \<Rightarrow> 'd State \<Rightarrow> bool" where
  "writes E s V t \<longleftrightarrow> grows E s t \<and> view E t = V"

lemma writes_jinv: "writes E s V t \<Longrightarrow> jinv E t"
  by (auto simp: writes_def intro: grows_jinv)

lemma writes_refl: "jinv E s \<Longrightarrow> writes E s (view E s) s"
  by (simp add: writes_def grows_refl)

lemma writes_trans: "grows E s t \<Longrightarrow> writes E t V u \<Longrightarrow> writes E s V u"
  using grows_trans by (auto simp: writes_def)

text \<open>An exception that leaves the view as it is.\<close>

definition fails :: "'d Env \<Rightarrow> 'd State \<Rightarrow> state_error \<Rightarrow> bool \<Rightarrow> state_error \<Rightarrow> 'd State \<Rightarrow> bool" where
  "fails E s e b = (\<lambda>e' t. e' = e \<and> b \<and> writes E s (view E s) t)"

subsection \<open>One account anew in the cache\<close>

definition puts :: "address \<Rightarrow> Account \<Rightarrow> 'd State \<Rightarrow> 'd State \<Rightarrow> bool" where
  "puts a y s t \<longleftrightarrow> map_of (m_cache t) = (map_of (m_cache s))(a \<mapsto> y) \<and>
     distinct (map fst (m_cache t)) \<and> m_db t = m_db s \<and>
     m_nonExistingAccountsCache t \<subseteq> m_nonExistingAccountsCache s - {a} \<and>
     m_storedVersion t = m_storedVersion s \<and> m_currentVersion t = m_currentVersion s \<and>
     m_initial_funds t = m_initial_funds s \<and> m_accountStartNonce t = m_accountStartNonce s"

lemma puts_ok:
  assumes "puts a y s t" "state_ok E s" "acc_ok E (m_db s) a y"
  shows "state_ok E t" "view E t = (view E s)(a \<mapsto> viewOf E (m_db s) a y)"
  using assms state_ok_put [of E s t a y] view_put [of t s a y E] by (auto simp: puts_def)

lemma puts_dirty: "puts a y s t \<Longrightarrow> (a \<in> dirtyIn s \<Longrightarrow> isDirty y) \<Longrightarrow> dirtyIn s \<subseteq> dirtyIn t"
  by (auto simp: puts_def dirtyIn_def)

lemma puts_update:
  "state_ok E s \<Longrightarrow> puts a y s (s\<lparr>m_cache := AList.update a y (m_cache s),
     m_nonExistingAccountsCache := m_nonExistingAccountsCache s - {a}\<rparr>)"
  by (simp add: puts_def update_conv' distinct_update state_ok_def)

lemma puts_known:
  "state_ok E s \<Longrightarrow> map_of (m_cache s) a = Some x \<Longrightarrow> puts a y s (s\<lparr>m_cache := AList.update a y (m_cache s)\<rparr>)"
  by (auto simp: puts_def update_conv' distinct_update state_ok_def)

lemma puts_entry:
  "state_ok E s \<Longrightarrow> map_of (m_cache s) a = Some x \<Longrightarrow>
   puts a (f x) s (s\<lparr>m_cache := AList.map_entry a f (m_cache s)\<rparr>)"
  by (auto simp: puts_def map_of_map_entry distinct_map_entry state_ok_def)

lemma writes_put:
  assumes i: "jinv E s" and p: "puts a y s t" and y: "acc_ok E (m_db s) a y"
    and V: "V = (view E s)(a \<mapsto> viewOf E (m_db s) a y)"
    and l: "m_changeLog t = m_changeLog s @ new"
      "jvalid (sha3 E) (dbView E (m_db s)) (rev new) V (dirtyIn s)" "junwind (sha3 E) (rev new) V = view E s"
      "uwind (sha3 E) (rev new) V (use t) = use s"
    and d: "isDirty y \<or> a \<notin> dirtyIn s" "\<forall>c\<in>set new. cleans c \<inter> dirtyIn s = {}"
  shows "writes E s V t"
proof -
  note ok = puts_ok [OF p jinv_ok [OF i] y] and pd = puts_dirty [OF p]
  have "grows E s t"
    using p d(1) l d(2) pd jvalid_mono [OF l(2)]
    by (intro growsI [OF i ok(1), where new = new]) (auto simp: ok(2) V puts_def)
  then show ?thesis by (simp add: writes_def ok(2) V)
qed

text \<open>An account in the cache.\<close>

lemma cachedAccount:
  assumes "jinv E t" "map_of (m_cache t) a = Some x"
  shows "acc_ok E (m_db t) a x" "view E t a = Some (viewOf E (m_db t) a x)"
  using assms view_at [OF assms(2)] unfolding jinv_def state_ok_def by blast+

lemma writes_entry:
  assumes i: "jinv E t" and x: "map_of (m_cache t) a = Some x" and f: "acc_ok E (m_db t) a (f x)"
    and V: "V = (view E t)(a \<mapsto> viewOf E (m_db t) a (f x))"
    and l: "jvalid (sha3 E) (dbView E (m_db t)) (rev new) V (dirtyIn t)" "junwind (sha3 E) (rev new) V = view E t"
      "\<And>u. uwind (sha3 E) (rev new) V u = u"
    and d: "isDirty x \<Longrightarrow> isDirty (f x)" "\<forall>c\<in>set new. cleans c \<inter> dirtyIn t = {}"
  shows "writes E t V (t\<lparr>m_cache := AList.map_entry a f (m_cache t), m_changeLog := m_changeLog t @ new\<rparr>)"
proof -
  have "puts a (f x) t (t\<lparr>m_cache := AList.map_entry a f (m_cache t), m_changeLog := m_changeLog t @ new\<rparr>)"
    using puts_entry [OF jinv_ok [OF i] x, of f] by (simp add: puts_def)
  moreover have "isDirty (f x) \<or> a \<notin> dirtyIn t" using d(1) x by (auto simp: dirtyIn_def)
  ultimately show ?thesis
    using f l d(2) by (intro writes_put [OF i, where new = new]) (simp_all add: V)
qed

lemma createAccount_wp:
  assumes i: "jinv E s" and n: "view E s a = None"
  shows "wpS (State_createAccount E a (Account_new (sha3 E) n b Changed)) F
    (\<lambda>_ t. writes E s ((view E s)(a \<mapsto> newView E (m_db s) a n b)) t \<and>
      (\<forall>v. writes E s ((view E s)(a \<mapsto> newView E (m_db s) a n b))
        (t\<lparr>m_changeLog := m_changeLog t @ [Balance a v]\<rparr>))) s"
  unfolding State_createAccount_def State_addressInUse_def wpS_bind
proof (rule load_step [OF i], goal_cases)
  case (1 x t)
  then show ?case using n by simp
next
  case (2 t)
  let ?y = "Account_new (sha3 E) n b Changed"
  let ?V = "(view E s)(a \<mapsto> newView E (m_db s) a n b)"
  let ?t = "t\<lparr>m_cache := AList.update a ?y (m_cache t),
    m_nonExistingAccountsCache := m_nonExistingAccountsCache t - {a}, m_changeLog := m_changeLog t @ [Create a]\<rparr>"
  have t: "jinv E t" "map_of (m_cache t) a = None" "view E t = view E s"
    using 2 grows_jinv by (auto simp: loaded_def)
  have B: "dbView E (m_db t) a = None"
    using n t by (auto simp: view_def peek_def dbView_def dest!: fun_cong [of _ _ a])
  have nd: "a \<notin> dirtyIn t" using t(2) by (auto simp: dirtyIn_def)
  have w: "writes E t ?V (?t\<lparr>m_changeLog := m_changeLog t @ Create a # cs\<rparr>)" if "cs = [] \<or> (\<exists>v. cs = [Balance a v])" for cs
  proof (rule writes_put [OF t(1), where a = a and y = ?y and new = "Create a # cs"])
    show "puts a ?y t (?t\<lparr>m_changeLog := m_changeLog t @ Create a # cs\<rparr>)"
      using puts_update [OF jinv_ok [OF t(1)], of a ?y] by (auto simp: puts_def)
  qed (use that nd n B t(3) 2(4) in \<open>auto simp: acc_ok_new viewOf_new atView_def fun_upd_idem\<close>)
  have "writes E t ?V ?t" using w [of "[]"] by simp
  moreover have "writes E t ?V (?t\<lparr>m_changeLog := m_changeLog ?t @ [Balance a v]\<rparr>)" for v
    using w [of "[Balance a v]"] by simp
  ultimately show ?case
    using writes_trans [OF 2(2)] by (simp add: effS)
qed

subsection \<open>Nonces and balances\<close>

text \<open>The account that an operation on \<open>a\<close> starts from: a missing one is created with the initial values.\<close>

definition accountOf :: "'d Env \<Rightarrow> 'd State \<Rightarrow> address \<Rightarrow> AccountView" where
  "accountOf E s a = (case view E s a of Some x \<Rightarrow> x
    | None \<Rightarrow> newView E (m_db s) a (m_accountStartNonce s) (m_initial_funds s))"

definition noStart :: "'d Env \<Rightarrow> 'd State \<Rightarrow> address \<Rightarrow> bool" where
  "noStart E s a \<longleftrightarrow> m_accountStartNonce s = Invalid256 \<and> view E s a = None"

lemma newView_upd [simp]:
  "(newView E db a n b)\<lparr>v_nonce := m\<rparr> = newView E db a m b"
  "(newView E db a n b)\<lparr>v_balance := c\<rparr> = newView E db a n c"
  "v_nonce (newView E db a n b) = n" "v_balance (newView E db a n b) = b"
  by (simp_all add: newView_def)

lemma createAccount_next:
  assumes "jinv E s" "view E s a = None" "loaded E a s None t" "V = (view E s)(a \<mapsto> newView E (m_db s) a n b)"
  shows "wpS (State_createAccount E a (Account_new (sha3 E) n b Changed)) F
    (\<lambda>_ u. writes E s V u \<and> (\<forall>v. writes E s V (u\<lparr>m_changeLog := m_changeLog u @ [Balance a v]\<rparr>))) t"
proof -
  have t: "grows E s t" "view E t = view E s" "m_db t = m_db s"
    using jinv_loaded [OF assms(1,3)] assms(3) by (auto simp: loaded_def cached_def)
  show ?thesis
    by (rule wpS_mono [OF createAccount_wp [OF grows_jinv [OF t(1)]]])
      (use assms(2,4) t writes_trans [OF t(1)] in auto)
qed

lemma updNonce_writes:
  assumes i: "jinv E s" and l: "loaded E a s (Some x) t" "grows E s t" "m_db t = m_db s"
    and f: "acc_ok E (m_db s) a (f x)" "isDirty (f x)" "viewOf E (m_db s) a (f x) = (viewOf E (m_db s) a x)\<lparr>v_nonce := n\<rparr>"
  shows "writes E s ((view E s)(a \<mapsto> (accountOf E s a)\<lparr>v_nonce := n\<rparr>))
    (t\<lparr>m_cache := AList.map_entry a f (m_cache t), m_changeLog := m_changeLog t @ [Nonce a (m_nonce x)]\<rparr>)"
proof -
  have t: "jinv E t" "map_of (m_cache t) a = Some x" "view E t = view E s"
    using l grows_jinv by (auto simp: loaded_def)
  note x = loaded_view [OF l(1)]
  show ?thesis
    by (rule writes_trans [OF l(2) writes_entry [OF t(1,2)]])
      (use f l(3) t(3) x in \<open>auto simp: accountOf_def atView_def fun_upd_idem\<close>)
qed

lemma incNonce_wp:
  assumes i: "jinv E s"
  shows "wpS (State_incNonce E a) (fails E s InvalidAccountStartNonceInState (noStart E s a))
    (\<lambda>_ t. \<not> noStart E s a \<and> writes E s ((view E s)(a \<mapsto> (accountOf E s a)\<lparr>v_nonce := nonceOf E s a + 1\<rparr>)) t) s"
  unfolding State_incNonce_def wpS_bind
proof (rule load_step [OF i], goal_cases)
  case (1 x t)
  have "nonceOf E s a = m_nonce x" using 1 by (simp add: nonceOf_def)
  then show ?case
    using 1(5) updNonce_writes [OF i 1(1,2,4), of Account_incNonce] acc_ok_basic [OF loaded_acc_ok [OF 1(1)]]
    by (simp add: effS viewOf_basic noStart_def)
next
  case (2 t)
  then have *: "wpS (State_createAccount E a (Account_new (sha3 E) (nonceOf E s a + 1) (m_initial_funds s) Changed)) F
    (\<lambda>_. writes E s ((view E s)(a \<mapsto> (accountOf E s a)\<lparr>v_nonce := nonceOf E s a + 1\<rparr>))) t" for F
    by (intro wpS_mono [OF createAccount_next [OF i 2(5,1) refl]]) (auto simp: accountOf_def)
  have "writes E s (view E s) t" using 2 by (simp add: writes_def loaded_def)
  with 2 * show ?case
    by (simp add: requireAccountStartNonce_def effS fails_def noStart_def nonceOf_def)
qed

lemma setNonce_wp:
  assumes i: "jinv E s"
  shows "wpS (State_setNonce E a n) F
    (\<lambda>_. writes E s ((view E s)(a \<mapsto> (accountOf E s a)\<lparr>v_nonce := n\<rparr>))) s"
  unfolding State_setNonce_def wpS_bind
proof (rule load_step [OF i], goal_cases)
  case (1 x t)
  then show ?case
    using updNonce_writes [OF i 1(1,2,4), of "Account_setNonce n"] acc_ok_basic [OF loaded_acc_ok [OF 1(1)]]
    by (simp add: effS viewOf_basic)
next
  case (2 t)
  then have "wpS (State_createAccount E a (Account_new (sha3 E) n (m_initial_funds s) Changed)) F
    (\<lambda>_. writes E s ((view E s)(a \<mapsto> (accountOf E s a)\<lparr>v_nonce := n\<rparr>))) t"
    by (intro wpS_mono [OF createAccount_next [OF i 2(5,1) refl]]) (auto simp: accountOf_def)
  with 2 show ?case by (simp add: effS)
qed

lemma createContract_wp:
  assumes i: "jinv E s" and n: "view E s a = None"
  shows "wpS (State_createContract E a) (fails E s InvalidAccountStartNonceInState (noStart E s a))
    (\<lambda>_ t. \<not> noStart E s a \<and> writes E s ((view E s)(a \<mapsto> accountOf E s a)) t) s"
proof -
  have "wpS (State_createAccount E a (Account_new (sha3 E) (m_accountStartNonce s) (m_initial_funds s) Changed)) F
    (\<lambda>_. writes E s ((view E s)(a \<mapsto> accountOf E s a))) s" for F
    using n by (intro wpS_mono [OF createAccount_wp [OF i n]]) (auto simp: accountOf_def)
  then show ?thesis
    using n writes_refl [OF i]
    by (simp add: State_createContract_def requireAccountStartNonce_def effS fails_def noStart_def)
qed

lemma log_then_cache: "t\<lparr>m_changeLog := l, m_cache := c\<rparr> = t\<lparr>m_cache := c, m_changeLog := l\<rparr>"
  by simp

lemma addBalance_writes:
  assumes i: "jinv E t" and x: "map_of (m_cache t) a = Some x"
    and u: "puts a (Account_addBalance v x) t u" "use u = use t"
      "m_changeLog u = m_changeLog t @ (if \<not> isDirty x \<and> Account_isEmpty (sha3 E) x then [Touch a] else [])
        @ (if v \<noteq> 0 then [Balance a v] else [])"
  shows "writes E t ((view E t)(a \<mapsto> (viewOf E (m_db t) a x)\<lparr>v_balance := m_balance x + v\<rparr>)) u"
proof -
  note c = cachedAccount [OF i x]
  have B: "dbView E (m_db t) a = Some (viewOf E (m_db t) a x)" if "\<not> isDirty x"
    using c(1) that by (simp add: acc_ok_def isDirty_def)
  have "a \<notin> dirtyIn t" if "\<not> isDirty x" using x that by (auto simp: dirtyIn_def)
  moreover have "uwind (sha3 E) (rev ((if b then [Touch a] else []) @ (if v \<noteq> 0 then [Balance a v] else []))) V w = w"
    for V w b by auto
  moreover have "(viewOf E (m_db t) a x)\<lparr>v_balance := m_balance x\<rparr> = viewOf E (m_db t) a x"
    by (simp add: viewOf_def)
  ultimately show ?thesis
    using u B c acc_ok_basic(3) [OF c(1)]
    by (intro writes_put [OF i u(1) _ _ u(3)]) (auto simp: viewOf_basic atView_def fun_upd_idem)
qed

definition addBal :: "'d Env \<Rightarrow> 'd State \<Rightarrow> address \<Rightarrow> u256 \<Rightarrow> views" where
  "addBal E s a v = (view E s)(a \<mapsto> (accountOf E s a)\<lparr>v_balance := balanceOf E s a + v\<rparr>)"

lemma addBalance_wp:
  assumes i: "jinv E s"
  shows "wpS (State_addBalance E a v) (fails E s InvalidAccountStartNonceInState (noStart E s a))
    (\<lambda>_ t. \<not> noStart E s a \<and> writes E s (addBal E s a v) t) s"
  unfolding State_addBalance_def wpS_bind
proof (rule load_step [OF i], goal_cases)
  case (1 x t)
  let ?l = "m_changeLog t @ (if \<not> isDirty x \<and> Account_isEmpty (sha3 E) x then [Touch a] else [])"
  let ?u = "t\<lparr>m_cache := AList.map_entry a (Account_addBalance v) (m_cache t),
    m_changeLog := ?l @ (if v \<noteq> 0 then [Balance a v] else [])\<rparr>"
  have t: "jinv E t" "map_of (m_cache t) a = Some x" "view E t = view E s"
    using 1 grows_jinv by (auto simp: loaded_def)
  have "puts a (Account_addBalance v x) t ?u"
    using puts_entry [OF jinv_ok [OF t(1)] t(2), of "Account_addBalance v"] by (simp add: puts_def)
  then have "writes E t (addBal E s a v) ?u"
    using addBalance_writes [OF t(1,2), of v ?u] 1 t(3)
    by (simp add: addBal_def accountOf_def balanceOf_def)
  then have "writes E s (addBal E s a v) ?u" by (rule writes_trans [OF 1(2)])
  then show ?case using 1 by (auto simp: effS log_then_cache noStart_def)
next
  case (2 t)
  have "wpS (State_createAccount E a (Account_new (sha3 E) (m_accountStartNonce s) (m_initial_funds s + v) Changed)) F
    (\<lambda>_ u. writes E s (addBal E s a v) u \<and>
      (\<forall>w. writes E s (addBal E s a v) (u\<lparr>m_changeLog := m_changeLog u @ [Balance a w]\<rparr>))) t" for F
    using 2 by (intro createAccount_next [OF i 2(5,1)]) (simp add: addBal_def accountOf_def balanceOf_def)
  then have *: "wpS (State_createAccount E a (Account_new (sha3 E) (m_accountStartNonce s) (m_initial_funds s + v) Changed)) F
    (\<lambda>_ u. writes E s (addBal E s a v) (if v \<noteq> 0 then u\<lparr>m_changeLog := m_changeLog u @ [Balance a v]\<rparr> else u)) t" for F
    by (rule wpS_mono) auto
  have "writes E s (view E s) t" using 2 by (simp add: writes_def loaded_def)
  with 2 * show ?case
    by (cases "v = 0") (simp_all add: requireAccountStartNonce_def effS fails_def noStart_def)
qed

lemma subBalance_wp:
  assumes i: "jinv E s"
  shows "wpS (State_subBalance E a v)
    (fails E s NotEnoughCash (v \<noteq> 0 \<and> (view E s a = None \<or> balanceOf E s a < v)))
    (\<lambda>_ t. \<not> (v \<noteq> 0 \<and> (view E s a = None \<or> balanceOf E s a < v)) \<and>
      writes E s (if v = 0 then view E s else addBal E s a (- v)) t) s"
proof (cases "v = 0")
  case True
  then show ?thesis using writes_refl [OF i] by (simp add: State_subBalance_def effS)
next
  case False
  have "wpS (bindS (State_account E a) (\<lambda>r. case r of
       None \<Rightarrow> throwS NotEnoughCash
     | Some x \<Rightarrow> if m_balance x < v then throwS NotEnoughCash else State_addBalance E a (0 - v)))
    (fails E s NotEnoughCash (view E s a = None \<or> balanceOf E s a < v))
    (\<lambda>_ t. \<not> (view E s a = None \<or> balanceOf E s a < v) \<and> writes E s (addBal E s a (- v)) t) s"
    unfolding wpS_bind
  proof (rule load_step [OF i], goal_cases)
    case (1 x t)
    have t: "jinv E t" "view E t = view E s" "writes E s (view E s) t"
      using 1 grows_jinv by (auto simp: loaded_def writes_def)
    have "addBal E t a w = addBal E s a w" for w
      using 1 t(2) by (simp add: addBal_def accountOf_def balanceOf_def)
    then have "wpS (State_addBalance E a (- v)) F (\<lambda>_. writes E s (addBal E s a (- v))) t" for F
      using 1 t(2)
      by (intro wpS_mono [OF addBalance_wp [OF t(1)]])
        (auto simp: fails_def noStart_def intro: writes_trans [OF 1(2)])
    with 1 t(3) show ?case by (simp add: effS fails_def balanceOf_def)
  next
    case (2 t)
    then show ?case by (simp add: effS fails_def writes_def loaded_def)
  qed
  then show ?thesis using False by (simp add: State_subBalance_def)
qed

lemma balanceOf_view: "view E t = view E s \<Longrightarrow> m_initial_funds t = m_initial_funds s \<Longrightarrow> balanceOf E t a = balanceOf E s a"
  by (simp add: balanceOf_def split: option.split)

lemma accountOf_view:
  "view E t = view E s \<Longrightarrow> grows E s t \<Longrightarrow> accountOf E t a = accountOf E s a"
  by (simp add: accountOf_def grows_def split: option.split)

lemma addBal_view: "view E t = view E s \<Longrightarrow> grows E s t \<Longrightarrow> addBal E t a v = addBal E s a v"
  using balanceOf_view [of E t s] by (simp add: addBal_def accountOf_view) (simp add: grows_def)

text \<open>\<open>setBalance\<close> on a missing account adds the value to the initial funds.\<close>

lemma setBalance_wp:
  assumes i: "jinv E s"
  shows "wpS (State_setBalance E a v) (fails E s InvalidAccountStartNonceInState (noStart E s a))
    (\<lambda>_ t. \<not> noStart E s a \<and> writes E s ((view E s)(a \<mapsto> (accountOf E s a)\<lparr>v_balance :=
      (if view E s a = None then m_initial_funds s + v else v)\<rparr>)) t) s"
  unfolding State_setBalance_def wpS_bind Let_def
proof (rule load_step [OF i], goal_cases)
  case (1 x t)
  have t: "jinv E t" "view E t = view E s" using 1 grows_jinv by (auto simp: loaded_def)
  show ?case
    by (rule wpS_mono [OF addBalance_wp [OF t(1)]])
      (use 1 t(2) accountOf_view [OF t(2) 1(2)] writes_trans [OF 1(2)]
        in \<open>auto simp: fails_def noStart_def addBal_def balanceOf_def\<close>)
next
  case (2 t)
  have t: "jinv E t" "view E t = view E s" using 2 grows_jinv by (auto simp: loaded_def)
  show ?case
    by (rule wpS_mono [OF addBalance_wp [OF t(1)]])
      (use 2 t(2) accountOf_view [OF t(2) 2(2)] writes_trans [OF 2(2)]
        in \<open>auto simp: fails_def noStart_def addBal_def balanceOf_def\<close>)
qed

text \<open>A transfer subtracts first; the second half starts from what the first half left.\<close>

lemma transferBalance_wp:
  assumes i: "jinv E s"
  shows "wpS (State_transferBalance E src dst v)
    (\<lambda>e t. fails E s NotEnoughCash (v \<noteq> 0 \<and> (view E s src = None \<or> balanceOf E s src < v)) e t \<or>
      (\<exists>u. \<not> (v \<noteq> 0 \<and> (view E s src = None \<or> balanceOf E s src < v)) \<and>
        writes E s (if v = 0 then view E s else addBal E s src (- v)) u \<and>
        fails E u InvalidAccountStartNonceInState (noStart E u dst) e t))
    (\<lambda>_ t. \<exists>u. \<not> (v \<noteq> 0 \<and> (view E s src = None \<or> balanceOf E s src < v)) \<and>
      writes E s (if v = 0 then view E s else addBal E s src (- v)) u \<and>
      \<not> noStart E u dst \<and> writes E u (addBal E u dst v) t) s"
  unfolding State_transferBalance_def wpS_bind
proof (rule wpS_mono [OF subBalance_wp [OF i]], goal_cases)
  case (2 x u)
  then have "jinv E u" using writes_jinv by blast
  with 2 show ?case by (intro wpS_mono [OF addBalance_wp]) auto
qed auto

subsection \<open>Storage and code\<close>

lemma loadStorage_keeps:
  "map_of (m_cache t) a \<noteq> None \<Longrightarrow> wpS (loadStorage E a k) (\<lambda>_ _. True) (\<lambda>_ u. map_of (m_cache u) a \<noteq> None) t"
  by (auto simp: loadStorage_def effS Let_def map_of_map_entry)

lemma storage_keeps:
  assumes "jinv E s" "view E s a \<noteq> None"
  shows "wpS (State_storage E a k) (\<lambda>_ _. True) (\<lambda>_ t. map_of (m_cache t) a \<noteq> None) s"
  unfolding State_storage_def wpS_bind
proof (rule load_step [OF assms(1)], goal_cases)
  case (1 x t)
  then have "map_of (m_cache t) a \<noteq> None" by (simp add: loaded_def)
  with loadStorage_keeps [OF this] show ?case by (auto simp: effS split: option.split)
next
  case (2 t)
  then show ?case using assms(2) by simp
qed

lemma use_addUsage: "use (addUsage a n s) = addUse a n (use s)"
  by (auto simp: use_def addUsage_def usageOf_def update_conv')

lemma slotCount_back: "slotCount v c = - slotCount c v"
  by (auto simp: slotCount_def word_neq_0_conv)

lemma addUse_back: "addUse a n (addUse a (- n) u) = u"
  by (cases u) auto

definition setSto :: "'d Env \<Rightarrow> 'd State \<Rightarrow> address \<Rightarrow> u256 \<Rightarrow> u256 \<Rightarrow> views" where
  "setSto E s a k v = (view E s)(a := map_option (\<lambda>x. x\<lparr>v_storage := (v_storage x)(k := v)\<rparr>) (view E s a))"

lemma setStorage_writes:
  assumes i: "jinv E t" and x: "map_of (m_cache t) a = Some x"
  shows "writes E t (setSto E t a k v) (addUsage a (slotCount (storageOf E t a k) v * 32)
    (t\<lparr>m_changeLog := m_changeLog t @ [Storage a k (storageOf E t a k)],
      m_cache := AList.update a (Account_setStorage k v x) (m_cache t)\<rparr>))"
proof -
  note c = cachedAccount [OF i x]
  let ?y = "Account_setStorage k v x" and ?c = "storageOf E t a k"
  let ?t = "t\<lparr>m_changeLog := m_changeLog t @ [Storage a k ?c], m_cache := AList.update a ?y (m_cache t)\<rparr>"
  let ?u = "addUsage a (slotCount ?c v * 32) ?t"
  have cu: "?c = accStorage E (m_db t) a x k" using c(2) by (simp add: storageOf_def)
  have "puts a ?y t ?u"
    using puts_known [OF jinv_ok [OF i] x, of ?y] by (simp add: puts_def addUsage_def)
  moreover have "use ?u = addUse a (slotCount ?c v * 32) (use t)" by (simp add: use_addUsage)
  moreover have "addUse a (slotCount v ?c * 32) (addUse a (slotCount ?c v * 32) (use t)) = use t"
    unfolding slotCount_back [of v] using addUse_back [of a "- slotCount ?c v * 32"] by simp
  ultimately show ?thesis
    using c acc_ok_basic(4) [OF c(1), of k v]
    by (intro writes_put [OF i, where a = a and y = ?y and new = "[Storage a k ?c]"])
      (auto simp: setSto_def viewOf_basic atView_def fun_upd_idem cu addUsage_def simp flip: viewOf_sel(5))
qed

text \<open>
  A store succeeds when the total of used storage stays within the limit; otherwise it throws
  after the change, which only a rollback takes back.
\<close>

definition overLimit :: "'d State \<Rightarrow> int \<Rightarrow> bool" where
  "overLimit s n \<longleftrightarrow> contractStorageLimit s < totalStorageUsed s + currentStorageUsed s + n"

lemma setStorage_wp:
  assumes i: "jinv E s" and a: "view E s a \<noteq> None"
    and n: "n = slotCount (storageOf E s a k) v * 32"
  shows "wpS (State_setStorage E a k v)
    (\<lambda>e t. e = StorageOverflowError \<and> overLimit s n \<and> writes E s (setSto E s a k v) t)
    (\<lambda>_ t. \<not> overLimit s n \<and> writes E s (setSto E s a k v) t) s"
  unfolding State_setStorage_def wpS_bind
proof (rule wpS_mono [OF wpS_conj [OF storage_wp [OF i, where F = "\<lambda>_ _. False"] storage_keeps [OF i a]]], goal_cases)
  case (2 c t)
  note c = this
  then obtain x where x: "map_of (m_cache t) a = Some x" by auto
  have t: "grows E s t" "cached s t" "view E t = view E s" "c = storageOf E s a k"
    using c by (auto simp: reads_def)
  have so: "setSto E t a k v = setSto E s a k v" "storageOf E t a k = storageOf E s a k"
    using t(3) by (simp_all add: setSto_def storageOf_def)
  note w = writes_trans [OF t(1) setStorage_writes [OF grows_jinv [OF t(1)] x, of k v]]
  show ?case
    using w x cached_fields [OF t(2)]
    by (simp add: effS cacheAt_def so t(4) n overLimit_def addUsage_def add.assoc)
qed auto

definition setCod :: "'d Env \<Rightarrow> 'd State \<Rightarrow> address \<Rightarrow> bytes \<Rightarrow> views" where
  "setCod E s a c = (view E s)(a := map_option (\<lambda>x. x\<lparr>v_codeHash := sha3 E c,
     v_code := (if sha3 E c = EmptySHA3 (sha3 E) then [] else c)\<rparr>) (view E s a))"

lemma setCode_account:
  assumes x: "acc_ok E db a x" "m_codeHash x = EmptySHA3 (sha3 E)" and d: "isDirty x"
  shows "acc_ok E db a (Account_setCode (sha3 E) c w x)"
    "viewOf E db a (Account_setCode (sha3 E) c w x) = (viewOf E db a x)\<lparr>v_codeHash := sha3 E c,
      v_code := (if sha3 E c = EmptySHA3 (sha3 E) then [] else c)\<rparr>"
proof -
  have ne: "c \<noteq> []" if "sha3 E c \<noteq> EmptySHA3 (sha3 E)" using that by (auto simp: EmptySHA3_def)
  then show "acc_ok E db a (Account_setCode (sha3 E) c w x)"
    using x d by (auto simp: acc_ok_def accCode_def Account_setCode_def Let_def isDirty_def)
  show "viewOf E db a (Account_setCode (sha3 E) c w x) = (viewOf E db a x)\<lparr>v_codeHash := sha3 E c,
      v_code := (if sha3 E c = EmptySHA3 (sha3 E) then [] else c)\<rparr>"
    using ne x by (auto simp: viewOf_def accCode_def accStorage_def Account_setCode_def Let_def fun_eq_iff split: option.split)
qed

lemma setCode_wp:
  assumes i: "jinv E s" and a: "a \<in> dirtyIn s"
  shows "wpS (State_setCode E a c w) (fails E s AssertionFailed (codeHashOf E s a \<noteq> EmptySHA3 (sha3 E)))
    (\<lambda>_ t. codeHashOf E s a = EmptySHA3 (sha3 E) \<and> writes E s (setCod E s a c) t) s"
  unfolding State_setCode_def wpS_bind
proof (rule wpS_mono [OF addressHasCode_wp [OF i, where F = "\<lambda>_ _. False"]], goal_cases)
  case (2 b t)
  note b = this
  then have t: "grows E s t" "jinv E t" "view E t = view E s" "a \<in> dirtyIn t"
    using a reads_grows [OF b] cached_fields(13) [of s t] by (auto simp: reads_def)
  have "wpS (State_code E a) F (\<lambda>old. wpS (bindS (logChange (Code a old))
      (\<lambda>_. cacheAt E a (Account_setCode (sha3 E) c w))) F (\<lambda>_. writes E s (setCod E s a c))) t"
    if h: "codeHashOf E s a = EmptySHA3 (sha3 E)" for F
  proof (rule wpS_mono [OF code_wp [OF t(2), where F = "\<lambda>_ _. False"]])
    fix old u
    assume "reads E t (codeOf E t a) old u"
    note r = this reads_grows [OF this]
    then have u: "grows E s u" "jinv E u" "view E u = view E s" "a \<in> dirtyIn u"
      using t cached_fields(13) [of t u] grows_trans by (auto simp: reads_def)
    then obtain x where x: "map_of (m_cache u) a = Some x" "isDirty x" by (auto simp: dirtyIn_def)
    note ca = cachedAccount [OF u(2) x(1)]
    have xh: "m_codeHash x = EmptySHA3 (sha3 E)" using h ca(2) u(3) by (simp add: codeHashOf_def)
    have xc: "accCode E (m_db u) a x = []" using xh by (simp add: accCode_def)
    let ?y = "Account_setCode (sha3 E) c w x"
    let ?u = "u\<lparr>m_changeLog := m_changeLog u @ [Code a old], m_cache := AList.update a ?y (m_cache u)\<rparr>"
    note y = setCode_account [OF ca(1) xh x(2), of c w]
    have "puts a ?y u ?u" using puts_known [OF jinv_ok [OF u(2)] x(1), of ?y] by (simp add: puts_def)
    moreover have "undo = view E u"
      if "undo = (view E u)(a \<mapsto> (viewOf E (m_db u) a x)\<lparr>v_codeHash := EmptySHA3 (sha3 E), v_code := []\<rparr>)" for undo
      using that ca(2) xh xc by (auto simp: viewOf_def fun_upd_idem)
    ultimately have "writes E u (setCod E u a c) ?u"
      using y ca x(2) u(4)
      by (intro writes_put [OF u(2), where a = a and y = ?y and new = "[Code a old]"])
        (auto simp: setCod_def atView_def)
    then have "writes E s (setCod E s a c) ?u"
      using writes_trans [OF u(1)] u(3) by (simp add: setCod_def)
    then show "wpS (bindS (logChange (Code a old))
      (\<lambda>_. cacheAt E a (Account_setCode (sha3 E) c w))) F (\<lambda>_. writes E s (setCod E s a c)) u"
      using x(1) by (simp add: effS cacheAt_def)
  qed auto
  moreover have "writes E s (view E s) t" using t by (simp add: writes_def)
  ultimately show ?case
    using b by (simp add: effS fails_def reads_def)
qed auto

end
