(* ===== verification/State_Rollback.thy ===== *)
theory State_Rollback
  imports State_Writes
begin

text \<open>
  \<open>rollback\<close>: each iteration does to the state what \<open>undoView\<close> does to the view, so that rolling
  back to a savepoint unwinds exactly the entries logged since.  The operations that an execution
  performs all satisfy \<open>grows\<close>, and so does a rollback to a later savepoint: whatever happened
  since a savepoint, rolling back to it restores the view.
\<close>

definition undone :: "'d Env \<Rightarrow> 'd State \<Rightarrow> Change \<Rightarrow> 'd State \<Rightarrow> bool" where
  "undone E s c t \<longleftrightarrow> state_ok E t \<and> m_db t = m_db s \<and> m_initial_funds t = m_initial_funds s \<and>
    m_accountStartNonce t = m_accountStartNonce s \<and> m_changeLog t = m_changeLog s \<and>
    view E t = undoView (sha3 E) c (view E s) \<and>
    (working E ContractStoragePatch \<longrightarrow> use t = undoUse c (view E s) (use s)) \<and>
    dirtyIn s - cleans c \<subseteq> dirtyIn t"

lemma undone_put:
  assumes ok: "state_ok E s" and p: "puts a y s t" and y: "acc_ok E (m_db s) a y"
    and v: "undoView (sha3 E) c (view E s) = (view E s)(a \<mapsto> viewOf E (m_db s) a y)"
    and l: "m_changeLog t = m_changeLog s"
    and u: "working E ContractStoragePatch \<Longrightarrow> use t = undoUse c (view E s) (use s)"
    and d: "isDirty y \<or> a \<in> cleans c \<or> a \<notin> dirtyIn s"
  shows "undone E s c t"
proof -
  have "dirtyIn s - cleans c \<subseteq> dirtyIn t" using p d by (auto simp: puts_def dirtyIn_def)
  then show ?thesis
    using puts_ok [OF p ok y] v l u p by (simp add: undone_def puts_def)
qed

lemma undone_entry:
  assumes i: "jinv E s" and x: "map_of (m_cache s) a = Some x" and f: "acc_ok E (m_db s) a (f x)"
    and v: "undoView (sha3 E) c (view E s) = (view E s)(a \<mapsto> viewOf E (m_db s) a (f x))"
    and u: "working E ContractStoragePatch \<Longrightarrow> undoUse c (view E s) (use s) = use s"
    and d: "isDirty x \<Longrightarrow> isDirty (f x) \<or> a \<in> cleans c"
  shows "undone E s c (s\<lparr>m_cache := AList.map_entry a f (m_cache s)\<rparr>)"
  by (rule undone_put [OF jinv_ok [OF i] puts_entry [OF jinv_ok [OF i] x, of f] f v])
    (use u d x in \<open>auto simp: dirtyIn_def\<close>)

lemma undo_storage:
  assumes i: "jinv E s" and x: "map_of (m_cache s) a = Some x"
  shows "wpS (rollbackStorageChange E a k v) F (\<lambda>_. undone E s (Storage a k v)) s"
  unfolding rollbackStorageChange_def wpS_bind
proof (rule wpS_mono [OF wpS_conj [OF storage_wp [OF i, where F = "\<lambda>_ _. False"] storage_keeps [OF i]]], goal_cases)
  case 1
  then show ?case using cachedAccount(2) [OF i x] by simp
next
  case (3 c t)
  then obtain y where y: "map_of (m_cache t) a = Some y" by auto
  have t: "grows E s t" "cached s t" "view E t = view E s" "c = storageOf E s a k"
    using 3 by (auto simp: reads_def)
  note tj = grows_jinv [OF t(1)] and f = cached_fields [OF t(2)]
  note ya = cachedAccount [OF tj y]
  let ?t = "addUsage a (slotCount c v * 32) t"
  let ?u = "?t\<lparr>m_cache := AList.map_entry a (Account_setStorage k v) (m_cache ?t)\<rparr>"
  have "puts a (Account_setStorage k v y) t ?u"
    using puts_entry [OF jinv_ok [OF tj] y, of "Account_setStorage k v"] by (simp add: puts_def addUsage_def)
  moreover have "use ?u = undoUse (Storage a k v) (view E t) (use t)"
    using ya(2) t(3,4) by (simp add: use_addUsage storageOf_def)
  ultimately have "undone E t (Storage a k v) ?u"
    using acc_ok_basic(4) [OF ya(1)] ya(2)
    by (intro undone_put [OF jinv_ok [OF tj]]) (auto simp: viewOf_basic atView_def addUsage_def)
  moreover have "use t = use s" using f by (simp add: use_def)
  ultimately have "undone E s (Storage a k v) ?u"
    using t(3) f by (auto simp: undone_def)
  then show ?case by (simp add: effS)
qed auto

lemma undo_create:
  assumes i: "jinv E s" and b: "dbView E (m_db s) a = None"
  shows "undone E s (Create a) (s\<lparr>m_cache := AList.delete a (m_cache s)\<rparr>)"
proof -
  let ?t = "s\<lparr>m_cache := AList.delete a (m_cache s)\<rparr>"
  have "state_ok E ?t"
    using jinv_ok [OF i] unfolding state_ok_def by (simp add: checkVersion_def distinct_delete delete_conv' del: map_of_eq_Some_iff)
  moreover have "view E ?t = (view E s)(a := None)"
    using b by (auto simp: view_def peek_def fun_eq_iff delete_conv' dbView_def split: option.split)
  moreover have "dirtyIn s - {a} \<subseteq> dirtyIn ?t" by (auto simp: dirtyIn_def delete_conv')
  ultimately show ?thesis by (simp add: undone_def)
qed

lemma undo_touch:
  assumes i: "jinv E s" and x: "map_of (m_cache s) a = Some x" and b: "view E s a = dbView E (m_db s) a"
  shows "undone E s (Touch a) (s\<lparr>m_cache := AList.map_entry a Account_untouch (m_cache s),
    m_unchangedCacheEntries := m_unchangedCacheEntries s @ [a]\<rparr>)"
proof -
  note c = cachedAccount [OF i x]
  have "acc_ok E (m_db s) a (Account_untouch x)"
    by (rule acc_ok_same [OF c(1)]; use b c in \<open>simp add: viewOf_basic\<close>;
      use c(1) in \<open>simp add: Account_untouch_def acc_ok_def\<close>)
  then have "undone E s (Touch a) (s\<lparr>m_cache := AList.map_entry a Account_untouch (m_cache s)\<rparr>)"
    using c(2) by (intro undone_entry [OF i x]) (auto simp: viewOf_basic fun_upd_idem)
  then show ?thesis by (simp add: undone_def)
qed

lemma undo_code:
  assumes i: "jinv E s" and x: "map_of (m_cache s) a = Some x" and d: "a \<in> dirtyIn s"
  shows "undone E s (Code a c) (s\<lparr>m_cache := AList.map_entry a (Account_resetCode (sha3 E)) (m_cache s)\<rparr>)"
proof -
  note ca = cachedAccount [OF i x]
  have "isDirty x" using d x by (auto simp: dirtyIn_def)
  then have "acc_ok E (m_db s) a (Account_resetCode (sha3 E) x)"
    using ca(1) by (simp add: acc_ok_def accCode_def Account_resetCode_def isDirty_def EmptySHA3_def)
  moreover have "viewOf E (m_db s) a (Account_resetCode (sha3 E) x) =
      (viewOf E (m_db s) a x)\<lparr>v_codeHash := EmptySHA3 (sha3 E), v_code := []\<rparr>"
    by (simp add: viewOf_def accCode_def accStorage_def Account_resetCode_def fun_eq_iff split: option.split)
  ultimately show ?thesis
    using ca(2) \<open>isDirty x\<close> by (intro undone_entry [OF i x]) (auto simp: atView_def)
qed

lemma undoChange_wp:
  assumes i: "jinv E s" and x: "map_of (m_cache s) (changeAddress c) = Some x"
    and u: "canUndo (dbView E (m_db s)) c (view E s) (dirtyIn s)"
  shows "wpS (undoChange E c) F (\<lambda>_. undone E s c) s"
proof (cases c)
  case (Balance a v)
  with cachedAccount [OF i x] acc_ok_basic(3) [OF cachedAccount(1) [OF i x]] undone_entry [OF i, of a x "Account_addBalance (- v)" c] x
  show ?thesis by (simp add: undoChange_def effS viewOf_basic atView_def)
next
  case (Storage a k v)
  then have *: "undone E s c (s\<lparr>m_cache := AList.map_entry a (Account_setStorage k v) (m_cache s)\<rparr>)"
    if "\<not> working E ContractStoragePatch"
    using that cachedAccount [OF i x] acc_ok_basic(4) [OF cachedAccount(1) [OF i x]] x
    by (intro undone_entry [OF i, of a x]) (auto simp: viewOf_basic atView_def)
  with Storage x undo_storage [OF i, of a x k v F] show ?thesis
    by (simp add: undoChange_def wpS_updAccount cong: if_cong)
next
  case (Nonce a n)
  with cachedAccount [OF i x] acc_ok_basic(2) [OF cachedAccount(1) [OF i x]] undone_entry [OF i, of a x "Account_setNonce n" c] x
  show ?thesis by (simp add: undoChange_def effS viewOf_basic atView_def)
next
  case (Create a)
  with u undo_create [OF i] show ?thesis by (simp add: undoChange_def effS)
next
  case (Code a b)
  with x u undo_code [OF i] show ?thesis by (simp add: undoChange_def effS)
next
  case (Touch a)
  with x u undo_touch [OF i] show ?thesis by (simp add: undoChange_def effS)
next
  case (StorageRoot a v)
  with u show ?thesis by simp
qed

text \<open>One iteration of the loop.\<close>

definition unlogged :: "'d Env \<Rightarrow> 'd State \<Rightarrow> Change \<Rightarrow> 'd State \<Rightarrow> bool" where
  "unlogged E s c t \<longleftrightarrow> jinv E t \<and> m_db t = m_db s \<and> m_initial_funds t = m_initial_funds s \<and>
    m_accountStartNonce t = m_accountStartNonce s \<and> m_changeLog t = butlast (m_changeLog s) \<and>
    view E t = undoView (sha3 E) c (view E s) \<and>
    (working E ContractStoragePatch \<longrightarrow> use t = undoUse c (view E s) (use s)) \<and>
    dirtyIn s - cleans c \<subseteq> dirtyIn t"

lemma rollbackOne_wp:
  assumes i: "jinv E s" and l: "m_changeLog s = l @ [c]"
  shows "wpS (rollbackOne E) F (\<lambda>_. unlogged E s c) s"
proof -
  let ?a = "changeAddress c"
  have j: "canUndo (dbView E (m_db s)) c (view E s) (dirtyIn s)"
    "jvalid (sha3 E) (dbView E (m_db s)) (rev l) (undoView (sha3 E) c (view E s)) (dirtyIn s - cleans c)"
    using i l by (simp_all add: jinv_def)
  have "view E s ?a \<noteq> None" using j(1) by (cases c) auto
  have "wpS (State_account E ?a) F (\<lambda>r. wpS (bindS (assertS AssertionFailed (r \<noteq> None)) (\<lambda>_.
      bindS (undoChange E c) (\<lambda>_. modS (\<lambda>s. s\<lparr>m_changeLog := butlast (m_changeLog s)\<rparr>)))) F
      (\<lambda>_. unlogged E s c)) s"
  proof (rule load_step [OF i], goal_cases)
    case (1 x t)
    have t: "jinv E t" "view E t = view E s" "map_of (m_cache t) ?a = Some x"
      using 1 grows_jinv by (auto simp: loaded_def)
    note f = cached_fields [OF 1(3)]
    have "canUndo (dbView E (m_db t)) c (view E t) (dirtyIn t)"
      using j(1) canUndo_mono f t(2) by auto
    note w = undoChange_wp [OF t(1,3) this, of F]
    have "wpS (undoChange E c) F (\<lambda>_ u. unlogged E s c (u\<lparr>m_changeLog := butlast (m_changeLog u)\<rparr>)) t"
    proof (rule wpS_mono [OF w])
      fix y u
      assume u: "undone E t c u"
      have "jvalid (sha3 E) (dbView E (m_db s)) (rev l) (view E u) (dirtyIn u)"
        using u t(2) f by (auto simp: undone_def intro!: jvalid_mono [OF j(2)])
      then show "unlogged E s c (u\<lparr>m_changeLog := butlast (m_changeLog u)\<rparr>)"
        using u t(2) f l by (auto simp: undone_def unlogged_def jinv_def use_def)
    qed
    then show ?case by (simp add: effS)
  next
    case (2 t)
    then show ?case using \<open>view E s ?a \<noteq> None\<close> by simp
  qed
  then show ?thesis using l by (simp add: rollbackOne_def effS)
qed

subsection \<open>The loop\<close>

definition rolled :: "'d Env \<Rightarrow> 'd State \<Rightarrow> Change list \<Rightarrow> Change list \<Rightarrow> 'd State \<Rightarrow> bool" where
  "rolled E s l new t \<longleftrightarrow> jinv E t \<and> m_db t = m_db s \<and> m_initial_funds t = m_initial_funds s \<and>
    m_accountStartNonce t = m_accountStartNonce s \<and> m_changeLog t = l \<and>
    view E t = junwind (sha3 E) (rev new) (view E s) \<and>
    (working E ContractStoragePatch \<longrightarrow> use t = uwind (sha3 E) (rev new) (view E s) (use s)) \<and>
    dirtyIn s - (\<Union>c\<in>set new. cleans c) \<subseteq> dirtyIn t"

lemma rollbackLoop_wp:
  assumes "jinv E s" "m_changeLog s = l @ new"
  shows "wpS (rollbackLoop E (length new)) F (\<lambda>_. rolled E s l new) s"
  using assms
proof (induction new arbitrary: s rule: rev_induct)
  case Nil
  then show ?case by (simp add: effS rolled_def)
next
  case (snoc c new)
  have "wpS (rollbackOne E) F (\<lambda>_. wpS (rollbackLoop E (length new)) F (\<lambda>_. rolled E s l (new @ [c]))) s"
  proof (rule wpS_mono [OF rollbackOne_wp [OF snoc.prems(1), where c = c and l = "l @ new" and F = F]])
    fix x t
    assume t: "unlogged E s c t"
    then have "wpS (rollbackLoop E (length new)) F (\<lambda>_. rolled E t l new) t"
      using snoc.prems(2) by (intro snoc.IH) (simp_all add: unlogged_def butlast_append)
    then show "wpS (rollbackLoop E (length new)) F (\<lambda>_. rolled E s l (new @ [c])) t"
      by (rule wpS_mono) (use t in \<open>auto simp: rolled_def unlogged_def\<close>)
  qed (use snoc.prems in auto)
  then show ?case by (simp add: effS)
qed

text \<open>Rolling back to a savepoint, after whatever led from there to the present state.\<close>

definition rolledBack :: "'d Env \<Rightarrow> 'd State \<Rightarrow> 'd State \<Rightarrow> bool" where
  "rolledBack E s u \<longleftrightarrow> grows E s u \<and> view E u = view E s \<and> m_changeLog u = m_changeLog s \<and>
     use u = (if working E ContractStoragePatch then use s else (\<lambda>_. 0, 0))"

lemma rolled_grows:
  assumes g: "grows E s t" and r: "rolled E t (m_changeLog s) new v" "m_changeLog t = m_changeLog s @ new"
    and u: "u = (if working E ContractStoragePatch then clearFileStorageCache v
      else resetStorageChanges (clearFileStorageCache v))"
  shows "rolledBack E s u"
proof -
  from g r(2) have n: "junwind (sha3 E) (rev new) (view E t) = view E s"
    "working E ContractStoragePatch \<longrightarrow> uwind (sha3 E) (rev new) (view E t) (use t) = use s"
    "\<forall>c\<in>set new. cleans c \<inter> dirtyIn s = {}" "dirtyIn s \<subseteq> dirtyIn t" by (auto simp: grows_def)
  have "dirtyIn s \<subseteq> dirtyIn t - (\<Union>c\<in>set new. cleans c)" using n(3,4) by blast
  with r(1) have "dirtyIn s \<subseteq> dirtyIn v" by (auto simp: rolled_def)
  with n r(1) have v: "view E v = view E s" "dirtyIn s \<subseteq> dirtyIn v"
    "working E ContractStoragePatch \<longrightarrow> use v = use s" "jinv E v" "m_changeLog v = m_changeLog s"
    by (simp_all add: rolled_def)
  have s: "view E u = view E v" "dirtyIn u = dirtyIn v" "state_ok E u = state_ok E v" "m_db u = m_db v"
    "m_changeLog u = m_changeLog v" "m_initial_funds u = m_initial_funds v"
    "m_accountStartNonce u = m_accountStartNonce v"
    "use u = (if working E ContractStoragePatch then use v else (\<lambda>_. 0, 0))"
    by (simp_all add: u clearFileStorageCache_def resetStorageChanges_def use_def usageOf_def fun_eq_iff)
  show ?thesis
    using v g r(1) s by (auto simp: rolledBack_def grows_def jinv_def rolled_def)
qed

lemma rollback_wp:
  assumes g: "grows E s t"
  shows "wpS (State_rollback E (savepoint s)) F (\<lambda>_. rolledBack E s) t"
proof -
  obtain new where l: "m_changeLog t = m_changeLog s @ new" using g by (auto simp: grows_def)
  let ?r = "\<lambda>v. if working E ContractStoragePatch then clearFileStorageCache v
      else resetStorageChanges (clearFileStorageCache v)"
  have "wpS (rollbackLoop E (length new)) F (\<lambda>_ v. rolledBack E s (?r v)) t"
    by (rule wpS_mono [OF rollbackLoop_wp [OF grows_jinv [OF g] l, where F = F]])
      (assumption, rule rolled_grows [OF g _ l refl])
  then show ?thesis
    using l by (cases "working E ContractStoragePatch") (simp_all add: State_rollback_def effS savepoint_def)
qed

end
