(* ===== verification/State_Runs.thy ===== *)
theory State_Runs
  imports State_Rollback
begin

text \<open>
  Sequences of calls of \<open>State\<close> between a savepoint and its rollback, and an abstract world that
  every call refines: a map from addresses to accounts, without caches, log or database.
\<close>

subsection \<open>Calls\<close>

datatype stateCall =
  CIncNonce address | CSetNonce address u256
  | CAddBalance address u256 | CSubBalance address u256 | CSetBalance address u256
  | CTransfer address address u256
  | CCreateContract address | CSetStorage address u256 u256 | CSetCode address bytes u256
  | CStorage address u256 | COriginal address u256 | CCode address | CCodeSize address

fun runCall :: "'d Env \<Rightarrow> stateCall \<Rightarrow> ('d, unit) stm" where
  "runCall E (CIncNonce a) = State_incNonce E a"
| "runCall E (CSetNonce a n) = State_setNonce E a n"
| "runCall E (CAddBalance a v) = State_addBalance E a v"
| "runCall E (CSubBalance a v) = State_subBalance E a v"
| "runCall E (CSetBalance a v) = State_setBalance E a v"
| "runCall E (CTransfer a b v) = State_transferBalance E a b v"
| "runCall E (CCreateContract a) = State_createContract E a"
| "runCall E (CSetStorage a k v) = State_setStorage E a k v"
| "runCall E (CSetCode a c v) = State_setCode E a c v"
| "runCall E (CStorage a k) = bindS (State_storage E a k) (\<lambda>_. retS ())"
| "runCall E (COriginal a k) = bindS (State_originalStorageValue E a k) (\<lambda>_. retS ())"
| "runCall E (CCode a) = bindS (State_code E a) (\<lambda>_. retS ())"
| "runCall E (CCodeSize a) = bindS (State_codeSize E a) (\<lambda>_. retS ())"

text \<open>
  What the callers see to: a contract is created at an unused address, storage is set in an
  existing account, and code in an account that has been changed already (the callers have
  just set its nonce), since \<open>Account::setCode\<close> does not mark the account as changed.
\<close>

fun callable :: "'d Env \<Rightarrow> stateCall \<Rightarrow> 'd State \<Rightarrow> bool" where
  "callable E (CCreateContract a) s \<longleftrightarrow> view E s a = None"
| "callable E (CSetStorage a k v) s \<longleftrightarrow> view E s a \<noteq> None"
| "callable E (CSetCode a c v) s \<longleftrightarrow> a \<in> dirtyIn s"
| "callable E c s \<longleftrightarrow> True"

subsection \<open>The abstract world\<close>

record world =
  w_view :: views
  w_funds :: u256
  w_start :: u256
  w_storage :: "address \<Rightarrow> u256 \<Rightarrow> u256"

definition absState :: "'d Env \<Rightarrow> 'd State \<Rightarrow> world" where
  "absState E s = \<lparr>w_view = view E s, w_funds = m_initial_funds s, w_start = m_accountStartNonce s,
     w_storage = OverlayDB_lookupStorage E (m_db s)\<rparr>"

text \<open>The account at an address, or the one that the first write there creates.\<close>

definition w_account :: "hashfun \<Rightarrow> world \<Rightarrow> address \<Rightarrow> AccountView" where
  "w_account h w a = (case w_view w a of Some x \<Rightarrow> x
    | None \<Rightarrow> \<lparr>v_nonce = w_start w, v_balance = w_funds w, v_codeHash = EmptySHA3 h, v_code = [], v_storage = w_storage w a,
        v_used = 0\<rparr>)"

definition w_put :: "address \<Rightarrow> AccountView \<Rightarrow> world \<Rightarrow> world" where
  "w_put a x w = w\<lparr>w_view := (w_view w)(a \<mapsto> x)\<rparr>"

definition w_new :: "address \<Rightarrow> world \<Rightarrow> bool" where
  "w_new a w \<longleftrightarrow> w_view w a = None \<and> w_start w = Invalid256"

text \<open>Adding an amount, wrapping around; creating an account needs the start nonce.\<close>

definition w_add :: "hashfun \<Rightarrow> address \<Rightarrow> u256 \<Rightarrow> world \<Rightarrow> (state_error + unit) \<times> world" where
  "w_add h a v w = (if w_new a w then (Inl InvalidAccountStartNonceInState, w)
    else (Inr (), w_put a ((w_account h w a)\<lparr>v_balance := v_balance (w_account h w a) + v\<rparr>) w))"

definition w_sub :: "hashfun \<Rightarrow> address \<Rightarrow> u256 \<Rightarrow> world \<Rightarrow> (state_error + unit) \<times> world" where
  "w_sub h a v w = (case w_view w a of
     None \<Rightarrow> if v = 0 then (Inr (), w) else (Inl NotEnoughCash, w)
   | Some x \<Rightarrow> if v = 0 then (Inr (), w) else if v_balance x < v then (Inl NotEnoughCash, w)
     else (Inr (), w_put a (x\<lparr>v_balance := v_balance x - v\<rparr>) w))"

text \<open>One call; \<open>full\<close> is whether the storage limit is passed.\<close>

fun absCall :: "hashfun \<Rightarrow> bool \<Rightarrow> stateCall \<Rightarrow> world \<Rightarrow> (state_error + unit) \<times> world" where
  "absCall h full (CIncNonce a) w = (if w_new a w then (Inl InvalidAccountStartNonceInState, w)
    else (Inr (), w_put a ((w_account h w a)\<lparr>v_nonce := v_nonce (w_account h w a) + 1\<rparr>) w))"
| "absCall h full (CSetNonce a n) w = (Inr (), w_put a ((w_account h w a)\<lparr>v_nonce := n\<rparr>) w)"
| "absCall h full (CAddBalance a v) w = w_add h a v w"
| "absCall h full (CSubBalance a v) w = w_sub h a v w"
| "absCall h full (CSetBalance a v) w = (if w_new a w then (Inl InvalidAccountStartNonceInState, w)
    else (Inr (), w_put a ((w_account h w a)\<lparr>v_balance :=
      (if w_view w a = None then w_funds w + v else v)\<rparr>) w))"
| "absCall h full (CTransfer a b v) w =
    (case w_sub h a v w of (Inl e, w) \<Rightarrow> (Inl e, w) | (Inr _, w) \<Rightarrow> w_add h b v w)"
| "absCall h full (CCreateContract a) w = (if w_new a w then (Inl InvalidAccountStartNonceInState, w)
    else (Inr (), w_put a (w_account h w a) w))"
| "absCall h full (CSetStorage a k v) w = (if full then Inl StorageOverflowError else Inr (),
    w_put a ((w_account h w a)\<lparr>v_storage := (v_storage (w_account h w a))(k := v)\<rparr>) w)"
| "absCall h full (CSetCode a c v) w = (if v_codeHash (w_account h w a) \<noteq> EmptySHA3 h then (Inl AssertionFailed, w)
    else (Inr (), w_put a ((w_account h w a)\<lparr>v_codeHash := h c, v_code := (if h c = EmptySHA3 h then [] else c)\<rparr>) w))"
| "absCall h full c w = (Inr (), w)"

subsection \<open>Refinement\<close>

definition fullAt :: "'d Env \<Rightarrow> 'd State \<Rightarrow> stateCall \<Rightarrow> bool" where
  "fullAt E s c = (case c of CSetStorage a k v \<Rightarrow> overLimit s (slotCount (storageOf E s a k) v * 32) | _ \<Rightarrow> False)"

definition refinesCall :: "'d Env \<Rightarrow> stateCall \<Rightarrow> 'd State \<Rightarrow> state_error + unit \<Rightarrow> 'd State \<Rightarrow> bool" where
  "refinesCall E c s r t \<longleftrightarrow> grows E s t \<and> (r, absState E t) = absCall (sha3 E) (fullAt E s c) c (absState E s)"

lemma abs_writes: "writes E s V t \<Longrightarrow> grows E s t \<and> absState E t = (absState E s)\<lparr>w_view := V\<rparr>"
  unfolding writes_def by (auto simp: absState_def) (auto simp: grows_def)

lemma abs_simps [simp]:
  "w_view (absState E s) = view E s" "w_account (sha3 E) (absState E s) a = accountOf E s a"
  "w_new a (absState E s) \<longleftrightarrow> noStart E s a" "w_funds (absState E s) = m_initial_funds s"
  by (auto simp: absState_def w_account_def accountOf_def newView_def w_new_def noStart_def split: option.split)

lemma abs_put [simp]: "w_put a x (absState E s) = (absState E s)\<lparr>w_view := (view E s)(a \<mapsto> x)\<rparr>"
  by (simp add: w_put_def)

lemma abs_same [simp]: "(absState E s)\<lparr>w_view := view E s\<rparr> = absState E s"
  by (simp add: absState_def)

lemma abs_balance: "v_balance (accountOf E s a) = balanceOf E s a" "v_nonce (accountOf E s a) = nonceOf E s a"
  by (simp_all add: accountOf_def balanceOf_def nonceOf_def split: option.split)

lemma refines_wp:
  assumes "wpS m (\<lambda>e t. refinesCall E c s (Inl e) t) (\<lambda>_ t. refinesCall E c s (Inr ()) t) s"
  shows "refinesCall E c s (fst (m s)) (snd (m s))"
  using assms by (cases "m s"; cases "fst (m s)") (simp_all add: wpS_def)

lemma abs_sub:
  assumes "writes E s (if v = 0 then view E s else addBal E s a (- v)) t"
    "\<not> (v \<noteq> 0 \<and> (view E s a = None \<or> balanceOf E s a < v))"
  shows "w_sub (sha3 E) a v (absState E s) = (Inr (), absState E t)"
  using assms abs_writes [OF assms(1)]
  by (auto simp: w_sub_def addBal_def accountOf_def balanceOf_def split: option.split if_splits)

lemma abs_sub_fails:
  "v \<noteq> 0 \<and> (view E s a = None \<or> balanceOf E s a < v) \<Longrightarrow>
   w_sub (sha3 E) a v (absState E s) = (Inl NotEnoughCash, absState E s)"
  by (auto simp: w_sub_def balanceOf_def split: option.split)

lemma abs_add:
  assumes "writes E s (addBal E s a v) t" "\<not> noStart E s a"
  shows "w_add (sha3 E) a v (absState E s) = (Inr (), absState E t)"
  using assms abs_writes [OF assms(1)] by (simp add: w_add_def addBal_def abs_balance)

lemma abs_fails: "fails E s e b e' t \<Longrightarrow> e' = e \<and> b \<and> grows E s t \<and> absState E t = absState E s"
  using abs_writes [of E s "view E s" t] by (auto simp: fails_def)

lemma reads_refines:
  assumes "wpS m (\<lambda>_ _. False) (\<lambda>x t. reads E s x x t) s" "\<And>w. absCall (sha3 E) (fullAt E s c) c w = (Inr (), w)"
  shows "wpS (bindS m (\<lambda>_. retS ())) (\<lambda>e t. refinesCall E c s (Inl e) t) (\<lambda>_ t. refinesCall E c s (Inr ()) t) s"
  unfolding wpS_bind
  by (rule wpS_mono [OF assms(1)])
    (use assms(2) in \<open>auto simp: effS refinesCall_def reads_def cached_def absState_def\<close>)

lemma runCall_wp:
  assumes i: "jinv E s" and c: "callable E c s"
  shows "wpS (runCall E c) (\<lambda>e t. refinesCall E c s (Inl e) t) (\<lambda>_ t. refinesCall E c s (Inr ()) t) s"
proof (cases c)
  case (CIncNonce a)
  show ?thesis unfolding CIncNonce runCall.simps
    by (rule wpS_mono [OF incNonce_wp [OF i]])
      (auto simp: refinesCall_def abs_balance dest: abs_fails abs_writes)
next
  case (CSetNonce a n)
  show ?thesis unfolding CSetNonce runCall.simps
    by (rule wpS_mono [OF setNonce_wp [OF i, where F = "\<lambda>_ _. False"]])
      (auto simp: refinesCall_def dest: abs_writes)
next
  case (CAddBalance a v)
  show ?thesis unfolding CAddBalance runCall.simps
    by (rule wpS_mono [OF addBalance_wp [OF i]])
      (auto simp: refinesCall_def w_add_def addBal_def abs_balance dest: abs_fails abs_writes)
next
  case (CSubBalance a v)
  show ?thesis unfolding CSubBalance runCall.simps
  proof (rule wpS_mono [OF subBalance_wp [OF i]], goal_cases)
    case (1 e t)
    then show ?case using abs_fails [OF 1] abs_sub_fails [of v E s a] by (auto simp: refinesCall_def)
  next
    case (2 x t)
    then show ?case using abs_sub [of E s v a t] abs_writes by (auto simp: refinesCall_def)
  qed
next
  case (CSetBalance a v)
  show ?thesis unfolding CSetBalance runCall.simps
    by (rule wpS_mono [OF setBalance_wp [OF i]])
      (auto simp: refinesCall_def dest: abs_fails abs_writes)
next
  case (CTransfer a b v)
  show ?thesis unfolding CTransfer runCall.simps
  proof (rule wpS_mono [OF transferBalance_wp [OF i]], goal_cases)
    case (1 e t)
    then show ?case
    proof
      assume f: "fails E s NotEnoughCash (v \<noteq> 0 \<and> (view E s a = None \<or> balanceOf E s a < v)) e t"
      then show ?thesis using abs_fails [OF f] abs_sub_fails [of v E s a] by (auto simp: refinesCall_def)
    next
      assume "\<exists>u. \<not> (v \<noteq> 0 \<and> (view E s a = None \<or> balanceOf E s a < v)) \<and>
        writes E s (if v = 0 then view E s else addBal E s a (- v)) u \<and>
        fails E u InvalidAccountStartNonceInState (noStart E u b) e t"
      then obtain u where u: "\<not> (v \<noteq> 0 \<and> (view E s a = None \<or> balanceOf E s a < v))"
        "writes E s (if v = 0 then view E s else addBal E s a (- v)) u"
        "fails E u InvalidAccountStartNonceInState (noStart E u b) e t" by blast
      have "grows E s t" using abs_writes [OF u(2)] abs_fails [OF u(3)] grows_trans by blast
      then show ?thesis
        using abs_sub [OF u(2,1)] abs_fails [OF u(3)] by (simp add: refinesCall_def w_add_def)
    qed
  next
    case (2 x t)
    then obtain u where u: "\<not> (v \<noteq> 0 \<and> (view E s a = None \<or> balanceOf E s a < v))"
      "writes E s (if v = 0 then view E s else addBal E s a (- v)) u"
      "\<not> noStart E u b" "writes E u (addBal E u b v) t" by blast
    have "grows E s t" using abs_writes [OF u(2)] abs_writes [OF u(4)] grows_trans by blast
    then show ?case using abs_sub [OF u(2,1)] abs_add [OF u(4,3)] by (simp add: refinesCall_def)
  qed
next
  case (CCreateContract a)
  then have "view E s a = None" using c by simp
  then show ?thesis unfolding CCreateContract runCall.simps
    by (intro wpS_mono [OF createContract_wp [OF i]])
      (auto simp: refinesCall_def dest: abs_fails abs_writes)
next
  case (CSetStorage a k v)
  then obtain x where x: "view E s a = Some x" using c by auto
  then have "setSto E s a k v = (view E s)(a \<mapsto> (accountOf E s a)\<lparr>v_storage := (v_storage (accountOf E s a))(k := v)\<rparr>)"
    by (simp add: setSto_def accountOf_def)
  then show ?thesis unfolding CSetStorage runCall.simps using x
    by (intro wpS_mono [OF setStorage_wp [OF i _ refl]])
      (auto simp: refinesCall_def fullAt_def dest: abs_writes)
next
  case (CSetCode a b v)
  then have a: "a \<in> dirtyIn s" using c by simp
  then obtain x where x: "view E s a = Some x" by (auto simp: dirtyIn_def dest: view_at)
  then have "v_codeHash (accountOf E s a) = codeHashOf E s a"
    "setCod E s a b = (view E s)(a \<mapsto> (accountOf E s a)\<lparr>v_codeHash := sha3 E b,
      v_code := (if sha3 E b = EmptySHA3 (sha3 E) then [] else b)\<rparr>)"
    by (simp_all add: setCod_def accountOf_def codeHashOf_def)
  then show ?thesis unfolding CSetCode runCall.simps
    by (intro wpS_mono [OF setCode_wp [OF i a]]) (auto simp: refinesCall_def dest: abs_fails abs_writes)
next
  case (CStorage a k)
  show ?thesis unfolding CStorage runCall.simps
    by (rule reads_refines) (rule wpS_mono [OF storage_wp [OF i]], auto simp: reads_def)
next
  case (COriginal a k)
  show ?thesis unfolding COriginal runCall.simps
    by (rule reads_refines) (rule wpS_mono [OF originalStorageValue_wp [OF i]], auto simp: reads_def)
next
  case (CCode a)
  show ?thesis unfolding CCode runCall.simps
    by (rule reads_refines) (rule wpS_mono [OF code_wp [OF i]], auto simp: reads_def)
next
  case (CCodeSize a)
  show ?thesis unfolding CCodeSize runCall.simps
    by (rule reads_refines) (rule codeSize_wp [OF i], simp)
qed

lemma runCall_refines:
  assumes "jinv E s" "callable E c s"
  shows "refinesCall E c s (fst (runCall E c s)) (snd (runCall E c s))"
  by (rule refines_wp [OF runCall_wp [OF assms]])

subsection \<open>Runs\<close>

text \<open>
  From a savepoint on: calls, of which some may throw (the caller catches the exception and goes
  on), and inner parts that end with a rollback to where they began.
\<close>

inductive runs :: "'d Env \<Rightarrow> 'd State \<Rightarrow> 'd State \<Rightarrow> bool" for E where
  runs_refl: "runs E s s"
| runs_call: "runs E s t \<Longrightarrow> callable E c t \<Longrightarrow> runs E s (snd (runCall E c t))"
| runs_inner: "runs E s t \<Longrightarrow> runs E t u \<Longrightarrow> runs E s (snd (State_rollback E (savepoint t) u))"

lemma runs_grows: "runs E s t \<Longrightarrow> jinv E s \<Longrightarrow> grows E s t"
proof (induction rule: runs.induct)
  case (runs_refl s)
  then show ?case by (rule grows_refl)
next
  case (runs_call s t c)
  then have "grows E s t" by simp
  moreover from this have "grows E t (snd (runCall E c t))"
    using runCall_refines [OF grows_jinv runs_call(2)] by (simp add: refinesCall_def)
  ultimately show ?case by (rule grows_trans)
next
  case (runs_inner s t u)
  then have "grows E s t" by simp
  moreover from this have "grows E t u" using runs_inner grows_jinv by blast
  from rollback_wp [OF this, of "\<lambda>_ _. False"] obtain v where
    "State_rollback E (savepoint t) u = (Inr (), v)" "rolledBack E t v"
    by (rule wpS_totalD) auto
  then have "grows E t (snd (State_rollback E (savepoint t) u))" by (simp add: rolledBack_def)
  ultimately show ?case by (rule grows_trans)
qed

end
