(* ===== verification/State_Codec.thy ===== *)
theory State_Codec
  imports State_Rollback
begin

text \<open>
  The record of an account: what \<open>State::commit\<close> writes, \<open>State::account\<close> reads back, except
  for the version, which is not written.
\<close>

lemma bytesRequired_256: "i < 2 ^ 256 \<Longrightarrow> bytesRequired i \<le> 32"
  using bytesRequired_le [of i 32] by simp

lemma unat_u256: "unat (w :: u256) < 2 ^ 256"
proof -
  have "unat w < 2 ^ LENGTH(256)" by (rule unsigned_less)
  then show ?thesis by simp
qed

definition accountItem :: "Account \<Rightarrow> rlp_item" where
  "accountItem x = Items (map int_item [unat (m_nonce x), unat (m_balance x), unat (m_codeHash x), nat (m_storageUsed x)])"

lemma append_int_is_item:
  "bytesRequired i < rlp_max \<Longrightarrow> append_int i s = append_item (int_item i) s"
  using append_int_item [of i s] append_item_correct [of "int_item i" s] by (simp add: int_item_def del: encodeItem.simps append_item.simps)

lemma length_int_item: "i < 2 ^ 256 \<Longrightarrow> length (encodeItem (int_item i)) \<le> 33"
  using bytesRequired_256 [of i] by (simp add: int_item_def length_rlp_header)

lemma fits_int_item: "i < 2 ^ 256 \<Longrightarrow> fits (int_item i)"
  using bytesRequired_256 [of i] by (simp add: int_item_def rlp_max_def)

lemma payload_encode:
  assumes "fits (Items xs)"
  shows "payload (encodeItem (Items xs)) = Inr (concat (map encodeItem xs))"
  using at_item_payload [OF at_item_list [of "concat (map encodeItem xs)" "[]"]] assms by (simp add: Let_def)

lemma fits_items:
  assumes "\<forall>i\<in>set is. i < 2 ^ 256" "length is \<le> 5"
  shows "fits (Items (map int_item is))"
proof -
  have "length (concat (map (encodeItem \<circ> int_item) is)) \<le> 33 * length is"
    using assms(1) length_int_item
    by (induction "is") (fastforce simp del: encodeItem.simps)+
  then have "length (concat (map encodeItem (map int_item is))) < rlp_max"
    using assms(2) by (simp add: rlp_max_def del: encodeItem.simps)
  then show ?thesis using assms(1) fits_int_item by (simp add: list_all_iff)
qed

definition storable :: "Account \<Rightarrow> bool" where
  "storable x \<longleftrightarrow> 0 \<le> m_storageUsed x \<and> m_storageUsed x < 2 ^ 256"

lemma fits_account: "storable x \<Longrightarrow> fits (accountItem x)"
  unfolding accountItem_def by (intro fits_items) (auto simp: storable_def nat_less_iff unat_u256 [simplified])

lemma encodeAccount_item:
  assumes "storable x"
  shows "encodeAccount x = Inr (encodeItem (accountItem x))"
proof -
  have b: "bytesRequired (unat (w :: u256)) < rlp_max" for w
    using bytesRequired_256 [OF unat_u256, of w] by (simp add: rlp_max_def)
  have "bytesRequired (nat (m_storageUsed x)) < rlp_max"
    using bytesRequired_256 [of "nat (m_storageUsed x)"] assms by (simp add: rlp_max_def storable_def nat_less_iff)
  then have "bindE (append_item (accountItem x) RLPStream_new) stream_out =
      bindE (appendList 4 RLPStream_new) (\<lambda>r. bindE (append_int (unat (m_nonce x)) r) (\<lambda>r.
        bindE (append_int (unat (m_balance x)) r) (\<lambda>r. bindE (append_int (unat (m_codeHash x)) r) (\<lambda>r.
        bindE (append_int (nat (m_storageUsed x)) r) stream_out))))"
    by (simp add: accountItem_def append_int_is_item b bindE_assoc eval_nat_numeral)
  with rlp_stream_item [OF fits_account [OF assms]] assms show ?thesis
    by (simp add: encodeAccount_def mapErr_def storable_def)
qed

text \<open>What is read back: the account without its caches, its version and its mark.\<close>

definition reloaded :: "'d Env \<Rightarrow> Account \<Rightarrow> Account" where
  "reloaded E x = Account_full (sha3 E) (m_nonce x) (m_balance x) (EmptyTrie (sha3 E)) (m_codeHash x) 0
     Unchanged (m_storageUsed x)"

lemma decodeAccount_item:
  assumes x: "storable x" and E: "32 \<le> s256_size E"
  shows "decodeAccount E (encodeItem (accountItem x)) = Inr (reloaded E x)"
proof -
  let ?d = "encodeItem (accountItem x)"
  define xs where "xs = map (encodeItem \<circ> int_item)
    [unat (m_nonce x), unat (m_balance x), unat (m_codeHash x), nat (m_storageUsed x)]"
  note f = fits_account [OF x]
  have pl: "payload ?d = Inr (concat xs)"
    using payload_encode [of "map int_item [unat (m_nonce x), unat (m_balance x), unat (m_codeHash x), nat (m_storageUsed x)]"] f
    by (simp add: accountItem_def xs_def)
  have sp: "split_items (concat xs) = Inr xs"
    using f split_items_encode [of "map int_item [unat (m_nonce x), unat (m_balance x), unat (m_codeHash x), nat (m_storageUsed x)]"]
    by (simp add: accountItem_def xs_def)
  have c: "cacheOK xs initCache" by (simp add: cacheOK_def initCache_def)
  obtain c0 c1 c2 c3 c4 where s:
      "subscript ?d 0 initCache = Inr (item_at xs 0, c0)" "subscript ?d 1 c0 = Inr (item_at xs 1, c1)"
      "subscript ?d 2 c1 = Inr (item_at xs 2, c2)" "subscript ?d 3 c2 = Inr (item_at xs 3, c3)"
      "subscript ?d 4 c3 = Inr (item_at xs 4, c4)"
    using subscript_correct [OF pl sp] c by metis
  have it: "item_at xs 0 = encodeItem (int_item (unat (m_nonce x)))"
    "item_at xs 1 = encodeItem (int_item (unat (m_balance x)))"
    "item_at xs 2 = encodeItem (int_item (unat (m_codeHash x)))"
    "item_at xs 3 = encodeItem (int_item (nat (m_storageUsed x)))" "item_at xs 4 = []"
    by (simp_all add: item_at_def xs_def)
  have r: "toInt n Strict (encodeItem (int_item i)) = Inr i" if "i < 2 ^ 256" "32 \<le> n" for i n
    using bytesRequired_256 [OF that(1)] that(2) by (intro toInt_int_item) (auto simp: rlp_max_def)
  have "nat (m_storageUsed x) < 2 ^ 256" using x by (simp add: storable_def nat_less_iff)
  with r [OF unat_u256] r [OF this E] x RLP_ctor_encode [OF f] show ?thesis
    by (simp add: decodeAccount_def s it isNull_def reloaded_def storable_def del: One_nat_def)
qed

end
