(* ===== verification/OverlayDB_Commit.thy ===== *)
theory OverlayDB_Commit
  imports OverlayDB
begin

text \<open>
  What \<open>OverlayDB::commit\<close> leaves in the database.  The six kinds of keys have different
  lengths (20, 21, 52, 11, 31 and 27 bytes), so that the records of accounts, code, storage
  and the three counters never meet; \<open>odb_ok\<close> is the invariant of the caches.
\<close>

subsection \<open>Association lists\<close>

lemma map_of_rev_distinct: "distinct (map fst xs) \<Longrightarrow> map_of (rev xs) = map_of xs"
proof (induction xs)
  case (Cons x xs)
  then have "map_of xs (fst x) = None" by (simp add: map_of_eq_None_iff)
  with Cons show ?case by (auto simp: map_add_def fun_eq_iff split: option.splits)
qed simp

lemma map_of_map_inj:
  assumes "\<And>a b. f a = f b \<longleftrightarrow> a = b"
  shows "map_of (map (\<lambda>(a, v). (f a, g v)) c) (f a) = map_option g (map_of c a)"
  using assms by (induction c) auto

lemma map_of_nested:
  assumes "\<And>a k a' k'. f a k = f a' k' \<longleftrightarrow> a = a' \<and> k = k'" "distinct (map fst sc)"
  shows "map_of (concat (map (\<lambda>(a, m). map (\<lambda>(k, v). (f a k, g v)) m) sc)) (f a k) =
    (case map_of sc a of None \<Rightarrow> None | Some m \<Rightarrow> map_option g (map_of m k))"
  using assms(2)
proof (induction sc)
  case (Cons x sc)
  obtain a' m where x: "x = (a', m)" by fastforce
  have self: "map_of (map (\<lambda>(k, v). (f a' k, g v)) m) (f a k) =
      (if a = a' then map_option g (map_of m k) else None)"
    using assms(1) by (induction m) auto
  have none: "map_of sc a' = None" using Cons(2) by (simp add: x map_of_eq_None_iff)
  show ?case
  proof (cases "a = a'")
    case True
    with self none Cons show ?thesis by (cases "map_of m k") (simp_all add: x map_add_def)
  next
    case False
    with self Cons show ?thesis by (simp add: x map_add_def split: option.split)
  qed
qed simp

lemma fst_nested:
  assumes "x \<in> set (concat (map (\<lambda>(a, m). map (\<lambda>(k, v). (f a k, g v)) m) sc))"
  shows "\<exists>a k. fst x = f a k \<and> a \<in> fst ` set sc"
  using assms by force

lemma distinct_nested:
  assumes "\<And>a k a' k'. f a k = f a' k' \<longleftrightarrow> a = a' \<and> k = k'" "distinct (map fst sc)"
    "\<And>a m. (a, m) \<in> set sc \<Longrightarrow> distinct (map fst m)"
  shows "distinct (map fst (concat (map (\<lambda>(a, m). map (\<lambda>(k, v). (f a k, g v)) m) sc)))"
  using assms(2,3)
proof (induction sc)
  case (Cons x sc)
  obtain a m where x: "x = (a, m)" by fastforce
  have "inj (f a)" using assms(1) by (auto intro: injI)
  moreover have "map fst (map (\<lambda>(k, v). (f a k, g v)) m) = map (f a) (map fst m)" by auto
  ultimately have "distinct (map fst (map (\<lambda>(k, v). (f a k, g v)) m))"
    using Cons(3) [of a m] by (simp only: distinct_map) (auto simp: x inj_on_def)
  moreover have "f a k \<noteq> fst y"
    if "y \<in> set (concat (map (\<lambda>(a, m). map (\<lambda>(k, v). (f a k, g v)) m) sc))" for k y
    using fst_nested [OF that] Cons(2) assms(1) by (auto simp: x image_iff)
  moreover have "distinct (map fst (concat (map (\<lambda>(a, m). map (\<lambda>(k, v). (f a k, g v)) m) sc)))"
    using Cons(2,3) by (intro Cons(1)) auto
  ultimately show ?case
    by (auto simp: x simp del: set_concat)
qed simp

subsection \<open>Batches\<close>

definition batchOf :: "'d batched_db \<Rightarrow> batch_op list" where
  "batchOf b = (case bdb_batch b of None \<Rightarrow> [] | Some ws \<Rightarrow> ws)"

lemma fold_bdb_write:
  "ws \<noteq> [] \<Longrightarrow> fold bdb_write ws b = b\<lparr>bdb_batch := Some (batchOf b @ ws)\<rparr>"
proof (induction ws arbitrary: b)
  case (Cons w ws)
  have "bdb_write w b = b\<lparr>bdb_batch := Some (batchOf b @ [w])\<rparr>"
    by (simp add: bdb_write_def ensure_batch_def batchOf_def split: option.splits)
  with Cons show ?case by (cases ws) (simp_all add: batchOf_def)
qed simp

lemma bdb_commit_writes:
  "ws \<noteq> [] \<Longrightarrow> bdb_commit E (fold bdb_write ws b) =
    (let (ok, d) = d_commit E (batchOf b @ ws) (bdb_db b) in (ok, \<lparr>bdb_db = d, bdb_batch = None\<rparr>))"
  by (simp add: fold_bdb_write bdb_commit_def ensure_batch_def split: prod.split)

fun op_pair :: "batch_op \<Rightarrow> bytes \<times> bytes option" where
  "op_pair (Insert k v) = (k, Some v)"
| "op_pair (Kill k) = (k, None)"

definition last_op :: "batch_op list \<Rightarrow> bytes \<Rightarrow> bytes option option" where
  "last_op ws = map_of (rev (map op_pair ws))"

lemma last_op_append: "last_op (as @ bs) k = (case last_op bs k of None \<Rightarrow> last_op as k | Some r \<Rightarrow> Some r)"
  by (simp add: last_op_def map_add_def split: option.splits)

lemma fold_apply_op:
  "fold apply_op ws m k = (case last_op ws k of None \<Rightarrow> m k | Some r \<Rightarrow> r)"
proof (induction ws arbitrary: m)
  case (Cons w ws)
  have "last_op (w # ws) k = (case last_op ws k of None \<Rightarrow> last_op [w] k | Some r \<Rightarrow> Some r)"
    using last_op_append [of "[w]" ws k] by simp
  with Cons show ?case by (cases w) (auto simp: last_op_def split: option.splits)
qed (simp add: last_op_def)

lemma last_op_distinct:
  "map op_pair ws = ps \<Longrightarrow> distinct (map fst ps) \<Longrightarrow> last_op ws = map_of ps"
  by (simp add: last_op_def map_of_rev_distinct)

lemma last_op_other:
  "(\<And>w. w \<in> set ws \<Longrightarrow> length (fst (op_pair w)) \<noteq> length k) \<Longrightarrow> last_op ws k = None"
  by (fastforce simp: last_op_def map_of_eq_None_iff)

subsection \<open>The keys\<close>

lemma length_asBytes [simp]: "length (asBytes s) = length s"
  by (simp add: asBytes_def)

lemma length_keys [simp]:
  "length (getAuxiliaryKey a sp) = 21" "length (getStorageKey a k) = 52"
  by (simp_all add: getAuxiliaryKey_def getStorageKey_def)

lemma getAuxiliaryKey_inj [simp]:
  "getAuxiliaryKey a sp = getAuxiliaryKey a' sp' \<longleftrightarrow> a = a' \<and> sp = sp'"
  by (simp add: getAuxiliaryKey_def)

lemma getStorageKey_inj [simp]: "getStorageKey a k = getStorageKey a' k' \<longleftrightarrow> a = a' \<and> k = k'"
  by (simp add: getStorageKey_def)

definition odb_ok :: "'d OverlayDB \<Rightarrow> bool" where
  "odb_ok o' \<longleftrightarrow>
    distinct (map fst (odb_cache o')) \<and>
    distinct (map fst (odb_auxiliaryCache o')) \<and>
    (\<forall>(a, m)\<in>set (odb_auxiliaryCache o'). distinct (map fst m)) \<and>
    distinct (map fst (odb_storageCache o')) \<and>
    (\<forall>(a, m)\<in>set (odb_storageCache o'). distinct (map fst m)) \<and>
    (\<forall>b. odb_db_face o' = Some b \<longrightarrow>
      (\<forall>w\<in>set (batchOf b). \<exists>k. w = Kill k \<and> (length k = 20 \<or> length k = 21)))"

lemma commitWrites_ne [simp]: "commitWrites E o' \<noteq> []"
  by (simp add: commitWrites_def)

lemma op_pair_storageWrite:
  "op_pair (storageWrite E a x) =
    (getStorageKey a (fst x), if working E ContractStorageZeroValuePatch \<and> snd x = 0 then None
      else Some (h256_bytes (snd x)))"
  by (cases x) (simp add: storageWrite_def)

lemma last_op_kinds:
  "length k \<noteq> 20 \<Longrightarrow> last_op (map (\<lambda>(a, v). Insert (h160_bytes a) v) c) k = None"
  "length k \<noteq> 21 \<Longrightarrow> last_op (concat (map (\<lambda>(a, m). map (\<lambda>(space, v).
     Insert (getAuxiliaryKey a space) v) m) ac)) k = None"
  "length k \<noteq> 52 \<Longrightarrow> last_op (commitStorageValues E o') k = None"
  "length k \<noteq> 11 \<Longrightarrow> length k \<noteq> 31 \<Longrightarrow> length k \<noteq> 27 \<Longrightarrow>
     last_op [Insert key_storageUsed x, Insert key_lastHash y, Insert key_lastReceipts z] k = None"
  by (rule last_op_other; auto simp: commitStorageValues_def op_pair_storageWrite)+

lemmas last_op_commit = commitWrites_def last_op_append last_op_kinds

lemma last_op_accounts:
  assumes "odb_ok o'"
  shows "last_op (commitWrites E o') (h160_bytes a) = map_option Some (map_of (odb_cache o') a)"
proof -
  let ?A = "map (\<lambda>(a, v). Insert (h160_bytes a) v) (odb_cache o')"
  have A: "map op_pair ?A = map (\<lambda>(a, v). (h160_bytes a, Some v)) (odb_cache o')" by auto
  have "distinct (map fst (map (\<lambda>(a, v). (h160_bytes a, Some v)) (odb_cache o')))"
    using assms by (auto simp: odb_ok_def distinct_map inj_on_def comp_def split_beta)
  then have "last_op ?A (h160_bytes a) = map_option Some (map_of (odb_cache o') a)"
    by (simp add: last_op_distinct [OF A] map_of_map_inj)
  then show ?thesis by (simp add: last_op_commit)
qed

lemma last_op_aux:
  assumes "odb_ok o'"
  shows "last_op (commitWrites E o') (getAuxiliaryKey a sp) = map_option Some (auxCached o' a sp)"
proof -
  let ?B = "concat (map (\<lambda>(a, m). map (\<lambda>(space, v). Insert (getAuxiliaryKey a space) v) m)
      (odb_auxiliaryCache o'))"
  have B: "map op_pair ?B = concat (map (\<lambda>(a, m). map (\<lambda>(sp, v). (getAuxiliaryKey a sp, Some v)) m)
      (odb_auxiliaryCache o'))"
    by (auto simp: map_concat intro!: arg_cong [where f = concat])
  have "last_op ?B (getAuxiliaryKey a sp) = map_option Some (auxCached o' a sp)"
    using assms
    by (subst last_op_distinct [OF B])
      (auto simp: map_of_nested odb_ok_def auxCached_def intro!: distinct_nested split: option.split)
  then show ?thesis
    by (simp add: last_op_commit split: option.split)
qed

definition storageRecord :: "'d Env \<Rightarrow> h256 \<Rightarrow> bytes option" where
  "storageRecord E v = (if working E ContractStorageZeroValuePatch \<and> v = 0 then None
    else Some (h256_bytes v))"

lemma last_op_storage:
  assumes "odb_ok o'"
  shows "last_op (commitWrites E o') (getStorageKey a k) =
    map_option (storageRecord E) (storageCached o' a k)"
proof -
  have C: "map op_pair (commitStorageValues E o') =
      concat (map (\<lambda>(a, m). map (\<lambda>(k, v). (getStorageKey a k, storageRecord E v)) m) (odb_storageCache o'))"
    by (auto simp: commitStorageValues_def map_concat op_pair_storageWrite storageRecord_def
        intro!: arg_cong [where f = concat])
  have "last_op (commitStorageValues E o') (getStorageKey a k) =
      map_option (storageRecord E) (storageCached o' a k)"
    using assms
    by (subst last_op_distinct [OF C])
      (auto simp: map_of_nested odb_ok_def storageCached_def intro!: distinct_nested split: option.split)
  then show ?thesis
    by (simp add: last_op_commit split: option.split)
qed

lemma last_op_counters:
  "last_op (commitWrites E o') key_storageUsed = Some (Some (s256_str E (odb_storageUsed o')))"
  "last_op (commitWrites E o') key_lastHash =
    Some (Some (h256_bytes (fst (getLastExecutedTransactionHash E o'))))"
  "last_op (commitWrites E o') key_lastReceipts = Some (Some (fst (getPartialTransactionReceipts E o')))"
  by (simp_all add: last_op_commit, simp_all add: last_op_def asBytes_def)

subsection \<open>After a commit\<close>

definition kills :: "batch_op list \<Rightarrow> bytes \<Rightarrow> bool" where
  "kills ws k \<longleftrightarrow> Kill k \<in> set ws"

lemma last_op_kills:
  assumes "\<forall>w\<in>set ws. \<exists>k. w = Kill k"
  shows "last_op ws k = (if kills ws k then Some None else None)"
  using assms
proof (induction ws rule: rev_induct)
  case (snoc w ws)
  then obtain k' where "w = Kill k'" by auto
  with snoc show ?case by (auto simp: last_op_append kills_def) (auto simp: last_op_def)
qed (simp add: last_op_def kills_def)

lemma env_lookup: "env_ok E \<Longrightarrow> bdb_lookup E b k = (case contents E (bdb_db b) k of None \<Rightarrow> [] | Some v \<Rightarrow> v)"
  by (simp add: env_ok_def bdb_lookup_def)

text \<open>
  \<open>persisted E ws o' b o''\<close>: the object \<open>o''\<close> has empty caches over a database that holds what
  \<open>o'\<close> had cached, and otherwise what \<open>b\<close> held, without the records that \<open>ws\<close> deletes.
\<close>

definition persisted :: "'d Env \<Rightarrow> batch_op list \<Rightarrow> 'd OverlayDB \<Rightarrow> 'd batched_db \<Rightarrow> 'd OverlayDB \<Rightarrow> bool" where
  "persisted E ws o' b o'' \<longleftrightarrow>
    odb_cache o'' = [] \<and> odb_auxiliaryCache o'' = [] \<and> odb_storageCache o'' = [] \<and>
    (\<exists>b''. odb_db_face o'' = Some b'' \<and> bdb_batch b'' = None) \<and>
    (\<forall>a. OverlayDB_lookup E o'' a = (case map_of (odb_cache o') a of Some v \<Rightarrow> v
       | None \<Rightarrow> if kills ws (h160_bytes a) then [] else bdb_lookup E b (h160_bytes a))) \<and>
    (\<forall>a sp. OverlayDB_lookupAuxiliary E o'' a sp = (case auxCached o' a sp of Some v \<Rightarrow> v
       | None \<Rightarrow> if kills ws (getAuxiliaryKey a sp) then [] else bdb_lookup E b (getAuxiliaryKey a sp))) \<and>
    (\<forall>a k. OverlayDB_lookupStorage E o'' a k = OverlayDB_lookupStorage E o' a k) \<and>
    OverlayDB_storageUsed E o'' = odb_storageUsed o' \<and>
    fst (getLastExecutedTransactionHash E o'') = fst (getLastExecutedTransactionHash E o') \<and>
    fst (getPartialTransactionReceipts E o'') = fst (getPartialTransactionReceipts E o')"

lemma persistedI:
  assumes E: "env_ok E" and o': "odb_ok o'" "odb_db_face o' = Some b"
    and ws: "\<forall>w\<in>set ws. \<exists>k. w = Kill k \<and> (length k = 20 \<or> length k = 21)"
    and d': "contents E d' = fold apply_op (ws @ commitWrites E o') (contents E (bdb_db b))"
    and o'': "odb_cache o'' = []" "odb_auxiliaryCache o'' = []" "odb_storageCache o'' = []"
      "odb_db_face o'' = Some \<lparr>bdb_db = d', bdb_batch = None\<rparr>"
      "lastExecutedTransactionHash o'' \<in> {None, Some (fst (getLastExecutedTransactionHash E o'))}"
      "lastExecutedTransactionReceipts o'' \<in> {None, Some (fst (getPartialTransactionReceipts E o'))}"
  shows "persisted E ws o' b o''"
proof -
  have ks: "last_op ws k = (if kills ws k then Some None else None)" for k
    using ws by (intro last_op_kills) blast
  have short: "kills ws k \<Longrightarrow> length k = 20 \<or> length k = 21" for k
    using ws by (auto simp: kills_def)
  have get: "contents E d' k = (case last_op (commitWrites E o') k of
      None \<Rightarrow> if kills ws k then None else contents E (bdb_db b) k | Some r \<Rightarrow> r)" for k
    unfolding d' by (simp add: fold_apply_op last_op_append ks split: option.split)
  have used: "\<not> kills ws key_storageUsed"
    using short [of key_storageUsed] by auto
  have st: "\<not> kills ws (getStorageKey a k)" for a k
    using short [of "getStorageKey a k"] by auto
  have "OverlayDB_lookup E o'' a = (case map_of (odb_cache o') a of Some v \<Rightarrow> v
      | None \<Rightarrow> if kills ws (h160_bytes a) then [] else bdb_lookup E b (h160_bytes a))" for a
    by (simp add: OverlayDB_lookup_def o'' env_lookup [OF E] get last_op_accounts [OF o'(1)]
        split: option.split)
  moreover have "OverlayDB_lookupAuxiliary E o'' a sp = (case auxCached o' a sp of Some v \<Rightarrow> v
      | None \<Rightarrow> if kills ws (getAuxiliaryKey a sp) then [] else bdb_lookup E b (getAuxiliaryKey a sp))" for a sp
    by (simp add: OverlayDB_lookupAuxiliary_def auxCached_def [of o''] o'' env_lookup [OF E] get
        last_op_aux [OF o'(1)] split: option.split)
  moreover have "OverlayDB_lookupStorage E o'' a k = OverlayDB_lookupStorage E o' a k" for a k
    by (simp add: OverlayDB_lookupStorage_def storageCached_def [of o''] o'' env_lookup [OF E] get
        last_op_storage [OF o'(1)] o'(2) st storageRecord_def split: option.split)
  moreover have "OverlayDB_storageUsed E o'' = odb_storageUsed o'"
    using E by (simp add: OverlayDB_storageUsed_def o'' env_lookup get last_op_counters env_ok_def)
  moreover have "h256_bytes x \<noteq> []" for x
    using length_h256_bytes [of x] by (metis length_0_conv zero_neq_numeral)
  then have "fst (getLastExecutedTransactionHash E o'') = fst (getLastExecutedTransactionHash E o')"
    using o''(5) by (auto simp: getLastExecutedTransactionHash_def [of E o''] o'' env_lookup [OF E] get
        last_op_counters Let_def)
  moreover have "fst (getPartialTransactionReceipts E o'') = fst (getPartialTransactionReceipts E o')"
    using o''(6) by (auto simp: getPartialTransactionReceipts_def [of E o''] o'' env_lookup [OF E] get
        last_op_counters Let_def)
  ultimately show ?thesis
    by (simp add: persisted_def o'')
qed

lemma getters_same [simp]:
  "odb_cache (snd (getLastExecutedTransactionHash E o')) = odb_cache o'"
  "odb_auxiliaryCache (snd (getLastExecutedTransactionHash E o')) = odb_auxiliaryCache o'"
  "odb_storageCache (snd (getLastExecutedTransactionHash E o')) = odb_storageCache o'"
  "odb_storageUsed (snd (getLastExecutedTransactionHash E o')) = odb_storageUsed o'"
  "odb_db_face (snd (getLastExecutedTransactionHash E o')) = odb_db_face o'"
  "odb_cache (snd (getPartialTransactionReceipts E o')) = odb_cache o'"
  "odb_auxiliaryCache (snd (getPartialTransactionReceipts E o')) = odb_auxiliaryCache o'"
  "odb_storageCache (snd (getPartialTransactionReceipts E o')) = odb_storageCache o'"
  "odb_storageUsed (snd (getPartialTransactionReceipts E o')) = odb_storageUsed o'"
  "odb_db_face (snd (getPartialTransactionReceipts E o')) = odb_db_face o'"
  by (simp_all add: getLastExecutedTransactionHash_def getPartialTransactionReceipts_def Let_def
      split: option.split)

text \<open>The object with both values remembered.\<close>

abbreviation noted :: "'d Env \<Rightarrow> 'd OverlayDB \<Rightarrow> 'd OverlayDB" where
  "noted E o' \<equiv> snd (getPartialTransactionReceipts E (snd (getLastExecutedTransactionHash E o')))"

lemma noted_values [simp]:
  "lastExecutedTransactionHash (noted E o') = Some (fst (getLastExecutedTransactionHash E o'))"
  "lastExecutedTransactionReceipts (noted E o') = Some (fst (getPartialTransactionReceipts E o'))"
  by (simp_all add: getLastExecutedTransactionHash_def getPartialTransactionReceipts_def Let_def
      split: option.split)

lemma getters_noted [simp]:
  "fst (getLastExecutedTransactionHash E (noted E o')) = fst (getLastExecutedTransactionHash E o')"
  "fst (getPartialTransactionReceipts E (noted E o')) = fst (getPartialTransactionReceipts E o')"
  by (simp_all add: getLastExecutedTransactionHash_def [of E "noted E o'"]
      getPartialTransactionReceipts_def [of E "noted E o'"])

lemma noted_noted [simp]: "noted E (noted E o') = noted E o'"
  by (simp add: getLastExecutedTransactionHash_def [of E "noted E o'"]
      getPartialTransactionReceipts_def [of E "noted E o'"])

lemma commitWrites_noted [simp]: "commitWrites E (noted E o') = commitWrites E o'"
  by (simp add: commitWrites_def commitStorageValues_def)

text \<open>
  A successful run of attempts: the batch that goes through holds the writes of the caches, and
  what was pending before only when the first attempt is the one that succeeds.
\<close>

lemma commitTries_Some:
  assumes "env_ok E" "commitTries E n b o' = Some o2"
  shows "\<exists>d'. o2 = (noted E o')\<lparr>odb_db_face := Some \<lparr>bdb_db = d', bdb_batch = None\<rparr>\<rparr> \<and>
    contents E d' = fold apply_op
      ((if fst (d_commit E (batchOf b @ commitWrites E o') (bdb_db b)) then batchOf b else [])
        @ commitWrites E o') (contents E (bdb_db b))"
  using assms(2)
proof (induction n arbitrary: b o')
  case (Suc n)
  obtain ok d where c: "d_commit E (batchOf b @ commitWrites E o') (bdb_db b) = (ok, d)" by fastforce
  show ?case
  proof (cases ok)
    case True
    then show ?thesis
      using Suc(2) c assms(1) by (auto simp: bdb_commit_writes env_ok_def Let_def)
  next
    case False
    let ?b = "\<lparr>bdb_db = d, bdb_batch = None\<rparr>"
    have none: "batchOf ?b = []" by (simp add: batchOf_def)
    have "commitTries E n ?b (noted E o') = Some o2"
      using Suc(2) False c by (simp add: bdb_commit_writes Let_def)
    from Suc(1) [OF this] have "\<exists>d'. o2 = (noted E o')\<lparr>odb_db_face := Some \<lparr>bdb_db = d', bdb_batch = None\<rparr>\<rparr> \<and>
        contents E d' = fold apply_op (commitWrites E o') (contents E d)"
      by (simp add: none cong: if_cong)
    moreover have "contents E d = contents E (bdb_db b)"
      using c False assms(1) by (simp add: env_ok_def)
    ultimately show ?thesis using c False by simp
  qed
qed simp

lemma OverlayDB_commit_persisted:
  assumes E: "env_ok E" and o': "odb_ok o'" "odb_db_face o' = Some b"
    and c: "OverlayDB_commit E o' = Some o''"
    and ws: "ws = (if fst (d_commit E (batchOf b @ commitWrites E o') (bdb_db b)) then batchOf b else [])"
  shows "persisted E ws o' b o''" "persisted E ws o' b (OverlayDB_new (odb_db_face o''))"
proof -
  obtain o2 where o2: "commitTries E 10 b o' = Some o2"
    "o'' = OverlayDB_rollback (o2\<lparr>odb_db_face := map_option bdb_revert (odb_db_face o2)\<rparr>)"
    using c o'(2) by (auto simp: OverlayDB_commit_def)
  from commitTries_Some [OF E this(1)] obtain d' where
    d': "o2 = (noted E o')\<lparr>odb_db_face := Some \<lparr>bdb_db = d', bdb_batch = None\<rparr>\<rparr>"
      "contents E d' = fold apply_op (ws @ commitWrites E o') (contents E (bdb_db b))"
    unfolding ws by blast
  have k: "\<forall>w\<in>set ws. \<exists>k. w = Kill k \<and> (length k = 20 \<or> length k = 21)"
    using o' by (auto simp: ws odb_ok_def)
  show "persisted E ws o' b o''" "persisted E ws o' b (OverlayDB_new (odb_db_face o''))"
    using o2(2) d'(1)
    by (auto intro!: persistedI [OF E o' k d'(2)]
        simp: OverlayDB_rollback_def bdb_revert_def OverlayDB_new_def)
qed


subsection \<open>The invariant\<close>

lemma set_update: "distinct (map fst m) \<Longrightarrow> set (AList.update a v m) = insert (a, v) {x \<in> set m. fst x \<noteq> a}"
  by (induction m) (auto simp: image_iff)

lemma set_delete: "set (AList.delete a m) = {x \<in> set m. fst x \<noteq> a}"
  by (auto simp: AList.delete_eq)

lemmas odb_ok_simps = odb_ok_def set_update set_delete distinct_update distinct_delete

lemma batchOf_kill [simp]: "batchOf (bdb_kill k b) = batchOf b @ [Kill k]"
  by (simp add: bdb_kill_def bdb_write_def ensure_batch_def batchOf_def split: option.split)

lemma odb_ok_insert [simp]: "odb_ok o' \<Longrightarrow> odb_ok (OverlayDB_insert a v o')"
  by (auto simp: OverlayDB_insert_def odb_ok_simps)

lemma odb_ok_insertAuxiliary [simp]: "odb_ok o' \<Longrightarrow> odb_ok (OverlayDB_insertAuxiliary a v sp o')"
  by (auto simp: OverlayDB_insertAuxiliary_def odb_ok_simps dest!: map_of_SomeD split: option.split)

lemma odb_ok_insertStorage [simp]: "odb_ok o' \<Longrightarrow> odb_ok (OverlayDB_insertStorage a k v o')"
  by (auto simp: OverlayDB_insertStorage_def odb_ok_simps dest!: map_of_SomeD split: option.split)

lemma odb_ok_killInDb: "odb_ok o' \<Longrightarrow> length k = 20 \<or> length k = 21 \<Longrightarrow> odb_ok (killInDb E k o')"
  by (auto simp: killInDb_def odb_ok_def split: option.split)

lemma odb_ok_kill [simp]: "odb_ok o' \<Longrightarrow> odb_ok (OverlayDB_kill E a o')"
  using odb_ok_killInDb [of o' "h160_bytes a" E]
  by (auto simp: OverlayDB_kill_def odb_ok_simps split: option.split)

lemma odb_ok_killAuxiliary [simp]: "odb_ok o' \<Longrightarrow> odb_ok (OverlayDB_killAuxiliary E a sp o')"
  using odb_ok_killInDb [of o' "getAuxiliaryKey a sp" E]
  by (auto simp: OverlayDB_killAuxiliary_def auxCached_def odb_ok_simps Let_def dest!: map_of_SomeD
      split: option.split option.splits)

lemma odb_ok_persisted: "persisted E ws o' b o'' \<Longrightarrow> odb_ok o''"
  by (auto simp: persisted_def odb_ok_def batchOf_def)

end
