(* ===== verification/State_Commit.thy ===== *)
theory State_Commit
  imports State_Codec OverlayDB_Commit
begin

text \<open>
  \<open>State::commit\<close>: the loop over the cache leaves in the write cache of the database exactly
  the records of the changed accounts, and after the commit of the database the view of the new,
  empty cache is the view of the old one, without the accounts that were killed.
\<close>

subsection \<open>The write cache\<close>

definition untouched :: "address \<Rightarrow> 'd OverlayDB \<Rightarrow> bool" where
  "untouched a db \<longleftrightarrow> map_of (odb_cache db) a = None \<and> auxCached db a CODE = None \<and>
    (\<forall>k. storageCached db a k = None) \<and>
    (\<forall>b. odb_db_face db = Some b \<longrightarrow>
      \<not> kills (batchOf b) (h160_bytes a) \<and> \<not> kills (batchOf b) (getAuxiliaryKey a CODE))"

definition killed :: "'d Env \<Rightarrow> address \<Rightarrow> 'd OverlayDB \<Rightarrow> bool" where
  "killed E a db \<longleftrightarrow> map_of (odb_cache db) a = None \<and> auxCached db a CODE = None \<and>
    (\<forall>b. odb_db_face db = Some b \<longrightarrow>
      (bdb_exists E b (h160_bytes a) \<longrightarrow> kills (batchOf b) (h160_bytes a)) \<and>
      (bdb_exists E b (getAuxiliaryKey a CODE) \<longrightarrow> kills (batchOf b) (getAuxiliaryKey a CODE)))"

definition stored :: "address \<Rightarrow> Account \<Rightarrow> 'd OverlayDB \<Rightarrow> bool" where
  "stored a x db \<longleftrightarrow> map_of (odb_cache db) a = Some (encodeItem (accountItem x)) \<and>
    auxCached db a CODE = (if m_hasNewCode x then Some (m_codeCache x) else None) \<and>
    storageCached db a = map_of (m_storageOverlay x) \<and>
    (\<forall>b. odb_db_face db = Some b \<longrightarrow> \<not> kills (batchOf b) (getAuxiliaryKey a CODE))"

definition written :: "'d Env \<Rightarrow> address \<Rightarrow> Account option \<Rightarrow> 'd OverlayDB \<Rightarrow> bool" where
  "written E a r db \<longleftrightarrow> (case r of
     None \<Rightarrow> untouched a db
   | Some x \<Rightarrow> if \<not> isDirty x then untouched a db else if \<not> m_isAlive x then killed E a db else stored a x db)"

text \<open>What is known of one address stays when another is written.\<close>

definition others :: "address \<Rightarrow> 'd OverlayDB \<Rightarrow> 'd OverlayDB \<Rightarrow> bool" where
  "others a db db' \<longleftrightarrow> (\<forall>c. c \<noteq> a \<longrightarrow> map_of (odb_cache db') c = map_of (odb_cache db) c \<and>
     auxCached db' c CODE = auxCached db c CODE \<and> storageCached db' c = storageCached db c) \<and>
    (case odb_db_face db of None \<Rightarrow> odb_db_face db' = None
     | Some b \<Rightarrow> \<exists>b'. odb_db_face db' = Some b' \<and> bdb_db b' = bdb_db b \<and>
       (\<forall>c. c \<noteq> a \<longrightarrow> kills (batchOf b') (h160_bytes c) = kills (batchOf b) (h160_bytes c) \<and>
         kills (batchOf b') (getAuxiliaryKey c CODE) = kills (batchOf b) (getAuxiliaryKey c CODE)))"

lemma others_refl [simp]: "others a db db"
  by (simp add: others_def split: option.split)

lemma others_trans: "others a db db' \<Longrightarrow> others a db' db'' \<Longrightarrow> others a db db''"
  by (fastforce simp: others_def split: option.splits)

lemma others_known:
  assumes "others a db db'" "c \<noteq> a"
  shows "untouched c db \<Longrightarrow> untouched c db'" "killed E c db \<Longrightarrow> killed E c db'" "stored c x db \<Longrightarrow> stored c x db'"
  using assms
  by (auto simp: others_def untouched_def killed_def stored_def bdb_exists_def split: option.splits)

lemma others_written: "others a db db' \<Longrightarrow> c \<noteq> a \<Longrightarrow> written E c r db \<Longrightarrow> written E c r db'"
  using others_known [of a db db' c] by (auto simp: written_def split: option.splits if_splits)

subsection \<open>Writing one account\<close>

lemma storageCached_insert:
  "storageCached (OverlayDB_insertStorage a k v db) =
    (storageCached db)(a := (storageCached db a)(k \<mapsto> v))"
  by (auto simp: fun_eq_iff storageCached_def OverlayDB_insertStorage_def Let_def update_conv' split: option.split)

lemma insertStorage_same [simp]:
  "odb_cache (OverlayDB_insertStorage a k v db) = odb_cache db"
  "auxCached (OverlayDB_insertStorage a k v db) = auxCached db"
  "odb_db_face (OverlayDB_insertStorage a k v db) = odb_db_face db"
  by (simp_all add: OverlayDB_insertStorage_def Let_def auxCached_def fun_eq_iff)

lemma auxCached_insert:
  "auxCached (OverlayDB_insertAuxiliary a v sp db) = (auxCached db)(a := (auxCached db a)(sp \<mapsto> v))"
  by (auto simp: fun_eq_iff auxCached_def OverlayDB_insertAuxiliary_def Let_def update_conv' split: option.split)

lemma insertAuxiliary_same [simp]:
  "odb_cache (OverlayDB_insertAuxiliary a v sp db) = odb_cache db"
  "storageCached (OverlayDB_insertAuxiliary a v sp db) = storageCached db"
  "odb_db_face (OverlayDB_insertAuxiliary a v sp db) = odb_db_face db"
  by (simp_all add: OverlayDB_insertAuxiliary_def Let_def storageCached_def fun_eq_iff)

lemma insert_same [simp]:
  "map_of (odb_cache (OverlayDB_insert a v db)) = (map_of (odb_cache db))(a \<mapsto> v)"
  "auxCached (OverlayDB_insert a v db) = auxCached db"
  "storageCached (OverlayDB_insert a v db) = storageCached db"
  "odb_db_face (OverlayDB_insert a v db) = odb_db_face db"
  by (simp_all add: OverlayDB_insert_def auxCached_def storageCached_def fun_eq_iff update_conv')

lemma others_inserts:
  "others a db (OverlayDB_insert a v db)" "others a db (OverlayDB_insertAuxiliary a w sp db)"
  "others a db (OverlayDB_insertStorage a k u db)"
  by (simp_all add: others_def auxCached_insert storageCached_insert split: option.split)

lemma kills_append [simp]: "kills (ws @ [Kill k']) k \<longleftrightarrow> kills ws k \<or> k = k'"
  by (auto simp: kills_def)

lemma bdb_kill_db [simp]: "bdb_db (bdb_kill k b) = bdb_db b"
  by (simp add: bdb_kill_def bdb_write_def ensure_batch_def split: option.split)

lemma kill_record:
  assumes "untouched a db"
  shows "others a db (OverlayDB_kill E a db)" "map_of (odb_cache (OverlayDB_kill E a db)) a = None"
    "auxCached (OverlayDB_kill E a db) a CODE = None"
    "\<And>b. odb_db_face (OverlayDB_kill E a db) = Some b \<Longrightarrow> bdb_exists E b (h160_bytes a) \<Longrightarrow> kills (batchOf b) (h160_bytes a)"
  using assms
  by (auto simp: untouched_def OverlayDB_kill_def killInDb_def others_def auxCached_def storageCached_def
      getAuxiliaryKey_def bdb_exists_def fun_eq_iff dest: arg_cong [where f = length] split: option.splits if_splits)

lemma kill_code:
  assumes "auxCached db a CODE = None"
  shows "others a db (OverlayDB_killAuxiliary E a CODE db)"
    "odb_cache (OverlayDB_killAuxiliary E a CODE db) = odb_cache db"
    "auxCached (OverlayDB_killAuxiliary E a CODE db) a CODE = None"
    "\<And>b. odb_db_face (OverlayDB_killAuxiliary E a CODE db) = Some b \<Longrightarrow>
      bdb_exists E b (getAuxiliaryKey a CODE) \<Longrightarrow> kills (batchOf b) (getAuxiliaryKey a CODE)"
    "\<And>b. odb_db_face (OverlayDB_killAuxiliary E a CODE db) = Some b \<Longrightarrow> \<exists>b'. odb_db_face db = Some b' \<and>
      bdb_db b' = bdb_db b \<and> (kills (batchOf b') (h160_bytes a) \<longrightarrow> kills (batchOf b) (h160_bytes a))"
  using assms
  by (auto simp: OverlayDB_killAuxiliary_def killInDb_def others_def auxCached_def storageCached_def
      bdb_exists_def getAuxiliaryKey_def fun_eq_iff dest: arg_cong [where f = length] split: option.splits if_splits)

lemma kill_killed:
  assumes "untouched a db" and db'_def: "db' = OverlayDB_killAuxiliary E a CODE (OverlayDB_kill E a db)"
  shows "killed E a db'" "others a db db'"
proof -
  note r = kill_record [OF assms(1), of E] and c = kill_code [OF kill_record(3) [OF assms(1), of E], of E]
  show "others a db db'" unfolding db'_def using others_trans [OF r(1) c(1)] .
  show "killed E a db'"
    unfolding killed_def db'_def using r(2,4) c(2,3,4,5) by (fastforce simp: bdb_exists_def)
qed

lemma fold_insertStorage:
  "storageCached (fold (\<lambda>(k, v). OverlayDB_insertStorage a k v) ov db) =
    (storageCached db)(a := storageCached db a ++ map_of (rev ov))"
  "odb_cache (fold (\<lambda>(k, v). OverlayDB_insertStorage a k v) ov db) = odb_cache db"
  "auxCached (fold (\<lambda>(k, v). OverlayDB_insertStorage a k v) ov db) = auxCached db"
  "odb_db_face (fold (\<lambda>(k, v). OverlayDB_insertStorage a k v) ov db) = odb_db_face db"
  "odb_ok db \<Longrightarrow> odb_ok (fold (\<lambda>(k, v). OverlayDB_insertStorage a k v) ov db)"
  by (induction ov arbitrary: db) (auto simp: storageCached_insert fun_eq_iff map_add_def split: option.split)

definition writeAccount :: "address \<Rightarrow> Account \<Rightarrow> 'd OverlayDB \<Rightarrow> 'd OverlayDB" where
  "writeAccount a x db = (let db = fold (\<lambda>(k, v). OverlayDB_insertStorage a k v) (m_storageOverlay x)
       (OverlayDB_insert a (encodeItem (accountItem x)) db)
     in if m_hasNewCode x then OverlayDB_insertAuxiliary a (m_codeCache x) CODE db else db)"

lemma writeAccount_stored:
  assumes "untouched a db" "distinct (map fst (m_storageOverlay x))"
  shows "stored a x (writeAccount a x db)" "others a db (writeAccount a x db)"
    "odb_ok db \<Longrightarrow> odb_ok (writeAccount a x db)"
proof -
  have "storageCached db a = Map.empty" using assms(1) by (auto simp: untouched_def)
  then show "stored a x (writeAccount a x db)"
    using assms by (auto simp: stored_def writeAccount_def Let_def fold_insertStorage map_of_rev_distinct
        auxCached_insert untouched_def)
  show "others a db (writeAccount a x db)"
    by (auto simp: others_def writeAccount_def Let_def fold_insertStorage auxCached_insert split: option.split)
  show "odb_ok db \<Longrightarrow> odb_ok (writeAccount a x db)"
    by (simp add: writeAccount_def Let_def fold_insertStorage)
qed

subsection \<open>Clearing the storage of a killed account\<close>

definition framed :: "address \<Rightarrow> 'd State \<Rightarrow> 'd State \<Rightarrow> bool" where
  "framed a t u \<longleftrightarrow> (odb_ok (m_db t) \<longrightarrow> odb_ok (m_db u)) \<and> others a (m_db t) (m_db u) \<and>
    odb_cache (m_db u) = odb_cache (m_db t) \<and> auxCached (m_db u) = auxCached (m_db t) \<and>
    odb_db_face (m_db u) = odb_db_face (m_db t) \<and>
    (\<forall>c. c \<noteq> a \<longrightarrow> map_of (m_cache u) c = map_of (m_cache t) c) \<and> map_of (m_cache u) a \<noteq> None \<and>
    m_storedVersion u = m_storedVersion t \<and> m_currentVersion u = m_currentVersion t \<and>
    m_nonExistingAccountsCache u = m_nonExistingAccountsCache t \<and> m_db_write_lock u = m_db_write_lock t \<and>
    m_initial_funds u = m_initial_funds t \<and> m_accountStartNonce u = m_accountStartNonce t"

lemma framed_refl: "map_of (m_cache t) a \<noteq> None \<Longrightarrow> framed a t t"
  by (simp add: framed_def)

lemma framed_step:
  assumes "framed a t u"
    "m_cache u' = AList.update a y (m_cache u) \<or> m_cache u' = AList.map_entry a f (m_cache u) \<or> m_cache u' = m_cache u"
    "m_db u' = m_db u \<or> m_db u' = OverlayDB_insertStorage a k v (m_db u)"
    "m_storedVersion u' = m_storedVersion u" "m_currentVersion u' = m_currentVersion u"
    "m_nonExistingAccountsCache u' = m_nonExistingAccountsCache u" "m_db_write_lock u' = m_db_write_lock u"
    "m_initial_funds u' = m_initial_funds u" "m_accountStartNonce u' = m_accountStartNonce u"
  shows "framed a t u'"
proof -
  obtain z where "map_of (m_cache u) a = Some z" using assms(1) by (auto simp: framed_def)
  then have "map_of (m_cache u') c = map_of (m_cache u) c" if "c \<noteq> a" for c
    using assms(2) that by (auto simp: update_conv' map_of_map_entry)
  moreover have "map_of (m_cache u') a \<noteq> None"
    using assms(2) \<open>map_of (m_cache u) a = Some z\<close> by (auto simp: update_conv' map_of_map_entry)
  moreover have "others a (m_db t) (m_db u')"
    using assms(1,3) others_trans others_inserts(3) by (fastforce simp: framed_def)
  ultimately show ?thesis
    using assms(1,3-) by (auto simp: framed_def)
qed

lemma clearStorage_framed:
  assumes "map_of (m_cache t) a \<noteq> None" "checkVersion t"
  shows "wpS (State_clearStorage E a) F (\<lambda>_. framed a t) t"
proof -
  obtain x where x: "map_of (m_cache t) a = Some x" using assms(1) by auto
  have step: "wpS (case z of (hk, key, w) \<Rightarrow> bindS (State_clearStorageValue E a key key) (\<lambda>_.
      bindS (updAccount a (Account_setStorageCache key 0)) (\<lambda>_.
      modS (\<lambda>s. s\<lparr>m_db := OverlayDB_insertStorage a key 0 (m_db s)\<rparr>)))) F (\<lambda>_. framed a t) u"
    if u: "framed a t u" for z u
  proof -
    obtain hk key w where z: "z = (hk, key, w)" by (cases z) auto
    have 1: "framed a t (addUsage a n (u\<lparr>m_changeLog := l,
        m_cache := AList.update a y (m_cache u)\<rparr>))" for n l y
      by (rule framed_step [OF u, where y = y]) (simp_all add: addUsage_def)
    have 2: "framed a t (u'\<lparr>m_cache := AList.map_entry a f (m_cache u'), m_db := OverlayDB_insertStorage a key 0 (m_db u')\<rparr>)"
      if "framed a t u'" for u' f
      by (rule framed_step [OF that, where f = f and k = key and v = 0]) simp_all
    show ?thesis
      using 2 [OF 1] by (simp add: z effS State_clearStorageValue_def cacheAt_def)
  qed
  have usage: "wpS (usageAt a) F Q = (\<lambda>u. Q (usageOf (storageUsage u) a)
      (u\<lparr>storageUsage := AList.update a (usageOf (storageUsage u) a) (storageUsage u)\<rparr>))" for F Q
    by (simp add: usageAt_def effS)
  have keep: "framed a t (u\<lparr>storageUsage := us\<rparr>)" if "framed a t u" for u us
    by (rule framed_step [OF that]) simp_all
  have loop: "wpS (forS slots (\<lambda>(hk, key, _). bindS (State_clearStorageValue E a key key) (\<lambda>_.
      bindS (updAccount a (Account_setStorageCache key 0)) (\<lambda>_.
      modS (\<lambda>s. s\<lparr>m_db := OverlayDB_insertStorage a key 0 (m_db s)\<rparr>))))) F
      (\<lambda>_ u. framed a t (u\<lparr>storageUsage := us u, totalStorageUsed := n u,
        m_cache := AList.map_entry a f (m_cache u)\<rparr>)) u" if "framed a t u" for slots u us n f
  proof (rule wpS_mono)
    show "wpS (forS slots (\<lambda>(hk, key, _). bindS (State_clearStorageValue E a key key) (\<lambda>_.
      bindS (updAccount a (Account_setStorageCache key 0)) (\<lambda>_.
      modS (\<lambda>s. s\<lparr>m_db := OverlayDB_insertStorage a key 0 (m_db s)\<rparr>))))) F (\<lambda>_. framed a t) u"
      using step that by (intro wpS_for)
  qed (auto intro: framed_step)
  note t = framed_refl [OF assms(1)]
  show ?thesis
    using x assms(2) t keep [OF t]
    by (simp add: State_clearStorage_def State_account_def storage_WITHOUT_LOCK_def checkVersion_def effS usage Let_def)
      (intro conjI impI loop keep t)
qed

subsection \<open>The loop over the cache\<close>

definition committing :: "'d Env \<Rightarrow> 'd State \<Rightarrow> address set \<Rightarrow> 'd State \<Rightarrow> bool" where
  "committing E s A t \<longleftrightarrow> odb_ok (m_db t) \<and>
    (\<exists>b b0. odb_db_face (m_db t) = Some b \<and> odb_db_face (m_db s) = Some b0 \<and> bdb_db b = bdb_db b0) \<and>
    m_storedVersion t = m_storedVersion s \<and> m_currentVersion t = m_currentVersion s \<and>
    m_nonExistingAccountsCache t = m_nonExistingAccountsCache s \<and>
    m_initial_funds t = m_initial_funds s \<and> m_accountStartNonce t = m_accountStartNonce s \<and>
    (\<forall>a. a \<notin> A \<longrightarrow> map_of (m_cache t) a = map_of (m_cache s) a \<and> untouched a (m_db t)) \<and>
    (\<forall>a\<in>A. written E a (map_of (m_cache s) a) (m_db t))"

lemma committing_next:
  assumes c: "committing E s A t" and o: "others a (m_db t) (m_db u)" "odb_ok (m_db u)"
    and w: "written E a (map_of (m_cache s) a) (m_db u)"
    and u: "\<And>c. c \<noteq> a \<Longrightarrow> map_of (m_cache u) c = map_of (m_cache t) c"
      "m_storedVersion u = m_storedVersion t" "m_currentVersion u = m_currentVersion t"
      "m_nonExistingAccountsCache u = m_nonExistingAccountsCache t"
      "m_initial_funds u = m_initial_funds t" "m_accountStartNonce u = m_accountStartNonce t"
  shows "committing E s (insert a A) u"
proof -
  have "\<exists>b b0. odb_db_face (m_db u) = Some b \<and> odb_db_face (m_db s) = Some b0 \<and> bdb_db b = bdb_db b0"
    using c o(1) by (fastforce simp: committing_def others_def)
  moreover have "untouched b (m_db u)" if "b \<notin> insert a A" for b
    using that c others_known(1) [OF o(1)] by (auto simp: committing_def)
  moreover have "written E b (map_of (m_cache s) b) (m_db u)" if "b \<in> insert a A" for b
    using that c w others_written [OF o(1)] by (cases "b = a") (auto simp: committing_def)
  moreover have "map_of (m_cache u) b = map_of (m_cache s) b" if "b \<notin> insert a A" for b
    using that c u(1) by (auto simp: committing_def)
  ultimately show ?thesis
    using c o(2) u(2-) unfolding committing_def by simp
qed

definition committable :: "Account \<Rightarrow> bool" where
  "committable x \<longleftrightarrow> distinct (map fst (m_storageOverlay x)) \<and> (isDirty x \<longrightarrow> m_isAlive x \<longrightarrow> storable x)"

lemma commitAccount_wp:
  assumes c: "committing E s A t" and a: "a \<notin> A" "map_of (m_cache s) a = Some x" "committable x" and v: "checkVersion s"
  shows "wpS (commitAccount E a) F (\<lambda>_. committing E s (insert a A)) t"
proof -
  have t: "map_of (m_cache t) a = Some x" "untouched a (m_db t)" "odb_ok (m_db t)" "checkVersion t"
    using c a v by (auto simp: committing_def checkVersion_def)
  consider "\<not> isDirty x" | "isDirty x" "\<not> m_isAlive x" | "isDirty x" "m_isAlive x" by blast
  then show ?thesis
  proof cases
    case 1
    then have "committing E s (insert a A) t"
      using t a by (intro committing_next [OF c]) (auto simp: written_def)
    with 1 t show ?thesis by (simp add: commitAccount_def effS)
  next
    case 2
    let ?db = "OverlayDB_killAuxiliary E a CODE (OverlayDB_kill E a (m_db t))"
    note k = kill_killed [OF t(2) refl, of E]
    have k1: "written E a (map_of (m_cache s) a) ?db" using k(1) 2 a(2) by (simp add: written_def)
    let ?t = "t\<lparr>m_db := ?db\<rparr>"
    have no: "committing E s (insert a A) ?t"
      using t(3) k1 k(2) by (intro committing_next [OF c]) simp_all
    have "wpS (State_clearStorage E a) F (\<lambda>_. committing E s (insert a A)) ?t"
    proof (rule wpS_mono [OF clearStorage_framed])
      fix z u
      assume u: "framed a ?t u"
      then have "killed E a (m_db u)" using k(1) by (simp add: framed_def killed_def)
      moreover have "others a (m_db t) (m_db u)" using u k(2) others_trans by (fastforce simp: framed_def)
      ultimately show "committing E s (insert a A) u"
        using u t(3) 2 a(2) by (intro committing_next [OF c]) (auto simp: framed_def written_def)
    qed (use t in \<open>auto simp: checkVersion_def\<close>)
    with 2 t no show ?thesis by (simp add: commitAccount_def updDb_def effS)
  next
    case 3
    note w = writeAccount_stored [OF t(2), of x]
    have "committing E s (insert a A) (t\<lparr>m_db := writeAccount a x (m_db t)\<rparr>)"
      using t a 3 w by (intro committing_next [OF c]) (auto simp: written_def committable_def)
    with 3 t a(3) show ?thesis
      by (cases "m_hasNewCode x") (simp_all add: commitAccount_def updDb_def effS encodeAccount_item committable_def writeAccount_def Let_def)
  qed
qed

lemma commitAccounts_wp:
  assumes "committing E s A t" "distinct as" "set as \<inter> A = {}" "checkVersion s"
    "\<And>a. a \<in> set as \<Longrightarrow> \<exists>x. map_of (m_cache s) a = Some x \<and> committable x"
  shows "wpS (forS as (commitAccount E)) F (\<lambda>_. committing E s (A \<union> set as)) t"
  using assms(1-3,5)
proof (induction "as" arbitrary: A t)
  case (Cons a as)
  then obtain x where "map_of (m_cache s) a = Some x" "committable x" by force
  then have "wpS (commitAccount E a) F (\<lambda>_. committing E s (insert a A)) t"
    using Cons.prems assms(4) by (intro commitAccount_wp) auto
  then have "wpS (commitAccount E a) F (\<lambda>_. wpS (forS as (commitAccount E)) F (\<lambda>_. committing E s (A \<union> set (a # as)))) t"
  proof (rule wpS_mono)
    fix z u
    assume "committing E s (insert a A) u"
    then show "wpS (forS as (commitAccount E)) F (\<lambda>_. committing E s (A \<union> set (a # as))) u"
      using Cons.IH [of "insert a A" u] Cons.prems(2-) by simp
  qed
  then show ?case by (simp add: effS)
qed (simp add: effS)

subsection \<open>After the commit of the database\<close>

text \<open>No write is waiting in front of the database.\<close>

definition synced :: "'d OverlayDB \<Rightarrow> bool" where
  "synced db \<longleftrightarrow> odb_cache db = [] \<and> odb_auxiliaryCache db = [] \<and> odb_storageCache db = [] \<and>
    (\<exists>b. odb_db_face db = Some b \<and> batchOf b = [])"

lemma synced_lookups:
  assumes "synced db" "odb_db_face db = Some b"
  shows "OverlayDB_lookup E db a = bdb_lookup E b (h160_bytes a)"
    "OverlayDB_lookupAuxiliary E db a sp = bdb_lookup E b (getAuxiliaryKey a sp)"
    "OverlayDB_lookupStorage E db a k = h256_ofBytes (bdb_lookup E b (getStorageKey a k))"
  using assms by (simp_all add: synced_def OverlayDB_lookup_def OverlayDB_lookupAuxiliary_def
      OverlayDB_lookupStorage_def auxCached_def storageCached_def)

lemma bdb_lookup_same: "bdb_db b = bdb_db b0 \<Longrightarrow> bdb_lookup E b k = bdb_lookup E b0 k"
  by (simp add: bdb_lookup_def)

text \<open>From here on: \<open>db\<close> before the loop, \<open>db1\<close> after it, \<open>db2\<close> after the commit.\<close>

definition persistedFrom :: "'d Env \<Rightarrow> 'd OverlayDB \<Rightarrow> 'd OverlayDB \<Rightarrow> 'd OverlayDB \<Rightarrow> bool" where
  "persistedFrom E db db1 db2 \<longleftrightarrow> synced db \<and> (\<exists>b b0. odb_db_face db = Some b0 \<and>
     odb_db_face db1 = Some b \<and> bdb_db b = bdb_db b0 \<and> persisted E (batchOf b) db1 b db2)"

lemma persisted_untouched:
  assumes p: "persistedFrom E db db1 db2" and u: "untouched a db1"
  shows "OverlayDB_lookup E db2 a = OverlayDB_lookup E db a"
    "OverlayDB_lookupAuxiliary E db2 a CODE = OverlayDB_lookupAuxiliary E db a CODE"
    "OverlayDB_lookupStorage E db2 a k = OverlayDB_lookupStorage E db a k"
proof -
  obtain b b0 where b: "synced db" "odb_db_face db = Some b0" "odb_db_face db1 = Some b"
    "bdb_db b = bdb_db b0" "persisted E (batchOf b) db1 b db2" using p by (auto simp: persistedFrom_def)
  note l = synced_lookups [OF b(1,2)] bdb_lookup_same [OF b(4)]
  show "OverlayDB_lookup E db2 a = OverlayDB_lookup E db a"
    "OverlayDB_lookupAuxiliary E db2 a CODE = OverlayDB_lookupAuxiliary E db a CODE"
    "OverlayDB_lookupStorage E db2 a k = OverlayDB_lookupStorage E db a k"
    using b(3,5) u by (simp_all add: persisted_def untouched_def l OverlayDB_lookupStorage_def [of E db1])
qed

lemma persisted_killed:
  assumes E: "env_ok E" and p: "persistedFrom E db db1 db2" and u: "killed E a db1"
  shows "OverlayDB_lookup E db2 a = []"
proof -
  obtain b where b: "odb_db_face db1 = Some b" "persisted E (batchOf b) db1 b db2"
    using p by (auto simp: persistedFrom_def)
  moreover have "bdb_lookup E b k = []" if "\<not> bdb_exists E b k" for k
    using that E by (simp add: env_lookup [OF E] bdb_exists_def env_ok_def)
  ultimately show ?thesis using u by (auto simp: persisted_def killed_def)
qed

lemma persisted_stored:
  assumes p: "persistedFrom E db db1 db2" and u: "stored a x db1" and x: "acc_ok E db a x" "storable x"
  shows "OverlayDB_lookup E db2 a = encodeItem (accountItem x)"
    "viewOf E db2 a (reloaded E x) = viewOf E db a x"
    "sha3 E (accCode E db2 a (reloaded E x)) = m_codeHash x"
proof -
  obtain b b0 where b: "synced db" "odb_db_face db = Some b0" "odb_db_face db1 = Some b"
    "bdb_db b = bdb_db b0" "persisted E (batchOf b) db1 b db2" using p by (auto simp: persistedFrom_def)
  note l = synced_lookups [OF b(1,2)] bdb_lookup_same [OF b(4)]
  show "OverlayDB_lookup E db2 a = encodeItem (accountItem x)"
    using b(5) u by (simp add: persisted_def stored_def)
  have "OverlayDB_lookupAuxiliary E db2 a CODE =
      (if m_hasNewCode x then m_codeCache x else OverlayDB_lookupAuxiliary E db a CODE)"
    using b(3,5) u by (simp add: persisted_def stored_def l)
  then have c: "accCode E db2 a (reloaded E x) = accCode E db a x"
    using x(1) by (auto simp: accCode_def reloaded_def account_defs acc_ok_def)
  have "OverlayDB_lookupStorage E db2 a k = accStorage E db a x k" for k
    using b(3,5) u x(1)
    by (auto simp: persisted_def stored_def l OverlayDB_lookupStorage_def [of E db1] accStorage_def acc_ok_def
        split: option.split)
  then have "accStorage E db2 a (reloaded E x) = accStorage E db a x"
    by (simp add: fun_eq_iff accStorage_def [of E db2] reloaded_def account_defs)
  with c show "viewOf E db2 a (reloaded E x) = viewOf E db a x"
    by (simp add: viewOf_def) (simp add: reloaded_def account_defs)
  show "sha3 E (accCode E db2 a (reloaded E x)) = m_codeHash x"
    using c x(1) by (simp add: acc_ok_def)
qed

lemma viewOf_lookups:
  assumes "OverlayDB_lookupAuxiliary E db2 a CODE = OverlayDB_lookupAuxiliary E db a CODE"
    "\<And>k. OverlayDB_lookupStorage E db2 a k = OverlayDB_lookupStorage E db a k"
  shows "viewOf E db2 a x = viewOf E db a x"
  using assms by (simp add: viewOf_def accCode_def accStorage_def fun_eq_iff split: option.split)

text \<open>What the database holds for one address after the commit.\<close>

definition keptView :: "'d Env \<Rightarrow> 'd State \<Rightarrow> views" where
  "keptView E s a = (case map_of (m_cache s) a of
     Some x \<Rightarrow> if isDirty x \<and> \<not> m_isAlive x then None else view E s a | None \<Rightarrow> view E s a)"

lemma committed_view:
  assumes E: "env_ok E" and s: "state_ok E s" and p: "persistedFrom E (m_db s) db1 db2"
    and w: "written E a (map_of (m_cache s) a) db1"
    and c: "\<And>x. map_of (m_cache s) a = Some x \<Longrightarrow> committable x"
  shows "dbView E db2 a = keptView E s a \<and> (OverlayDB_lookup E db2 a \<noteq> [] \<longrightarrow>
    (\<exists>x. decodeAccount E (OverlayDB_lookup E db2 a) = Inr x \<and>
      (m_codeHash x \<noteq> EmptySHA3 (sha3 E) \<longrightarrow>
        sha3 E (OverlayDB_lookupAuxiliary E db2 a CODE) = m_codeHash x)))"
proof -
  have size: "32 \<le> s256_size E" using E by (simp add: env_ok_def)
  have ok: "acc_ok E (m_db s) a x" if "map_of (m_cache s) a = Some x" for x
    using s that by (simp add: state_ok_def)
  have dbok: "db_ok E (m_db s)" using s by (simp add: state_ok_def)
  consider (same) "untouched a db1" "view E s a = dbView E (m_db s) a" "keptView E s a = view E s a"
    | (dead) "killed E a db1" "keptView E s a = None"
    | (alive) x where "stored a x db1" "map_of (m_cache s) a = Some x" "keptView E s a = view E s a" "isDirty x" "m_isAlive x"
  proof (cases "map_of (m_cache s) a")
    case None
    then show ?thesis using w same by (simp add: written_def view_def peek_def dbView_def keptView_def)
  next
    case (Some x)
    with ok [OF Some] w view_at [OF Some, of E] show ?thesis
      using same dead alive
      by (cases "isDirty x"; cases "m_isAlive x") (auto simp: written_def keptView_def acc_ok_def isDirty_def)
  qed
  then show ?thesis
  proof cases
    case same
    note l = persisted_untouched [OF p same(1)]
    have "viewOf E db2 a = viewOf E (m_db s) a" using viewOf_lookups [OF l(2,3)] by (rule ext)
    then have "dbView E db2 a = dbView E (m_db s) a" by (simp add: dbView_def dbAccount_def l(1))
    with same(2,3) dbok show ?thesis by (simp add: l db_ok_def)
  next
    case dead
    then show ?thesis using persisted_killed [OF E p] by (simp add: dbView_def dbAccount_def)
  next
    case (alive x)
    have st: "storable x" using c [OF alive(2)] alive(4,5) by (simp add: committable_def)
    note l = persisted_stored [OF p alive(1) ok [OF alive(2)] st]
    have d: "decodeAccount E (OverlayDB_lookup E db2 a) = Inr (reloaded E x)"
      using decodeAccount_item [OF st size] l(1) by simp
    have "OverlayDB_lookup E db2 a \<noteq> []" using fits_account [OF st] by (simp add: l(1))
    with d have "dbView E db2 a = Some (viewOf E (m_db s) a x)"
      using l(2) by (simp add: dbView_def dbAccount_def)
    moreover have "m_codeHash (reloaded E x) = m_codeHash x" "m_codeCache (reloaded E x) = []"
      by (simp_all add: reloaded_def account_defs)
    then have "m_codeHash x \<noteq> EmptySHA3 (sha3 E) \<longrightarrow> sha3 E (OverlayDB_lookupAuxiliary E db2 a CODE) = m_codeHash x"
      using l(3) by (auto simp: accCode_def)
    ultimately show ?thesis
      using d alive(3) view_at [OF alive(2)] \<open>m_codeHash (reloaded E x) = m_codeHash x\<close> by auto
  qed
qed

text \<open>
  A database whose commits do not fail.  A commit of \<open>OverlayDB\<close> is tried ten times, but only the
  first attempt contains the pending deletions.
\<close>

definition reliable :: "'d Env \<Rightarrow> bool" where
  "reliable E \<longleftrightarrow> (\<forall>ws d. fst (d_commit E ws d))"

lemma OverlayDB_commit_reliable:
  assumes E: "env_ok E" "reliable E" and o': "odb_ok o'" "odb_db_face o' = Some b"
  obtains o'' where "OverlayDB_commit E o' = Some o''" "persisted E (batchOf b) o' b o''"
proof -
  have r: "fst (d_commit E ws d)" for ws d using E(2) by (simp add: reliable_def)
  obtain d where "d_commit E (batchOf b @ commitWrites E o') (bdb_db b) = (True, d)"
    using r [of "batchOf b @ commitWrites E o'" "bdb_db b"] by (cases "d_commit E (batchOf b @ commitWrites E o') (bdb_db b)") auto
  then have "\<exists>o''. OverlayDB_commit E o' = Some o''"
    using o'(2) by (simp add: OverlayDB_commit_def eval_nat_numeral bdb_commit_writes Let_def)
  then obtain o'' where "OverlayDB_commit E o' = Some o''" by blast
  with OverlayDB_commit_persisted(1) [OF E(1) o' this refl] r that show ?thesis by simp
qed

definition commitOK :: "'d Env \<Rightarrow> 'd State \<Rightarrow> 'd State \<Rightarrow> bool" where
  "commitOK E s t \<longleftrightarrow> state_ok E t \<and> synced (m_db t) \<and> m_cache t = [] \<and> m_changeLog t = [] \<and>
    view E t = keptView E s \<and> m_storedVersion t = m_storedVersion s + 1 \<and>
    m_initial_funds t = m_initial_funds s \<and> m_accountStartNonce t = m_accountStartNonce s"

lemma commit_rest:
  assumes E: "env_ok E" "reliable E" and s: "state_ok E s" "synced (m_db s)"
    and c: "\<And>a x. map_of (m_cache s) a = Some x \<Longrightarrow> committable x"
  shows "wpS (bindS (forS (map fst (m_cache s)) (commitAccount E)) (\<lambda>_.
      bindS (modS (\<lambda>s. s\<lparr>m_db := OverlayDB_updateStorageUsage (totalStorageUsed s) (m_db s),
        m_storedVersion := m_storedVersion s + 1\<rparr>)) (\<lambda>_.
      bindS getS (\<lambda>s. case OverlayDB_commit E (m_db s) of
        None \<Rightarrow> throwS ProcessExit
      | Some db \<Rightarrow> modS (\<lambda>s. s\<lparr>m_db := db, m_currentVersion := m_storedVersion s, m_changeLog := [],
          m_cache := [], m_unchangedCacheEntries := []\<rparr>))))) F (\<lambda>_. commitOK E s) s"
proof -
  let ?A = "set (map fst (m_cache s))"
  have d: "distinct (map fst (m_cache s))" "checkVersion s" using s by (simp_all add: state_ok_def)
  have "untouched a (m_db s)" for a
    using s(2) by (auto simp: synced_def untouched_def auxCached_def storageCached_def kills_def)
  moreover have "odb_ok (m_db s)" using s(2) by (auto simp: synced_def odb_ok_def)
  ultimately have "committing E s {} s" using s(2) by (auto simp: committing_def synced_def)
  moreover have "\<exists>x. map_of (m_cache s) a = Some x \<and> committable x" if "a \<in> ?A" for a
    using that c by (cases "map_of (m_cache s) a") (auto simp: map_of_eq_None_iff)
  ultimately have loop: "wpS (forS (map fst (m_cache s)) (commitAccount E)) F (\<lambda>_. committing E s ?A) s"
    using commitAccounts_wp [of E s "{}" s "map fst (m_cache s)" F] d by simp
  show ?thesis
    unfolding wpS_bind
  proof (rule wpS_mono [OF loop], assumption, goal_cases)
    case (1 z t)
    let ?db1 = "OverlayDB_updateStorageUsage (totalStorageUsed t) (m_db t)"
    have db1: "odb_cache ?db1 = odb_cache (m_db t)" "auxCached ?db1 = auxCached (m_db t)"
      "storageCached ?db1 = storageCached (m_db t)" "odb_db_face ?db1 = odb_db_face (m_db t)"
      by (simp_all add: OverlayDB_updateStorageUsage_def auxCached_def storageCached_def fun_eq_iff)
    obtain b b0 where b: "odb_db_face (m_db t) = Some b" "odb_db_face (m_db s) = Some b0" "bdb_db b = bdb_db b0"
      using 1 by (auto simp: committing_def)
    have "odb_ok ?db1" using 1 by (simp add: committing_def OverlayDB_updateStorageUsage_def odb_ok_def)
    then obtain db2 where db2: "OverlayDB_commit E ?db1 = Some db2" "persisted E (batchOf b) ?db1 b db2"
      using OverlayDB_commit_reliable [OF E, of ?db1 b] b(1) db1(4) by auto
    have p: "persistedFrom E (m_db s) ?db1 db2"
      using db2(2) b s(2) db1(4) by (auto simp: persistedFrom_def)
    have "written E a (map_of (m_cache s) a) (m_db t)" for a
    proof (cases "a \<in> ?A")
      case False
      then have "map_of (m_cache s) a = None" by (simp add: map_of_eq_None_iff)
      with False 1 show ?thesis by (simp add: committing_def written_def)
    qed (use 1 in \<open>unfold committing_def, blast\<close>)
    then have w: "written E a (map_of (m_cache s) a) ?db1" for a
      unfolding written_def untouched_def killed_def stored_def db1 .
    note cv = committed_view [OF E(1) s(1) p w c]
    let ?t = "t\<lparr>m_storedVersion := m_storedVersion t + 1, m_db := db2, m_currentVersion := m_storedVersion t + 1,
      m_changeLog := [], m_cache := [], m_unchangedCacheEntries := []\<rparr>"
    have v: "view E ?t = keptView E s"
      using cv by (simp add: fun_eq_iff view_def peek_def dbView_def)
    have sy: "synced db2" using db2(2) by (auto simp: persisted_def synced_def batchOf_def)
    have "OverlayDB_lookup E db2 a = []" if "a \<in> m_nonExistingAccountsCache s" for a
    proof -
      have "OverlayDB_lookup E (m_db s) a = []" "map_of (m_cache s) a = None"
        using s(1) that by (auto simp: state_ok_def)
      then show ?thesis using persisted_untouched(1) [OF p, of a] w [of a] by (simp add: written_def)
    qed
    then have "state_ok E ?t"
      using 1 cv by (simp add: state_ok_def checkVersion_def db_ok_def committing_def)
    with v sy 1 have "commitOK E s ?t" by (simp add: commitOK_def committing_def)
    then show ?case by (simp add: effS db2(1))
  qed
qed

lemma acc_ok_kill: "acc_ok E db a x \<Longrightarrow> acc_ok E db a (Account_kill (sha3 E) x)"
  by (simp add: acc_ok_def accCode_def Account_kill_def Account_changed_def EmptySHA3_def)

lemma removeEmptyAccounts_cache:
  "map_of (m_cache (removeEmptyAccounts E s)) a = map_option (\<lambda>x.
    if isDirty x \<and> Account_isEmpty (sha3 E) x then Account_kill (sha3 E) x else x) (map_of (m_cache s) a)"
  by (simp add: removeEmptyAccounts_def map_of_map)

lemma removeEmptyAccounts_ok:
  assumes "state_ok E s"
  shows "state_ok E (removeEmptyAccounts E s)"
proof -
  have "map fst (m_cache (removeEmptyAccounts E s)) = map fst (m_cache s)"
    by (simp add: removeEmptyAccounts_def split_beta')
  moreover have "acc_ok E (m_db s) a x" if "map_of (m_cache (removeEmptyAccounts E s)) a = Some x" for a x
    using that assms unfolding removeEmptyAccounts_cache state_ok_def
    by (auto intro: acc_ok_kill split: if_splits)
  ultimately show ?thesis
    using assms unfolding state_ok_def
    by (simp add: removeEmptyAccounts_cache checkVersion_def) (simp add: removeEmptyAccounts_def)
qed

text \<open>The accounts that a commit removes.\<close>

definition removes :: "'d Env \<Rightarrow> CommitBehaviour \<Rightarrow> Account \<Rightarrow> bool" where
  "removes E behaviour x \<longleftrightarrow> isDirty x \<and>
    (\<not> m_isAlive x \<or> behaviour = RemoveEmptyAccounts \<and> Account_isEmpty (sha3 E) x)"

definition committedView :: "'d Env \<Rightarrow> CommitBehaviour \<Rightarrow> 'd State \<Rightarrow> views" where
  "committedView E behaviour s a = (case map_of (m_cache s) a of
     Some x \<Rightarrow> if removes E behaviour x then None else view E s a | None \<Rightarrow> view E s a)"

lemma keptView_removeEmpty: "keptView E (removeEmptyAccounts E s) = committedView E RemoveEmptyAccounts s"
proof
  fix a
  have "m_db (removeEmptyAccounts E s) = m_db s" by (simp add: removeEmptyAccounts_def)
  then show "keptView E (removeEmptyAccounts E s) a = committedView E RemoveEmptyAccounts s a"
    by (cases "map_of (m_cache s) a")
      (auto simp: keptView_def committedView_def removes_def view_def peek_def removeEmptyAccounts_cache account_defs)
qed

lemma commit_wp:
  assumes E: "env_ok E" "reliable E" and s: "state_ok E s" "synced (m_db s)" "m_db_write_lock s"
    and c: "\<And>a x. map_of (m_cache s) a = Some x \<Longrightarrow> \<not> removes E behaviour x \<Longrightarrow> committable x"
  shows "wpS (State_commit E behaviour) F (\<lambda>_ t. state_ok E t \<and> synced (m_db t) \<and> m_cache t = [] \<and>
    m_changeLog t = [] \<and> view E t = committedView E behaviour s) s"
proof -
  have di: "distinct (map fst (m_storageOverlay x))" if "map_of (m_cache s) a = Some x" for a x
    using s(1) that unfolding state_ok_def acc_ok_def by blast
  have cs: "committable x" if "map_of (m_cache s) a = Some x" "removes E behaviour x \<Longrightarrow> \<not> m_isAlive x" for a x
    using c [OF that(1)] that(2) di [OF that(1)] by (cases "removes E behaviour x") (simp_all add: committable_def)
  have k: "committable (Account_kill (sha3 E) x)" for x by (simp add: committable_def account_defs)
  let ?s = "if behaviour = RemoveEmptyAccounts then removeEmptyAccounts E s else s"
  have ok: "state_ok E ?s" "synced (m_db ?s)" "m_db_write_lock ?s"
    using s removeEmptyAccounts_ok [OF s(1)] by (simp_all add: removeEmptyAccounts_def)
  then have v: "checkVersion ?s" unfolding state_ok_def by blast
  have "committable x" if m: "map_of (m_cache ?s) a = Some x" for a x
  proof (cases "behaviour = RemoveEmptyAccounts")
    case True
    with m obtain y where y: "map_of (m_cache s) a = Some y"
      "x = (if isDirty y \<and> Account_isEmpty (sha3 E) y then Account_kill (sha3 E) y else y)"
      by (auto simp: removeEmptyAccounts_cache)
    have "committable y" if "\<not> (isDirty y \<and> Account_isEmpty (sha3 E) y)"
      using that by (intro cs [OF y(1)]) (auto simp: removes_def)
    with k y(2) show ?thesis by simp
  next
    case False
    with m cs show ?thesis by (auto simp: removes_def)
  qed
  from wpS_mono [OF commit_rest [OF E ok(1,2) this, where F = F]]
  have "wpS (bindS (forS (map fst (m_cache ?s)) (commitAccount E)) (\<lambda>_.
      bindS (modS (\<lambda>s. s\<lparr>m_db := OverlayDB_updateStorageUsage (totalStorageUsed s) (m_db s),
        m_storedVersion := m_storedVersion s + 1\<rparr>)) (\<lambda>_.
      bindS getS (\<lambda>s. case OverlayDB_commit E (m_db s) of
        None \<Rightarrow> throwS ProcessExit
      | Some db \<Rightarrow> modS (\<lambda>s. s\<lparr>m_db := db, m_currentVersion := m_storedVersion s, m_changeLog := [],
          m_cache := [], m_unchangedCacheEntries := []\<rparr>))))) F
     (\<lambda>_ t. state_ok E t \<and> synced (m_db t) \<and> m_cache t = [] \<and> m_changeLog t = [] \<and> view E t = keptView E ?s) ?s"
    by (auto simp: commitOK_def)
  moreover have "keptView E s = committedView E KeepEmptyAccounts s"
    by (simp add: fun_eq_iff keptView_def committedView_def removes_def split: option.split)
  then have "keptView E ?s = committedView E behaviour s"
    using keptView_removeEmpty [of E s] by (cases behaviour) simp_all
  ultimately show ?thesis
    using ok(3) v by (cases behaviour) (simp_all add: State_commit_def effS)
qed

end
