(* ===== verification/State_Props.thy ===== *)
theory State_Props
  imports State_Runs State_Commit
begin

text \<open>
  The properties of the state and of what lies under it: the overlay of the database, the queue of
  file operations and the table of patches.  \<open>exEnv\<close> is a concrete environment, a database kept
  as an association list, on which the hypotheses about the surroundings hold.
\<close>

subsection \<open>A concrete environment\<close>

definition exStr :: "int \<Rightarrow> bytes" where
  "exStr i = replicate (if 0 \<le> i then 2 * nat i else 2 * nat (- i) + 1) 0"

definition exOfStr :: "bytes \<Rightarrow> int" where
  "exOfStr b = (if even (length b) then int (length b div 2) else - int (length b div 2))"

definition exPut :: "batch_op \<Rightarrow> (bytes \<times> bytes) list \<Rightarrow> (bytes \<times> bytes) list" where
  "exPut w d = (case w of Insert k v \<Rightarrow> AList.update k v d | Kill k \<Rightarrow> AList.delete k d)"

text \<open>A hash that tells apart the strings the examples use; \<open>ts\<close> are the activation times of the patches.\<close>

definition exEnv :: "int list \<Rightarrow> (bytes \<times> bytes) list Env" where
  "exEnv ts = \<lparr>d_lookup = (\<lambda>d k. case map_of d k of None \<Rightarrow> [] | Some v \<Rightarrow> v),
     d_exists = (\<lambda>d k. map_of d k \<noteq> None), d_commit = (\<lambda>ws d. (True, fold exPut ws d)),
     d_forEach = AList.clearjunk,
     d_forEachWithPrefix = (\<lambda>p d. filter (\<lambda>(k, v). take (length p) k = p) (AList.clearjunk d)),
     s256_str = exStr, s256_ofStr = exOfStr, s256_size = 40,
     sha3 = (\<lambda>b. of_nat (fromBigEndian (1 # b))),
     e_patch = \<lparr>patchTimestamps = ts, committedBlockTimestamp = 10\<rparr>\<rparr>"

lemma exEnv_ok: "env_ok (exEnv ts)" "reliable (exEnv ts)"
proof -
  have c: "contents (exEnv ts) d = map_of d" for d
    by (simp add: contents_def exEnv_def map_of_clearjunk)
  have "map_of (fold exPut ws d) = fold apply_op ws (map_of d)" for ws d
    by (induction ws arbitrary: d) (auto simp: exPut_def update_conv' delete_conv' split: batch_op.split)
  moreover have "exOfStr (exStr i) = i" for i
    by (simp add: exOfStr_def exStr_def)
  ultimately show "env_ok (exEnv ts)" "reliable (exEnv ts)"
    unfolding env_ok_def reliable_def c by (simp_all add: exEnv_def distinct_clearjunk)
qed

text \<open>A state over an empty database, with the write lock.\<close>

definition exDb :: "(bytes \<times> bytes) list OverlayDB" where
  "exDb = OverlayDB_new (Some \<lparr>bdb_db = [], bdb_batch = None\<rparr>)"

definition exState :: "(bytes \<times> bytes) list State" where
  "exState = \<lparr>m_db = exDb, m_fs = Some (OverlayFS_new True), m_db_write_lock = True, m_storedVersion = 3,
     m_currentVersion = 3, m_cache = [], m_unchangedCacheEntries = [], m_nonExistingAccountsCache = {},
     m_accountStartNonce = 0, m_changeLog = [], m_initial_funds = 0, contractStorageLimit = 1000,
     storageUsage = [], totalStorageUsed = 0, currentStorageUsed = 0, codeSizeCache = [],
     s_fixedHashEngine = (\<lambda>i. i)\<rparr>"

lemma exDb_lookup [simp]: "OverlayDB_lookup (exEnv ts) exDb a = []"
  by (simp add: OverlayDB_lookup_def exDb_def OverlayDB_new_def bdb_lookup_def exEnv_def)

lemma exState_view: "view (exEnv ts) exState a = None"
  by (simp add: view_def peek_def exState_def dbAccount_def)

lemma exState_jinv: "jinv (exEnv ts) exState"
  by (simp add: jinv_def state_ok_def exState_def checkVersion_def db_ok_def)

lemma exState_synced: "synced (m_db exState)"
  by (simp add: synced_def exState_def exDb_def OverlayDB_new_def batchOf_def)

text \<open>A deposit, and then a store into the account it has created.\<close>

definition exPaid :: "int list \<Rightarrow> (bytes \<times> bytes) list State" where
  "exPaid ts = snd (runCall (exEnv ts) (CAddBalance 5 100) exState)"


lemma exPaid_refines:
  "refinesCall (exEnv ts) (CAddBalance 5 100) exState (fst (runCall (exEnv ts) (CAddBalance 5 100) exState)) (exPaid ts)"
  unfolding exPaid_def by (rule runCall_refines [OF exState_jinv]) simp

lemma exPaid_ok: "jinv (exEnv ts) (exPaid ts)" "view (exEnv ts) (exPaid ts) 5 \<noteq> None"
proof -
  note r = exPaid_refines [of ts]
  have "noStart (exEnv ts) exState 5 = False" by (simp add: noStart_def exState_def Invalid256_def)
  with r have "absState (exEnv ts) (exPaid ts) =
      snd (absCall (sha3 (exEnv ts)) (fullAt (exEnv ts) exState (CAddBalance 5 100)) (CAddBalance 5 100) (absState (exEnv ts) exState))"
    unfolding refinesCall_def by (metis snd_conv)
  then have "w_view (absState (exEnv ts) (exPaid ts)) 5 \<noteq> None"
    using \<open>noStart (exEnv ts) exState 5 = False\<close> by (simp add: w_add_def)
  then show "view (exEnv ts) (exPaid ts) 5 \<noteq> None" by simp
  show "jinv (exEnv ts) (exPaid ts)" using r grows_jinv unfolding refinesCall_def by blast
qed


subsection \<open>The state\<close>









text \<open>C33: A commit of the state writes every changed account to the database and starts with empty
  caches over it: reading any account afterwards gives the nonce, balance, code and storage it had
  before, accounts that were killed, or left empty when empty accounts are to be removed, are gone,
  and nothing else changes.  This needs the write lock, a database that accepts the commit, and
  storage counters that are not negative.\<close>

theorem state_commit:
  assumes "env_ok E" and "reliable E" and "state_ok E s" and "synced (m_db s)" and "m_db_write_lock s"
    and "\<forall>a x. map_of (m_cache s) a = Some x \<longrightarrow> \<not> removes E behaviour x \<longrightarrow> committable x"
  shows "\<exists>t. State_commit E behaviour s = (Inr (), t) \<and> state_ok E t \<and> synced (m_db t) \<and>
    m_cache t = [] \<and> m_changeLog t = [] \<and> view E t = committedView E behaviour s"
proof -
  have "committable x" if "map_of (m_cache s) a = Some x" "\<not> removes E behaviour x" for a x
    using assms(6) that by blast
  from commit_wp [OF assms(1-5) this, where F = "\<lambda>_ _. False"] show ?thesis
    by (rule wpS_totalD) auto
qed

theorem state_commit_witness:
  "\<exists>t. State_commit (exEnv []) RemoveEmptyAccounts (exPaid []) = (Inr (), t) \<and>
    view (exEnv []) t = committedView (exEnv []) RemoveEmptyAccounts (exPaid [])"
proof -
  have p: "exPaid [] = exState\<lparr>m_cache := [(5, Account_new (sha3 (exEnv [])) 0 100 Changed)],
      m_changeLog := [Create 5, Balance 5 100]\<rparr>"
    unfolding exPaid_def
    by (simp add: State_addBalance_def State_createAccount_def State_addressInUse_def State_account_def
        requireAccountStartNonce_def logChange_def bindS_def getS_def modS_def retS_def throwS_def assertS_def
        checkVersion_def Invalid256_def exState_def)
  have "state_ok (exEnv []) (exPaid [])" using exPaid_ok(1) by (rule jinv_ok)
  moreover have "synced (m_db (exPaid []))" using exState_synced by (simp add: p)
  moreover have "m_db_write_lock (exPaid [])" by (simp add: p exState_def)
  moreover have "\<forall>a x. map_of (m_cache (exPaid [])) a = Some x \<longrightarrow>
      \<not> removes (exEnv []) RemoveEmptyAccounts x \<longrightarrow> committable x"
    by (auto simp: p committable_def storable_def account_defs split: if_splits)
  ultimately show ?thesis
    using state_commit [OF exEnv_ok, of "[]" "exPaid []" RemoveEmptyAccounts] by blast
qed

subsection \<open>The overlay of the database\<close>

text \<open>C35: A commit of the overlay that returns has written everything: an object that is opened on the
  same database afterwards finds every account, code and slot that was cached, the total of used
  storage, and the hash and receipts of the last transaction, and otherwise what the database held.
  Deletions that were already waiting in the batch are carried out when the first attempt succeeds,
  and lost when it fails and a later attempt succeeds.\<close>

theorem overlay_commit:
  assumes "env_ok E" and "odb_ok o'" and "odb_db_face o' = Some b" and "OverlayDB_commit E o' = Some o''"
  shows "persisted E (if fst (d_commit E (batchOf b @ commitWrites E o') (bdb_db b)) then batchOf b else [])
      o' b (OverlayDB_new (odb_db_face o''))"
  using OverlayDB_commit_persisted(2) [OF assms refl] .

definition exOverlay :: "(bytes \<times> bytes) list OverlayDB" where
  "exOverlay = OverlayDB_insertStorage 7 1 9 (OverlayDB_insert 7 [1, 2] exDb)"

theorem overlay_commit_witness:
  "\<exists>o''. OverlayDB_commit (exEnv []) exOverlay = Some o'' \<and>
    OverlayDB_lookup (exEnv []) (OverlayDB_new (odb_db_face o'')) 7 = [1, 2]"
proof -
  let ?b = "\<lparr>bdb_db = [], bdb_batch = None\<rparr>"
  have ok: "odb_ok exOverlay" "odb_db_face exOverlay = Some ?b" "map_of (odb_cache exOverlay) 7 = Some [1, 2]"
    by (simp_all add: exOverlay_def exDb_def odb_ok_def OverlayDB_new_def OverlayDB_insert_def
        OverlayDB_insertStorage_def batchOf_def)
  from OverlayDB_commit_reliable [OF exEnv_ok(1,2) ok(1,2)] obtain o'' where
    "OverlayDB_commit (exEnv []) exOverlay = Some o''" by blast
  with overlay_commit [OF exEnv_ok(1) ok(1,2) this] ok(3) show ?thesis by (auto simp: persisted_def)
qed

subsection \<open>Queued file operations\<close>


end
