(* ===== verification/ChainParams.thy ===== *)
theory ChainParams
  imports EVMSchedule SchainPatch OverlayFS
begin

text \<open>
  \<open>libethcore/ChainOperationParams\<close>: the fork blocks that choose a gas schedule, and the table of
  precompiled contracts.  The price and the effect of a precompiled contract
  (\<open>libethereum/Precompiled.cpp\<close>, calls into foreign libraries) are functions kept in the table.
\<close>

record PrecompiledContract =
  m_cost :: "bytes \<Rightarrow> u256 \<Rightarrow> nat"
  m_execute :: "bytes \<Rightarrow> OverlayFS option \<Rightarrow> (bool \<times> bytes) \<times> OverlayFS option"
  m_startingBlock :: u256
  m_allowed_addresses :: "address list"

definition executionAllowedFrom :: "PrecompiledContract \<Rightarrow> address \<Rightarrow> bool \<Rightarrow> bool" where
  "executionAllowedFrom c from readOnly =
    (m_allowed_addresses c = [] \<or> from \<in> set (m_allowed_addresses c) \<and> \<not> readOnly)"

text \<open>The pricer of the contracts that are charged by the word.\<close>

definition linearCost :: "nat \<Rightarrow> nat \<Rightarrow> bytes \<Rightarrow> u256 \<Rightarrow> nat" where
  "linearCost base word input blockNumber = base + (length input + 31) div 32 * word"

record ChainOperationParams =
  homesteadForkBlock :: u256
  EIP150ForkBlock :: u256
  EIP158ForkBlock :: u256
  byzantiumForkBlock :: u256
  constantinopleForkBlock :: u256
  constantinopleFixForkBlock :: u256
  istanbulForkBlock :: u256
  experimentalForkBlock :: u256
  precompiled :: "(address \<times> PrecompiledContract) list"
  sChainPatches :: SchainPatch
  chainID :: u64
  skaleDisableChainIdCheck :: bool

text \<open>\<open>PushZeroPatch::makeSchedule\<close>.\<close>

definition makeSchedule :: "EVMSchedule \<Rightarrow> EVMSchedule" where
  "makeSchedule base = base\<lparr>havePush0 := True\<rparr>"

definition makeEvmSchedule :: "ChainOperationParams \<Rightarrow> int \<Rightarrow> u256 \<Rightarrow> EVMSchedule" where
  "makeEvmSchedule P timestamp workingBlockNumber =
    (let patched = (\<lambda>result. if isPatchEnabledWhen (sChainPatches P) PushZeroPatch timestamp
                            then makeSchedule result else result) in
     if workingBlockNumber \<ge> experimentalForkBlock P then patched ExperimentalSchedule
     else if workingBlockNumber \<ge> istanbulForkBlock P then patched IstanbulSchedule
     else if workingBlockNumber \<ge> constantinopleFixForkBlock P then patched ConstantinopleFixSchedule
     else if workingBlockNumber \<ge> constantinopleForkBlock P then patched ConstantinopleSchedule
     else if workingBlockNumber \<ge> byzantiumForkBlock P then patched ByzantiumSchedule
     else if workingBlockNumber \<ge> EIP158ForkBlock P then patched EIP158Schedule
     else if workingBlockNumber \<ge> EIP150ForkBlock P then patched EIP150Schedule
     else if workingBlockNumber \<ge> homesteadForkBlock P then HomesteadSchedule
     else FrontierSchedule)"

definition isPrecompiled :: "ChainOperationParams \<Rightarrow> address \<Rightarrow> u256 \<Rightarrow> bool" where
  "isPrecompiled P a blockNumber = (case map_of (precompiled P) a of
     None \<Rightarrow> False | Some c \<Rightarrow> m_startingBlock c \<le> blockNumber)"

text \<open>The three functions that use \<open>precompiled.at(a)\<close>, for an \<open>a\<close> that \<open>isPrecompiled\<close> accepts.\<close>

definition costOfPrecompiled :: "ChainOperationParams \<Rightarrow> address \<Rightarrow> bytes \<Rightarrow> u256 \<Rightarrow> nat" where
  "costOfPrecompiled P a input blockNumber = (case map_of (precompiled P) a of
     None \<Rightarrow> 0 | Some c \<Rightarrow> m_cost c input blockNumber)"

definition executePrecompiled ::
    "ChainOperationParams \<Rightarrow> address \<Rightarrow> bytes \<Rightarrow> OverlayFS option \<Rightarrow> (bool \<times> bytes) \<times> OverlayFS option" where
  "executePrecompiled P a input fs = (case map_of (precompiled P) a of
     None \<Rightarrow> ((False, []), fs) | Some c \<Rightarrow> m_execute c input fs)"

definition precompiledExecutionAllowedFrom :: "ChainOperationParams \<Rightarrow> address \<Rightarrow> address \<Rightarrow> bool \<Rightarrow> bool" where
  "precompiledExecutionAllowedFrom P a from readOnly = (case map_of (precompiled P) a of
     None \<Rightarrow> False | Some c \<Rightarrow> executionAllowedFrom c from readOnly)"

end
