(* ===== verification/Transaction.thy ===== *)
theory Transaction
  imports ChainParams FixedHash
begin

text \<open>
  \<open>libethcore/TransactionBase\<close> and \<open>libethereum/Transaction\<close>: the members an execution asks for, and
  \<open>SealEngineFace::verifyTransaction\<close>, the checks that need no state.  The sender is recovered from
  the signature by a foreign library; the field \<open>t_sender\<close> is what \<open>sender()\<close> returns, \<open>None\<close> where it
  throws.  The gas that a proof of work has earned is a field as well.
\<close>

datatype TransactionType = T_Null | T_ContractCreation | T_MessageCall | T_Invalid

record Transaction =
  t_nonce :: u256
  t_value :: u256
  t_gasPrice :: u256
  t_gas :: u256
  t_data :: bytes
  t_type :: TransactionType
  t_chainId :: "u64 option"
  t_vrs :: "(u256 \<times> u256) option"
  t_sender :: "address option"
  t_receiveAddress :: address
  t_externalGasIsChecked :: bool
  t_externalGas :: "u256 option"

definition Transaction_new :: Transaction where
  "Transaction_new = \<lparr>t_nonce = 0, t_value = 0, t_gasPrice = 0, t_gas = 0, t_data = [],
     t_type = T_Null, t_chainId = None, t_vrs = None, t_sender = None, t_receiveAddress = 0,
     t_externalGasIsChecked = False, t_externalGas = None\<rparr>"

datatype tx_error = ExternalGasException | GasPriceTooLow | TransactionIsUnsigned | InvalidSignature
  | InvalidZeroSignatureTransaction | OutOfGasIntrinsic | BlockGasLimitReached
  | InvalidTransactionFormat | InvalidNonce | TxNotEnoughCash

text \<open>\<open>operator bool\<close>.\<close>

definition Transaction_set :: "Transaction \<Rightarrow> bool" where
  "Transaction_set t = (t_type t \<noteq> T_Null \<and> t_type t \<noteq> T_Invalid)"

definition isCreation :: "Transaction \<Rightarrow> bool" where
  "isCreation t = (t_type t = T_ContractCreation)"

definition hasZeroSignature :: "Transaction \<Rightarrow> bool" where
  "hasZeroSignature t = (t_vrs t = Some (0, 0))"

definition hasExternalGas :: "Transaction \<Rightarrow> tx_error + bool" where
  "hasExternalGas t = (if \<not> t_externalGasIsChecked t then Inl ExternalGasException
    else Inr (t_externalGas t \<noteq> None))"

definition getExternalGas :: "Transaction \<Rightarrow> u256" where
  "getExternalGas t = (if t_externalGasIsChecked t
    then (case t_externalGas t of Some g \<Rightarrow> g | None \<Rightarrow> 0) else 0)"

definition Transaction_gasPrice :: "Transaction \<Rightarrow> u256" where
  "Transaction_gasPrice t = (if t_externalGasIsChecked t \<and> t_externalGas t \<noteq> None then 0 else t_gasPrice t)"

definition Transaction_gas :: "Transaction \<Rightarrow> u256" where
  "Transaction_gas t = (if getExternalGas t \<noteq> 0 then getExternalGas t else t_gas t)"

text \<open>A signed 64-bit sum.\<close>

definition baseGasRequired :: "bool \<Rightarrow> bytes \<Rightarrow> EVMSchedule \<Rightarrow> int" where
  "baseGasRequired contractCreation data S = sint (fold
    (\<lambda>i g. g + ucast (if i \<noteq> 0 then txDataNonZeroGas S else txDataZeroGas S))
    data (ucast (if contractCreation then txCreateGas S else txGas S) :: u64))"

abbreviation baseGas :: "Transaction \<Rightarrow> EVMSchedule \<Rightarrow> int" where
  "baseGas t S \<equiv> baseGasRequired (isCreation t) (t_data t) S"

definition c_secp256k1n :: u256 where
  "c_secp256k1n = 115792089237316195423570985008687907852837564279074904382605163141518161494337"

definition checkLowS :: "Transaction \<Rightarrow> tx_error + unit" where
  "checkLowS t = (case t_vrs t of
     None \<Rightarrow> Inl TransactionIsUnsigned
   | Some (r, s) \<Rightarrow> if s > c_secp256k1n div 2 then Inl InvalidSignature else Inr ())"

definition checkChainId :: "u64 \<Rightarrow> bool \<Rightarrow> Transaction \<Rightarrow> tx_error + unit" where
  "checkChainId chain disableChainIdCheck t =
    (if \<not> disableChainIdCheck \<and> t_chainId t = None then Inl InvalidTransactionFormat
     else case t_chainId t of
       None \<Rightarrow> Inr ()
     | Some c \<Rightarrow> if c \<noteq> chain then Inl InvalidSignature else Inr ())"

text \<open>
  The flags \<open>basic\<close> and \<open>signatures\<close> of \<open>ImportRequirements\<close>; \<open>number\<close> and \<open>gasLimit\<close> of the header.
\<close>

definition checkThat :: "'e \<Rightarrow> bool \<Rightarrow> 'e + unit" where
  "checkThat e b = (if b then Inr () else Inl e)"

definition SealEngine_verifyTransaction :: "ChainOperationParams \<Rightarrow> bool \<Rightarrow> bool \<Rightarrow> Transaction \<Rightarrow> int \<Rightarrow>
    u256 \<Rightarrow> u256 \<Rightarrow> u256 \<Rightarrow> tx_error + unit" where
  "SealEngine_verifyTransaction P basic signatures t timestamp number gasLimit gasUsed =
    (let g = (if isPatchEnabledWhen (sChainPatches P) PowCheckPatch timestamp
              then Transaction_gas t else t_gas t);
         schedule = makeEvmSchedule P timestamp number in
     bindE (checkThat InvalidSignature
       (\<not> (signatures \<and> number < EIP158ForkBlock P \<and> t_chainId t \<noteq> None))) (\<lambda>_.
     bindE (checkThat InvalidSignature
       (\<not> (signatures \<and> number < experimentalForkBlock P \<and> hasZeroSignature t))) (\<lambda>_.
     bindE (checkThat InvalidZeroSignatureTransaction
       (\<not> (basic \<and> number \<ge> experimentalForkBlock P \<and> hasZeroSignature t \<and>
           (t_value t \<noteq> 0 \<or> t_gasPrice t \<noteq> 0 \<or> t_nonce t \<noteq> 0)))) (\<lambda>_.
     bindE (if number \<ge> homesteadForkBlock P \<and> signatures \<and> t_vrs t \<noteq> None
            then checkLowS t else Inr ()) (\<lambda>_.
     bindE (checkThat OutOfGasIntrinsic (\<not> (basic \<and> baseGas t schedule > uint g))) (\<lambda>_.
     bindE (checkThat BlockGasLimitReached (uint gasUsed + uint g \<le> uint gasLimit)) (\<lambda>_.
     if signatures \<and> number \<ge> EIP158ForkBlock P
     then checkChainId (chainID P) (skaleDisableChainIdCheck P) t else Inr ())))))))"

end
