(* ===== verification/Executive.thy ===== *)
theory Executive
  imports Transaction State LegacyVM_Exec
begin

text \<open>
  \<open>libethereum/Executive.cpp\<close> and \<open>ExtVM.cpp\<close>: message calls and creations, which run the
  interpreter over the state.

  \<^item> The object \<open>Executive\<close> is a record with the \<open>State\<close> it refers to; its members are computations
    that may throw.  A call inside the interpreter makes a new \<open>Executive\<close> on the same state.
  \<^item> \<open>ExtVM\<close> is the record of its members; \<open>ExtVM_face\<close> is its implementation of \<open>ExtVMFace\<close>
    over a \<open>Host\<close>: the state, the \<open>SubState\<close> of the running \<open>ExtVM\<close>, and why the process has ended.
  \<^item> An exception that is no \<open>VMException\<close> passes through \<open>LegacyVM::exec\<close> into the handler of
    \<open>Executive::go\<close> that calls \<open>exit\<close>.  The host notes it in \<open>h_end\<close>, and from then on its methods
    do nothing; \<open>runVM\<close> then throws it instead of returning.
  \<^item> The reading methods (\<open>store\<close>, \<open>balance\<close>, \<open>codeAt\<close>, ..) only fill caches of the state, on which
    no result depends; the face returns their results and leaves the caches as they are.  On the
    states of an execution they do not throw.
  \<^item> Nesting is bounded by \<open>c_depthLimit\<close>; \<open>ExtVM_face\<close> counts the remaining levels down.
  \<^item> \<open>goOnOffloadedStack\<close> runs \<open>go\<close> in a thread that is joined at once: it is \<open>go\<close>.
  \<^item> Tracing and logging are left out.
\<close>

subsection \<open>Data\<close>

datatype TransactionException =
  TE_None | TE_Unknown | TE_BadRLP | TE_InvalidFormat | TE_OutOfGasIntrinsic | TE_InvalidSignature
  | TE_InvalidNonce | TE_NotEnoughCash | TE_OutOfGasBase | TE_BlockGasLimitReached
  | TE_BadInstruction | TE_BadJumpDestination | TE_OutOfGas | TE_OutOfStack | TE_StackUnderflow
  | TE_RevertInstruction | TE_InvalidZeroSignatureFormat | TE_AddressAlreadyUsed
  | TE_InvalidContractDeployer | TE_WouldNotBeInBlock

datatype CodeDeposit = CD_None | CD_Failed | CD_Success

record ExecutionResult =
  r_gasUsed :: u256
  r_excepted :: TransactionException
  r_newAddress :: address
  r_output :: bytes
  r_codeDeposit :: CodeDeposit
  r_gasRefunded :: u256
  r_depositSize :: u32
  r_gasForDeposit :: u256

record LogEntry =
  l_address :: address
  l_topics :: "u256 list"
  l_data :: bytes

record SubState =
  suicides :: "address set"
  logs :: "LogEntry list"
  refunds :: int

definition SubState_new :: SubState where
  "SubState_new = \<lparr>suicides = {}, logs = [], refunds = 0\<rparr>"

text \<open>\<open>operator+=\<close>.\<close>

definition SubState_add :: "SubState \<Rightarrow> SubState \<Rightarrow> SubState" where
  "SubState_add a b = \<lparr>suicides = suicides a \<union> suicides b, logs = logs a @ logs b,
     refunds = refunds a + refunds b\<rparr>"

record EnvInfo =
  i_number :: u64
  i_author :: address
  i_timestamp :: u64
  i_difficulty :: u256
  i_gasLimit :: u256
  i_parentHash :: h256
  i_precedingHashes :: "h256 \<Rightarrow> h256 list"
  i_committedBlockTimestamp :: int
  i_gasUsed :: u256
  i_chainID :: u256

text \<open>
  What surrounds an execution.  \<open>c_u256\<close> is the constructor of boost's number from a string, \<open>None\<close>
  when it throws; \<open>c_maxLog\<close> is \<open>m_changeLog.max_size()\<close>; \<open>c_blockhash\<close> is the answer of the block
  hash contract, which \<open>ExtVM::blockHash\<close> asks by a transaction of its own once the experimental fork
  is active; \<open>c_pastTier\<close> is the word behind the price table of the tiers.
\<close>

record 'd Context =
  c_env :: "'d Env"
  c_chain :: ChainOperationParams
  c_info :: EnvInfo
  c_u256 :: "string \<Rightarrow> u256 option"
  c_maxLog :: nat
  c_blockhash :: "address \<Rightarrow> u256 \<Rightarrow> 'd State \<Rightarrow> h256"
  c_pastTier :: u32

definition blockNumber :: "'d Context \<Rightarrow> u256" where
  "blockNumber C = ucast (i_number (c_info C))"

definition MaxAddress :: address where
  "MaxAddress = - 1"

definition SystemAddress :: address where
  "SystemAddress = - 2"

definition c_configControllerContractAddress :: address where
  "c_configControllerContractAddress = 0xD2002000000000000000000000000000000000D2"

text \<open>\<open>fromHex\<close> without exceptions.\<close>

definition hexBytes :: "string \<Rightarrow> bytes" where
  "hexBytes s = (case fromHex s DontThrow of Inr bs \<Rightarrow> bs | Inl _ \<Rightarrow> [])"

definition isAddressWhitelistedCallData :: "address \<Rightarrow> bytes" where
  "isAddressWhitelistedCallData deployer =
    hexBytes (''13f44d10000000000000000000000000'' @ toHex (h160_bytes deployer))"

definition isDeploymentAllowedCallData :: "address \<Rightarrow> address \<Rightarrow> bytes" where
  "isDeploymentAllowedCallData origin deployer =
    hexBytes (''d0f557f4000000000000000000000000'' @ toHex (h160_bytes origin) @
              ''000000000000000000000000'' @ toHex (h160_bytes deployer))"

subsection \<open>The objects\<close>

record ExtVM =
  e_myAddress :: address
  e_caller :: address
  e_origin :: address
  e_value :: u256
  e_gasPrice :: u256
  e_data :: bytes
  e_code :: bytes
  e_codeHash :: h256
  e_version :: u256
  e_depth :: nat
  e_isCreate :: bool
  e_staticCall :: bool
  e_readOnly :: bool
  e_evmSchedule :: EVMSchedule
  e_sub :: SubState

record 'd Executive =
  ex_s :: "'d State"
  ex_ext :: "ExtVM option"
  ex_output :: bytes
  ex_res :: "ExecutionResult option"
  ex_depth :: nat
  ex_readOnly :: bool
  ex_excepted :: TransactionException
  ex_baseGasRequired :: int
  ex_gas :: u256
  ex_t :: Transaction
  ex_logs :: "LogEntry list"
  ex_gasCost :: u256
  ex_isCreation :: bool
  ex_newAddress :: address
  ex_savepoint :: nat

definition Executive_new :: "'d State \<Rightarrow> nat \<Rightarrow> bool \<Rightarrow> 'd Executive" where
  "Executive_new s level readOnly = \<lparr>ex_s = s, ex_ext = None, ex_output = [], ex_res = None,
     ex_depth = level, ex_readOnly = readOnly, ex_excepted = TE_None, ex_baseGasRequired = 0,
     ex_gas = 0, ex_t = Transaction_new, ex_logs = [], ex_gasCost = 0, ex_isCreation = False,
     ex_newAddress = 0, ex_savepoint = 0\<rparr>"

text \<open>
  An exception that leaves an execution: a transaction that is refused, one of the state, a string
  that is no number, a change log that outgrows its \<open>std::vector\<close>, or a bound of the model that is
  never reached.
\<close>

datatype exec_error = TransactionError tx_error | StateException state_error
  | BadAnswer | LengthError | OutOfFuel

type_synonym ('d, 'a) exm = "('d Executive, exec_error, 'a) eff"

text \<open>
  A call of a member of \<open>m_s\<close>.  The state model lets its change log grow without end; that
  \<open>emplace_back\<close> throws when the vector is full is noticed here, at the end of the call.
\<close>

definition fullLog :: "'d Context \<Rightarrow> 'd State \<Rightarrow> bool" where
  "fullLog C s = (c_maxLog C < length (m_changeLog s))"

definition onState :: "'d Context \<Rightarrow> ('d, 'a) stm \<Rightarrow> ('d, 'a) exm" where
  "onState C m x = (let (r, s) = m (ex_s x) in
    (if fullLog C s then Inl LengthError
     else case r of Inl e \<Rightarrow> Inl (StateException e) | Inr v \<Rightarrow> Inr v, x\<lparr>ex_s := s\<rparr>))"

record 'd Host =
  h_s :: "'d State"
  h_sub :: SubState
  h_end :: "exec_error option"

subsection \<open>Setting up a call\<close>

definition initEvmSchedule :: "'d Context \<Rightarrow> u256 \<Rightarrow> EVMSchedule option" where
  "initEvmSchedule C version =
    (let currentBlockSchedule =
       makeEvmSchedule (c_chain C) (i_committedBlockTimestamp (c_info C)) (blockNumber C) in
     if ucast (accountVersion currentBlockSchedule) = version then Some currentBlockSchedule
     else latestScheduleForAccountVersion version)"

text \<open>The constructor with its assertion; an unknown version is an assertion as well.\<close>

definition ExtVM_new :: "'d Context \<Rightarrow> address \<Rightarrow> address \<Rightarrow> address \<Rightarrow> u256 \<Rightarrow> u256 \<Rightarrow> bytes \<Rightarrow> bytes \<Rightarrow>
    h256 \<Rightarrow> u256 \<Rightarrow> nat \<Rightarrow> bool \<Rightarrow> bool \<Rightarrow> bool \<Rightarrow> ('d, ExtVM) exm" where
  "ExtVM_new C myAddress caller origin value gasPrice data code codeHash version depth isCreate staticCall readOnly =
    (case initEvmSchedule C version of
       None \<Rightarrow> throwS (StateException AssertionFailed)
     | Some schedule \<Rightarrow>
         bindS (onState C (State_addressInUse (c_env C) myAddress)) (\<lambda>used.
         bindS (assertS (StateException AssertionFailed) used) (\<lambda>_.
         retS \<lparr>e_myAddress = myAddress, e_caller = caller, e_origin = origin, e_value = value,
           e_gasPrice = gasPrice, e_data = data, e_code = code, e_codeHash = codeHash,
           e_version = version, e_depth = depth, e_isCreate = isCreate, e_staticCall = staticCall,
           e_readOnly = readOnly, e_evmSchedule = schedule, e_sub = SubState_new\<rparr>)))"

definition Executive_revert :: "'d Context \<Rightarrow> ('d, unit) exm" where
  "Executive_revert C = bindS (modS (\<lambda>x. x\<lparr>ex_ext := map_option (\<lambda>e. e\<lparr>e_sub := SubState_new\<rparr>) (ex_ext x),
     ex_newAddress := 0\<rparr>)) (\<lambda>_. bindS getS (\<lambda>x. onState C (State_rollback (c_env C) (ex_savepoint x))))"

text \<open>\<open>true\<close> means that nothing is left to be run.\<close>

definition callPrecompiled :: "'d Context \<Rightarrow> CallParameters \<Rightarrow> ('d, bool) exm" where
  "callPrecompiled C p =
    (let g = costOfPrecompiled (c_chain C) (cp_codeAddress p) (cp_data p) (blockNumber C) in
     if unat (cp_gas p) < g then
       bindS (modS (\<lambda>x. x\<lparr>ex_excepted := TE_OutOfGasBase\<rparr>)) (\<lambda>_.
       bindS (if blockNumber C \<ge> EIP158ForkBlock (c_chain C)
              then onState C (State_addBalance (c_env C) (cp_codeAddress p) 0) else retS ()) (\<lambda>_.
       retS True))
     else
       bindS (modS (\<lambda>x. x\<lparr>ex_gas := cp_gas p - of_nat g\<rparr>)) (\<lambda>_.
       bindS getS (\<lambda>x.
       let ((success, output), fs) = executePrecompiled (c_chain C) (cp_codeAddress p) (cp_data p) (m_fs (ex_s x)) in
       bindS (modS (\<lambda>x. x\<lparr>ex_s := (ex_s x)\<lparr>m_fs := fs\<rparr>, ex_output := output\<rparr>)) (\<lambda>_.
       if \<not> success then
         bindS (modS (\<lambda>x. x\<lparr>ex_gas := 0, ex_excepted := TE_OutOfGas\<rparr>)) (\<lambda>_. retS True)
       else retS False))))"

definition callContract :: "'d Context \<Rightarrow> CallParameters \<Rightarrow> u256 \<Rightarrow> address \<Rightarrow> ('d, unit) exm" where
  "callContract C p gasPrice origin = (let E = c_env C in
    bindS (modS (\<lambda>x. x\<lparr>ex_gas := cp_gas p\<rparr>)) (\<lambda>_.
    bindS (onState C (State_addressHasCode E (cp_codeAddress p))) (\<lambda>hasCode.
    if hasCode then
      bindS (onState C (State_code E (cp_codeAddress p))) (\<lambda>c.
      bindS (onState C (State_codeHash E (cp_codeAddress p))) (\<lambda>codeHash.
      bindS (onState C (State_version E (cp_codeAddress p))) (\<lambda>version.
      bindS getS (\<lambda>x.
      bindS (ExtVM_new C (cp_receiveAddress p) (cp_senderAddress p) origin (cp_apparentValue p) gasPrice
        (cp_data p) c codeHash version (ex_depth x) False (cp_staticCall p) (ex_readOnly x)) (\<lambda>ext.
      modS (\<lambda>x. x\<lparr>ex_ext := Some ext\<rparr>))))))
    else retS ())))"

definition Executive_call :: "'d Context \<Rightarrow> CallParameters \<Rightarrow> u256 \<Rightarrow> address \<Rightarrow> ('d, bool) exm" where
  "Executive_call C p gasPrice origin = (let E = c_env C in
    bindS getS (\<lambda>x.
    bindS (if Transaction_set (ex_t x) \<and>
              (cp_senderAddress p \<noteq> MaxAddress \<or> blockNumber C < constantinopleForkBlock (c_chain C))
           then onState C (State_incNonce E (cp_senderAddress p)) else retS ()) (\<lambda>_.
    bindS (modS (\<lambda>x. x\<lparr>ex_savepoint := savepoint (ex_s x)\<rparr>)) (\<lambda>_.
    bindS (if isPrecompiled (c_chain C) (cp_codeAddress p) (blockNumber C) \<and>
              precompiledExecutionAllowedFrom (c_chain C) (cp_codeAddress p) (cp_senderAddress p) (ex_readOnly x)
           then callPrecompiled C p
           else bindS (callContract C p gasPrice origin) (\<lambda>_. retS False)) (\<lambda>finished.
    if finished then retS True
    else bindS (onState C (State_transferBalance E (cp_senderAddress p) (cp_receiveAddress p) (cp_valueTransfer p)))
      (\<lambda>_. bindS getS (\<lambda>x. retS (ex_ext x = None))))))))"

subsection \<open>Setting up a creation\<close>

definition executeCreate ::
    "'d Context \<Rightarrow> address \<Rightarrow> u256 \<Rightarrow> u256 \<Rightarrow> u256 \<Rightarrow> bytes \<Rightarrow> address \<Rightarrow> u256 \<Rightarrow> ('d, bool) exm" where
  "executeCreate C sender endowment gasPrice gas init origin version = (let E = c_env C in
    bindS (if sender \<noteq> MaxAddress \<or> blockNumber C < experimentalForkBlock (c_chain C)
           then onState C (State_incNonce E sender) else retS ()) (\<lambda>_.
    bindS (modS (\<lambda>x. x\<lparr>ex_savepoint := savepoint (ex_s x), ex_isCreation := True, ex_gas := gas\<rparr>)) (\<lambda>_.
    bindS getS (\<lambda>x. let newAddress = ex_newAddress x in
    bindS (onState C (State_addressHasCode E newAddress)) (\<lambda>hasCode.
    bindS (if hasCode then retS 1 else onState C (State_getNonce E newAddress)) (\<lambda>nonce.
    if hasCode \<or> nonce > 0 then
      bindS (modS (\<lambda>x. x\<lparr>ex_gas := 0, ex_excepted := TE_AddressAlreadyUsed\<rparr>)) (\<lambda>_.
      bindS (Executive_revert C) (\<lambda>_.
      bindS (modS (\<lambda>x. x\<lparr>ex_ext := None\<rparr>)) (\<lambda>_. retS True)))
    else
      bindS (onState C (State_transferBalance E sender newAddress endowment)) (\<lambda>_.
      bindS (onState C requireAccountStartNonce) (\<lambda>start.
      let newNonce = (if blockNumber C \<ge> EIP158ForkBlock (c_chain C) then start + 1 else start) in
      bindS (onState C (State_setNonce E newAddress newNonce)) (\<lambda>_.
      bindS (onState C (State_clearStorage E newAddress)) (\<lambda>_.
      if init \<noteq> [] then
        bindS getS (\<lambda>x.
        bindS (ExtVM_new C newAddress sender origin endowment gasPrice [] init (sha3 E init) version
          (ex_depth x) True False True) (\<lambda>ext.
        bindS (modS (\<lambda>x. x\<lparr>ex_ext := Some ext\<rparr>)) (\<lambda>_. retS False)))
      else
        bindS (onState C (State_setCode E newAddress [] version)) (\<lambda>_. retS True)))))))))))"

text \<open>\<open>rlpList(sender, nonce)\<close>.\<close>

definition createRLP :: "address \<Rightarrow> u256 \<Rightarrow> rlp_error + bytes" where
  "createRLP sender nonce =
    bindE (appendList 2 RLPStream_new) (\<lambda>r. bindE (append_bytes (h160_bytes sender) False r) (\<lambda>r.
    bindE (append_int (unat nonce) r) stream_out))"

definition createOpcode ::
    "'d Context \<Rightarrow> address \<Rightarrow> u256 \<Rightarrow> u256 \<Rightarrow> u256 \<Rightarrow> bytes \<Rightarrow> address \<Rightarrow> ('d, bool) exm" where
  "createOpcode C sender endowment gasPrice gas init origin = (let E = c_env C in
    bindS (onState C (State_getNonce E sender)) (\<lambda>nonce.
    bindS (onState C (liftS (mapErr StateRLP (createRLP sender nonce)))) (\<lambda>r.
    bindS (modS (\<lambda>x. x\<lparr>ex_newAddress := right160 (sha3 E r)\<rparr>)) (\<lambda>_.
    bindS (onState C (State_version E sender)) (\<lambda>version.
    executeCreate C sender endowment gasPrice gas init origin version)))))"

definition create2Opcode ::
    "'d Context \<Rightarrow> address \<Rightarrow> u256 \<Rightarrow> u256 \<Rightarrow> u256 \<Rightarrow> bytes \<Rightarrow> address \<Rightarrow> u256 \<Rightarrow> ('d, bool) exm" where
  "create2Opcode C sender endowment gasPrice gas init origin salt = (let E = c_env C in
    bindS (modS (\<lambda>x. x\<lparr>ex_newAddress := right160 (sha3 E
      ([0xff] @ h160_bytes sender @ h256_bytes salt @ h256_bytes (sha3 E init)))\<rparr>)) (\<lambda>_.
    bindS (onState C (State_version E sender)) (\<lambda>version.
    executeCreate C sender endowment gasPrice gas init origin version)))"

definition Executive_create ::
    "'d Context \<Rightarrow> address \<Rightarrow> u256 \<Rightarrow> u256 \<Rightarrow> u256 \<Rightarrow> bytes \<Rightarrow> address \<Rightarrow> ('d, bool) exm" where
  "Executive_create C txSender endowment gasPrice gas init origin =
    createOpcode C txSender endowment gasPrice gas init origin"

subsection \<open>Running\<close>

text \<open>The exceptions that \<open>go\<close> handles; \<open>face\<close> is the interface through which an \<open>ExtVM\<close> is used.\<close>

datatype go_exception = VMException vm_error | InvalidContractDeployer

fun toTransactionException :: "go_exception \<Rightarrow> TransactionException" where
  "toTransactionException (VMException BadInstruction) = TE_BadInstruction"
| "toTransactionException (VMException BadJumpDestination) = TE_BadJumpDestination"
| "toTransactionException (VMException OutOfGas) = TE_OutOfGas"
| "toTransactionException (VMException OutOfStack) = TE_OutOfStack"
| "toTransactionException (VMException StackUnderflow) = TE_StackUnderflow"
| "toTransactionException InvalidContractDeployer = TE_InvalidContractDeployer"
| "toTransactionException (VMException _) = TE_Unknown"

type_synonym 'd faces = "ExtVM \<Rightarrow> 'd Host ExtVMFace"

text \<open>After a use of the host: its state, and its exception if it has one.\<close>

definition takeHost :: "ExtVM \<Rightarrow> 'd Host \<Rightarrow> ('d, unit) exm" where
  "takeHost X h = bindS (modS (\<lambda>x. x\<lparr>ex_s := h_s h, ex_ext := Some (X\<lparr>e_sub := h_sub h\<rparr>)\<rparr>)) (\<lambda>_.
    case h_end h of None \<Rightarrow> retS () | Some e \<Rightarrow> throwS e)"

definition hostOf :: "ExtVM \<Rightarrow> 'd Executive \<Rightarrow> 'd Host" where
  "hostOf X x = \<lparr>h_s = ex_s x, h_sub = e_sub X, h_end = None\<rparr>"

text \<open>\<open>vm->exec( m_gas, *m_ext, _onOp )\<close>.\<close>

definition runVM :: "'d faces \<Rightarrow> ('d, vm_error + bytes) exm" where
  "runVM face = bindS getS (\<lambda>x. case ex_ext x of
     None \<Rightarrow> throwS (StateException NullPointer)
   | Some X \<Rightarrow> (case exec (face X) (Suc (as_u64 (ex_gas x))) (ex_gas x) (hostOf X x) of
       None \<Rightarrow> throwS OutOfFuel
     | Some (r, gas, h) \<Rightarrow> bindS (modS (\<lambda>x. x\<lparr>ex_gas := gas\<rparr>)) (\<lambda>_. bindS (takeHost X h) (\<lambda>_. retS r))))"

text \<open>The call of the contract that decides whether the deployment is allowed.\<close>

definition deploymentParams :: "'d Context \<Rightarrow> ExtVM \<Rightarrow> u256 \<Rightarrow> CallParameters" where
  "deploymentParams C X gas = CallParameters_new\<lparr>cp_senderAddress := SystemAddress,
     cp_codeAddress := c_configControllerContractAddress,
     cp_receiveAddress := c_configControllerContractAddress, cp_gas := gas,
     cp_data := (if isPatchEnabledWhen (sChainPatches (c_chain C)) FlexibleDeploymentPatch
                      (i_committedBlockTimestamp (c_info C))
                 then isDeploymentAllowedCallData (e_origin X) (e_caller X)
                 else isAddressWhitelistedCallData (e_caller X))\<rparr>"

definition checkDeployment :: "'d Context \<Rightarrow> 'd faces \<Rightarrow> ('d, go_exception option) exm" where
  "checkDeployment C face = bindS getS (\<lambda>x. case ex_ext x of
     None \<Rightarrow> throwS (StateException NullPointer)
   | Some X \<Rightarrow>
       let (r, h) = x_call (face X) (deploymentParams C X (ex_gas x)) (hostOf X x);
           output = toHex (cr_output r) in
       bindS (takeHost X h) (\<lambda>_.
       if output \<noteq> [] then
         (case c_u256 C output of
            None \<Rightarrow> throwS BadAnswer
          | Some v \<Rightarrow> retS (if v = 0 then Some InvalidContractDeployer else None))
       else retS None))"

text \<open>\<open>if ( m_res ) m_res-> ..\<close>.\<close>

definition updRes :: "(ExecutionResult \<Rightarrow> ExecutionResult) \<Rightarrow> ('d, unit) exm" where
  "updRes f = modS (\<lambda>x. x\<lparr>ex_res := map_option f (ex_res x)\<rparr>)"

text \<open>Paying for the new code and storing it.\<close>

definition depositCode :: "'d Context \<Rightarrow> bytes \<Rightarrow> ('d, go_exception option) exm" where
  "depositCode C out = bindS getS (\<lambda>x. case ex_ext x of
     None \<Rightarrow> throwS (StateException NullPointer)
   | Some X \<Rightarrow> let S = e_evmSchedule X; price = of_nat (length out) * (ucast (createDataGas S) :: u64) in
       bindS (updRes (\<lambda>r. r\<lparr>r_gasForDeposit := ex_gas x, r_depositSize := of_nat (length out)\<rparr>)) (\<lambda>_.
       let store = (\<lambda>out. bindS (updRes (\<lambda>r. r\<lparr>r_output := out\<rparr>)) (\<lambda>_.
             bindS (onState C (State_setCode (c_env C) (e_myAddress X) out (e_version X))) (\<lambda>_. retS None))) in
       if unat (maxCodeSize S) < length out then retS (Some (VMException OutOfGas))
       else if ucast price \<le> ex_gas x then
         bindS (updRes (\<lambda>r. r\<lparr>r_codeDeposit := CD_Success\<rparr>)) (\<lambda>_.
         bindS (modS (\<lambda>x. x\<lparr>ex_gas := ex_gas x - ucast price\<rparr>)) (\<lambda>_. store out))
       else if exceptionalFailedCodeDeposit S then retS (Some (VMException OutOfGas))
       else bindS (updRes (\<lambda>r. r\<lparr>r_codeDeposit := CD_Failed\<rparr>)) (\<lambda>_. store [])))"

text \<open>The \<open>try\<close> block; the result is the exception it throws.\<close>

definition goTry :: "'d Context \<Rightarrow> 'd faces \<Rightarrow> ('d, go_exception option) exm" where
  "goTry C face = bindS getS (\<lambda>x.
    if ex_isCreation x then
      bindS (checkDeployment C face) (\<lambda>e. case e of
        Some e \<Rightarrow> retS (Some e)
      | None \<Rightarrow> bindS (runVM face) (\<lambda>r. case r of
          Inl e \<Rightarrow> retS (Some (VMException e))
        | Inr out \<Rightarrow> depositCode C out))
    else bindS (runVM face) (\<lambda>r. case r of
        Inl e \<Rightarrow> retS (Some (VMException e))
      | Inr out \<Rightarrow> bindS (modS (\<lambda>x. x\<lparr>ex_output := out\<rparr>)) (\<lambda>_. retS None)))"

definition goCatch :: "'d Context \<Rightarrow> go_exception \<Rightarrow> ('d, unit) exm" where
  "goCatch C e = (case e of
     VMException (RevertInstruction out) \<Rightarrow> bindS (Executive_revert C) (\<lambda>_.
       modS (\<lambda>x. x\<lparr>ex_output := out, ex_excepted := TE_RevertInstruction\<rparr>))
   | _ \<Rightarrow> bindS (modS (\<lambda>x. x\<lparr>ex_gas := 0, ex_excepted := toTransactionException e\<rparr>)) (\<lambda>_.
       Executive_revert C))"

definition Executive_go :: "'d Context \<Rightarrow> 'd faces \<Rightarrow> ('d, unit) exm" where
  "Executive_go C face = bindS getS (\<lambda>x.
    if ex_ext x = None then retS ()
    else bindS (goTry C face) (\<lambda>r.
      bindS (case r of None \<Rightarrow> retS () | Some e \<Rightarrow> goCatch C e) (\<lambda>_.
      bindS getS (\<lambda>x. if ex_output x \<noteq> [] then updRes (\<lambda>r. r\<lparr>r_output := ex_output x\<rparr>) else retS ()))))"

subsection \<open>ExtVM\<close>

text \<open>
  A nested execution: \<open>setup\<close> is the call or creation that prepares it, and \<open>go\<close> runs the
  interpreter when something is left to run.  The second component is its end, by an exception
  or normally.
\<close>

definition nested :: "'d Context \<Rightarrow> 'd faces \<Rightarrow> ('d, bool) exm \<Rightarrow> 'd Executive \<Rightarrow> 'd Host \<Rightarrow> 'd Executive \<times> 'd Host" where
  "nested C face setup e h = (case setup e of
     (Inl err, e) \<Rightarrow> (e, h\<lparr>h_s := ex_s e, h_end := Some err\<rparr>)
   | (Inr finished, e) \<Rightarrow>
       if finished then (e, h\<lparr>h_s := ex_s e\<rparr>)
       else (case Executive_go C face e of
         (Inl err, e) \<Rightarrow> (e, h\<lparr>h_s := ex_s e, h_end := Some err\<rparr>)
       | (Inr _, e) \<Rightarrow> (e, h\<lparr>h_s := ex_s e, h_sub := (case ex_ext e of
           None \<Rightarrow> h_sub h | Some X \<Rightarrow> SubState_add (h_sub h) (e_sub X))\<rparr>)))"

text \<open>\<open>transactionExceptionToEvmcStatusCode(ex) == EVMC_SUCCESS\<close>.\<close>

definition evmcSuccess :: "TransactionException \<Rightarrow> bool" where
  "evmcSuccess e = (e = TE_None)"

definition ExtVM_call :: "'d Context \<Rightarrow> 'd faces \<Rightarrow> ExtVM \<Rightarrow> CallParameters \<Rightarrow> 'd Host \<Rightarrow> CallResult \<times> 'd Host" where
  "ExtVM_call C face X p h =
    (if h_end h \<noteq> None then (\<lparr>cr_status = False, cr_output = [], cr_gas = 0\<rparr>, h)
     else let (e, h) = nested C face (Executive_call C p (e_gasPrice X) (e_origin X))
                         (Executive_new (h_s h) (e_depth X + 1) (e_readOnly X)) h in
       if h_end h \<noteq> None then (\<lparr>cr_status = False, cr_output = [], cr_gas = 0\<rparr>, h)
       else (\<lparr>cr_status = evmcSuccess (ex_excepted e), cr_output = ex_output e, cr_gas = ex_gas e\<rparr>, h))"

definition ExtVM_create :: "'d Context \<Rightarrow> 'd faces \<Rightarrow> ExtVM \<Rightarrow> u256 \<Rightarrow> u256 \<Rightarrow> bytes \<Rightarrow> call_instr \<Rightarrow> u256 \<Rightarrow>
    'd Host \<Rightarrow> CreateResult \<times> 'd Host" where
  "ExtVM_create C face X endowment io_gas code op salt h =
    (if h_end h \<noteq> None then (\<lparr>cre_output = [], cre_address = 0, cre_gas = 0\<rparr>, h)
     else let (e, h) = nested C face
                (if op = CREATE
                 then createOpcode C (e_myAddress X) endowment (e_gasPrice X) io_gas code (e_origin X)
                 else create2Opcode C (e_myAddress X) endowment (e_gasPrice X) io_gas code (e_origin X) salt)
                (Executive_new (h_s h) (e_depth X + 1) True) h in
       if h_end h \<noteq> None then (\<lparr>cre_output = [], cre_address = 0, cre_gas = 0\<rparr>, h)
       else (\<lparr>cre_output = ex_output e, cre_address = ex_newAddress e, cre_gas = ex_gas e\<rparr>, h))"

text \<open>Reading and changing the state behind the host.\<close>

definition ask :: "'a \<Rightarrow> ('d, 'a) stm \<Rightarrow> 'd Host \<Rightarrow> 'a" where
  "ask d m h = (if h_end h \<noteq> None then d else case fst (m (h_s h)) of Inr v \<Rightarrow> v | Inl _ \<Rightarrow> d)"

definition act :: "'d Context \<Rightarrow> ('d, unit) stm \<Rightarrow> 'd Host \<Rightarrow> 'd Host" where
  "act C m h = (if h_end h \<noteq> None then h else let (r, s) = m (h_s h) in
     h\<lparr>h_s := s, h_end := (if fullLog C s then Some LengthError
       else case r of Inl e \<Rightarrow> Some (StateException e) | Inr _ \<Rightarrow> None)\<rparr>)"

definition emptinessIsNonexistence :: "EVMSchedule \<Rightarrow> bool" where
  "emptinessIsNonexistence S = eip158Mode S"

definition ExtVM_exists :: "'d Env \<Rightarrow> ExtVM \<Rightarrow> address \<Rightarrow> ('d, bool) stm" where
  "ExtVM_exists E X a = (if emptinessIsNonexistence (e_evmSchedule X)
    then State_accountNonemptyAndExisting E a else State_addressInUse E a)"

definition ExtVM_codeHashAt :: "'d Env \<Rightarrow> ExtVM \<Rightarrow> address \<Rightarrow> ('d, h256) stm" where
  "ExtVM_codeHashAt E X a = bindS (ExtVM_exists E X a) (\<lambda>b. if b then State_codeHash E a else retS 0)"

definition ExtVM_setStore :: "'d Context \<Rightarrow> ExtVM \<Rightarrow> u256 \<Rightarrow> u256 \<Rightarrow> 'd Host \<Rightarrow> bool \<times> 'd Host" where
  "ExtVM_setStore C X n v h = (if h_end h \<noteq> None then (True, h)
    else let (r, s) = State_setStorage (c_env C) (e_myAddress X) n v (h_s h) in
      if \<not> fullLog C s \<and> r = Inl StorageOverflowError then (False, h\<lparr>h_s := s\<rparr>)
      else (True, h\<lparr>h_s := s, h_end := (if fullLog C s then Some LengthError
        else case r of Inl e \<Rightarrow> Some (StateException e) | Inr _ \<Rightarrow> None)\<rparr>))"

definition ExtVM_suicide :: "'d Context \<Rightarrow> ExtVM \<Rightarrow> address \<Rightarrow> 'd Host \<Rightarrow> 'd Host" where
  "ExtVM_suicide C X a h = (let E = c_env C;
         h = act C (bindS (State_balance E (e_myAddress X)) (\<lambda>b.
                  bindS (State_addBalance E a b) (\<lambda>_. State_setBalance E (e_myAddress X) 0))) h
     in h\<lparr>h_sub := (h_sub h)\<lparr>suicides := insert (e_myAddress X) (suicides (h_sub h))\<rparr>\<rparr>)"

definition ExtVM_log :: "ExtVM \<Rightarrow> u256 list \<Rightarrow> bytes \<Rightarrow> 'd Host \<Rightarrow> 'd Host" where
  "ExtVM_log X topics data h = h\<lparr>h_sub := (h_sub h)\<lparr>logs := logs (h_sub h) @
     [\<lparr>l_address = e_myAddress X, l_topics = topics, l_data = data\<rparr>]\<rparr>\<rparr>"

definition ExtVM_refund :: "int \<Rightarrow> 'd Host \<Rightarrow> 'd Host" where
  "ExtVM_refund d h = h\<lparr>h_sub := (h_sub h)\<lparr>refunds := refunds (h_sub h) + d\<rparr>\<rparr>"

definition ExtVM_blockHash :: "'d Context \<Rightarrow> ExtVM \<Rightarrow> u256 \<Rightarrow> ('d, h256) stm" where
  "ExtVM_blockHash C X number = (let currentNumber = blockNumber C; I = c_info C in
    if number \<ge> currentNumber \<or> number < max 256 currentNumber - 256 then retS 0
    else if currentNumber < experimentalForkBlock (c_chain C) + 256 then
      let lastHashes = i_precedingHashes I (i_parentHash I);
          i = unat (ucast (currentNumber - 1 - number) :: u32) in
      bindS (assertS AssertionFailed (i < length lastHashes)) (\<lambda>_. retS (lastHashes ! i))
    else bindS getS (\<lambda>s. retS (c_blockhash C (e_caller X) number s)))"

text \<open>The interface, with the two methods that start a nested execution as arguments.\<close>

definition ExtVM_base :: "'d Context \<Rightarrow> ExtVM \<Rightarrow> (CallParameters \<Rightarrow> 'd Host \<Rightarrow> CallResult \<times> 'd Host) \<Rightarrow>
    (u256 \<Rightarrow> u256 \<Rightarrow> bytes \<Rightarrow> call_instr \<Rightarrow> u256 \<Rightarrow> 'd Host \<Rightarrow> CreateResult \<times> 'd Host) \<Rightarrow> 'd Host ExtVMFace" where
  "ExtVM_base C X call create = (let E = c_env C; I = c_info C in
    \<lparr>x_myAddress = e_myAddress X, x_caller = e_caller X, x_origin = e_origin X, x_value = e_value X,
     x_gasPrice = e_gasPrice X, x_data = e_data X, x_code = e_code X, x_depth = e_depth X,
     x_staticCall = e_staticCall X, x_number = i_number I, x_author = i_author I,
     x_timestamp = i_timestamp I, x_difficulty = i_difficulty I, x_gasLimit = i_gasLimit I,
     x_chainID = i_chainID I, x_evmSchedule = e_evmSchedule X, x_pastTier = c_pastTier C,
     x_sha3 = sha3 E,
     x_store = (\<lambda>h k. ask 0 (State_storage E (e_myAddress X) k) h),
     x_setStore = ExtVM_setStore C X,
     x_originalStorageValue = (\<lambda>h k. ask 0 (State_originalStorageValue E (e_myAddress X) k) h),
     x_balance = (\<lambda>h a. ask 0 (State_balance E a) h),
     x_codeAt = (\<lambda>h a. ask [] (State_code E a) h),
     x_codeSizeAt = (\<lambda>h a. ask 0 (State_codeSize E a) h),
     x_codeHashAt = (\<lambda>h a. ask 0 (ExtVM_codeHashAt E X a) h),
     x_exists = (\<lambda>h a. ask False (ExtVM_exists E X a) h),
     x_suicide = ExtVM_suicide C X, x_create = create, x_call = call, x_log = ExtVM_log X,
     x_blockHash = (\<lambda>h n. ask 0 (ExtVM_blockHash C X n) h), x_refund = ExtVM_refund\<rparr>)"

text \<open>With \<open>n\<close> levels of nesting below this one.\<close>

primrec ExtVM_face :: "'d Context \<Rightarrow> nat \<Rightarrow> 'd faces" where
  "ExtVM_face C 0 = (\<lambda>X. ExtVM_base C X
     (\<lambda>p h. (\<lparr>cr_status = False, cr_output = [], cr_gas = 0\<rparr>, h\<lparr>h_end := Some OutOfFuel\<rparr>))
     (\<lambda>e g c op salt h. (\<lparr>cre_output = [], cre_address = 0, cre_gas = 0\<rparr>, h\<lparr>h_end := Some OutOfFuel\<rparr>)))"
| "ExtVM_face C (Suc n) = (\<lambda>X. ExtVM_base C X
     (ExtVM_call C (ExtVM_face C n) X) (ExtVM_create C (ExtVM_face C n) X))"

end
